(* ===== verification/Prelude.thy ===== *)
theory Prelude
  imports Complex_Main "HOL-Library.Multiset"
begin

text \<open>
  Shared vocabulary of the development: the collections of facts its proofs use, lemmas on
  lists and finite maps that several components need, decimal printing of integers, and the
  part of Python's string type that the program uses.

  A Python \<open>str\<close> is modelled by its UTF-8 encoding, a list of 8-bit characters. On ASCII
  text every operation below is Python's. Outside ASCII, \<open>length\<close> counts bytes and the
  Unicode rules of \<open>lower\<close> and of white space are not modelled.
\<close>

named_theorems guard_simps "equations that unfold one operation of a component"
named_theorems inv_intros "each operation keeps its component's invariant"

type_synonym time = real
type_synonym oid = nat
type_synonym 'a obj = "oid \<times> 'a"

section \<open>Lists\<close>

lemma take_append_take [simp]: "take n (xs @ take n ys) = take n (xs @ ys)"
  by (simp add: min_def)

lemma take_Cons_take [simp]: "take n (x # take n ys) = take n (x # ys)"
  by (cases n) (simp_all add: min_def)

lemma set_take_subset': "x \<in> set (take n xs) \<Longrightarrow> x \<in> set xs"
  by (rule in_set_takeD)

lemma length_filter_le_append:
  "length (filter P xs) \<le> length (filter P (xs @ ys))"
  by simp

lemma distinct_map_fst_inj:
  "distinct (map fst xs) \<Longrightarrow> (i, a) \<in> set xs \<Longrightarrow> (i, b) \<in> set xs \<Longrightarrow> a = b"
  by (induction xs) (auto simp: rev_image_eqI)

lemma mset_take_drop: "mset (take n xs) + mset (drop n xs) = mset xs"
  by (metis append_take_drop_id mset_append)

section \<open>Finite maps\<close>

lemma dom_restrict_upd_None: "dom (m(k := None)) = dom m - {k}"
  by (auto simp: dom_def)

lemma ran_upd_subset: "ran (m(k := v)) \<subseteq> ran m \<union> set_option v"
  by (auto simp: ran_def)

lemma ran_upd_None_subset: "ran (m(k := None)) \<subseteq> ran m"
  by (auto simp: ran_def)

section \<open>Printing integers\<close>

definition digit_char :: "nat \<Rightarrow> char" where
  "digit_char d = char_of (48 + d)"

fun show_nat :: "nat \<Rightarrow> string" where
  "show_nat n = (if n < 10 then [digit_char n] else show_nat (n div 10) @ [digit_char (n mod 10)])"

declare show_nat.simps [simp del]

definition show_int :: "int \<Rightarrow> string" where
  "show_int i = (if i < 0 then CHR ''-'' # show_nat (nat (- i)) else show_nat (nat i))"

section \<open>Strings\<close>

text \<open>The ASCII characters that \<open>str.strip\<close> and \<open>str.split\<close> treat as white space.\<close>

definition is_space :: "char \<Rightarrow> bool" where
  "is_space c \<longleftrightarrow> (let n = of_char c :: nat in (9 \<le> n \<and> n \<le> 13) \<or> (28 \<le> n \<and> n \<le> 32))"

definition lstrip :: "string \<Rightarrow> string" where
  "lstrip s = dropWhile is_space s"

definition strip :: "string \<Rightarrow> string" where
  "strip s = rev (dropWhile is_space (rev (lstrip s)))"

definition lower_char :: "char \<Rightarrow> char" where
  "lower_char c = (let n = of_char c :: nat in if 65 \<le> n \<and> n \<le> 90 then char_of (n + 32) else c)"

definition lower :: "string \<Rightarrow> string" where
  "lower s = map lower_char s"

text \<open>\<open>s.rstrip(c)\<close> for a single character \<open>c\<close>.\<close>

definition rstrip_char :: "char \<Rightarrow> string \<Rightarrow> string" where
  "rstrip_char c s = rev (dropWhile (\<lambda>x. x = c) (rev s))"

definition starts_with :: "string \<Rightarrow> string \<Rightarrow> bool" where
  "starts_with p s \<longleftrightarrow> take (length p) s = p"

definition ends_with :: "string \<Rightarrow> string \<Rightarrow> bool" where
  "ends_with p s \<longleftrightarrow> drop (length s - length p) s = p"

text \<open>\<open>s.split()\<close> on runs of white space, and \<open>sep.join(parts)\<close>.\<close>

function split_ws :: "string \<Rightarrow> string list" where
  "split_ws [] = []"
| "split_ws (c # cs) =
     (if is_space c then split_ws cs
      else (c # takeWhile (\<lambda>x. \<not> is_space x) cs) # split_ws (dropWhile (\<lambda>x. \<not> is_space x) cs))"
  by pat_completeness auto
termination
  by (relation "measure length") (auto simp: length_dropWhile_le less_Suc_eq_le)

fun join :: "string \<Rightarrow> string list \<Rightarrow> string" where
  "join sep [] = []"
| "join sep [x] = x"
| "join sep (x # y # zs) = x @ sep @ join sep (y # zs)"

text \<open>\<open>s.split(c)[-1]\<close>: what follows the last occurrence of the separator.\<close>

definition after_last :: "char \<Rightarrow> string \<Rightarrow> string" where
  "after_last c s = rev (takeWhile (\<lambda>x. x \<noteq> c) (rev s))"

text \<open>Evaluation of the string operations on literals.\<close>

lemmas string_eval = lower_def lower_char_def strip_def lstrip_def is_space_def rstrip_char_def
  starts_with_def ends_with_def after_last_def char_of_def bit_0

lemma rstrip_char_no_suffix: "rstrip_char c s = [] \<or> last (rstrip_char c s) \<noteq> c"
proof (cases "dropWhile (\<lambda>x. x = c) (rev s)")
  case Nil
  then show ?thesis by (simp add: rstrip_char_def)
next
  case (Cons y ys)
  then have "hd (dropWhile (\<lambda>x. x = c) (rev s)) \<noteq> c"
    by (metis (mono_tags, lifting) hd_dropWhile list.distinct(1))
  with Cons show ?thesis by (simp add: rstrip_char_def)
qed

lemma after_last_append: "c \<notin> set k \<Longrightarrow> after_last c (p @ c # k) = k"
proof -
  assume "c \<notin> set k"
  then have "takeWhile (\<lambda>x. x \<noteq> c) (rev k @ c # rev p) = rev k"
    by (subst takeWhile_append2) auto
  then show ?thesis by (simp add: after_last_def)
qed

lemma split_ws_no_space: "w \<in> set (split_ws s) \<Longrightarrow> x \<in> set w \<Longrightarrow> \<not> is_space x"
  by (induction s rule: split_ws.induct) (auto split: if_splits dest: set_takeWhileD)

lemma set_join: "x \<in> set (join sep ws) \<Longrightarrow> x \<in> set sep \<or> (\<exists>w \<in> set ws. x \<in> set w)"
  by (induction sep ws rule: join.induct) auto

section \<open>UTF-8\<close>

text \<open>\<open>bytes.decode("utf-8")\<close> succeeds: no stray, overlong, surrogate or too large sequences.\<close>

definition byte_in :: "nat \<Rightarrow> nat \<Rightarrow> char \<Rightarrow> bool" where
  "byte_in lo hi c \<longleftrightarrow> lo \<le> of_char c \<and> (of_char c :: nat) \<le> hi"

fun utf8_valid :: "string \<Rightarrow> bool" where
  "utf8_valid [] = True"
| "utf8_valid (a # cs) =
     (if byte_in 0 127 a then utf8_valid cs
      else case cs of [] \<Rightarrow> False
      | b # cs2 \<Rightarrow>
          if byte_in 194 223 a then byte_in 128 191 b \<and> utf8_valid cs2
          else (case cs2 of [] \<Rightarrow> False
          | c # cs3 \<Rightarrow>
              if byte_in 224 239 a then
                byte_in (if a = CHR 0xE0 then 160 else 128) (if a = CHR 0xED then 159 else 191) b
                \<and> byte_in 128 191 c \<and> utf8_valid cs3
              else (case cs3 of [] \<Rightarrow> False
              | d # cs4 \<Rightarrow>
                  byte_in 240 244 a
                  \<and> byte_in (if a = CHR 0xF0 then 144 else 128) (if a = CHR 0xF4 then 143 else 191) b
                  \<and> byte_in 128 191 c \<and> byte_in 128 191 d \<and> utf8_valid cs4)))"

end
