(* ===== verification/PyErrors.thy ===== *)
theory PyErrors
  imports Prelude
begin

text \<open>
  The exceptions of the program (\<open>exceptions.py\<close>, \<open>utils.py\<close>, \<open>encryption.py\<close>) and of
  the Python and httpx calls it makes, as one datatype; the class tests its \<open>except\<close> clauses
  make; and Python's \<open>float()\<close>, which decides how a \<open>Retry-After\<close> header is read.

  A computation that may raise returns \<open>exn + 'a\<close>: \<open>Inl\<close> the exception, \<open>Inr\<close> the value.
\<close>

section \<open>Floating point values\<close>

text \<open>
  Times, delays and ratios are modelled as exact reals: rounding is not modelled. Where the
  code can meet an infinity or a NaN (a parsed header) the value is a \<open>pyfloat\<close>.
\<close>

datatype pyfloat = Fin real | PInf | NInf | NaN

text \<open>\<open>a < b\<close> on floats: every comparison with a NaN is false.\<close>

fun pf_less :: "pyfloat \<Rightarrow> pyfloat \<Rightarrow> bool" where
  "pf_less (Fin a) (Fin b) = (a < b)"
| "pf_less (Fin a) PInf = True"
| "pf_less NInf (Fin b) = True"
| "pf_less NInf PInf = True"
| "pf_less _ _ = False"

text \<open>\<open>max(a, b)\<close> and \<open>min(a, b)\<close> of two arguments: the first, unless the second beats it.\<close>

definition pf_max :: "pyfloat \<Rightarrow> pyfloat \<Rightarrow> pyfloat" where
  "pf_max a b = (if pf_less a b then b else a)"

definition pf_min :: "pyfloat \<Rightarrow> pyfloat \<Rightarrow> pyfloat" where
  "pf_min a b = (if pf_less b a then b else a)"

section \<open>Exceptions\<close>

datatype exn =
    BufferFullError string
  | PermanentClientError int string
  | PayloadTooLargeError string
  | RateLimitedError pyfloat
  | SerializationError string
  | EncryptionError string
  | EncryptionConfigError string
  | ValueError string
  | TypeError string
  | OverflowError
  | HTTPError string
  | TimeoutError
  | PlainException string
  | CancelledError

text \<open>
  \<open>isinstance(e, Exception)\<close>: of the exceptions above, only asyncio's \<open>CancelledError\<close> is
  a \<open>BaseException\<close> that \<open>except Exception\<close> lets through.
\<close>

definition catchable :: "exn \<Rightarrow> bool" where
  "catchable e \<longleftrightarrow> e \<noteq> CancelledError"

text \<open>The clause \<open>except (TypeError, ValueError)\<close>.\<close>

fun is_type_or_value_error :: "exn \<Rightarrow> bool" where
  "is_type_or_value_error (ValueError _) = True"
| "is_type_or_value_error (TypeError _) = True"
| "is_type_or_value_error _ = False"

text \<open>\<open>isinstance(e, PermanentClientError)\<close>; \<open>PayloadTooLargeError\<close> is a subclass.\<close>

fun is_permanent :: "exn \<Rightarrow> bool" where
  "is_permanent (PermanentClientError _ _) = True"
| "is_permanent (PayloadTooLargeError _) = True"
| "is_permanent _ = False"

text \<open>The \<open>status_code\<close> and \<open>detail\<close> attributes of a permanent error, and its message.\<close>

fun permanent_status :: "exn \<Rightarrow> int" where
  "permanent_status (PermanentClientError c _) = c"
| "permanent_status (PayloadTooLargeError _) = 413"
| "permanent_status _ = 0"

fun permanent_detail :: "exn \<Rightarrow> string" where
  "permanent_detail (PermanentClientError _ d) = d"
| "permanent_detail (PayloadTooLargeError d) = d"
| "permanent_detail _ = []"

definition permanent_message :: "exn \<Rightarrow> string" where
  "permanent_message e =
     (let m = ''Permanent client error '' @ show_int (permanent_status e)
      in if permanent_detail e \<noteq> [] then m @ '': '' @ permanent_detail e else m)"

lemma catchable_simps [simp]:
  "\<not> catchable CancelledError"
  "catchable (BufferFullError s)" "catchable (PermanentClientError c s)"
  "catchable (PayloadTooLargeError s)" "catchable (RateLimitedError f)"
  "catchable (SerializationError s)" "catchable (EncryptionError s)"
  "catchable (EncryptionConfigError s)" "catchable (ValueError s)" "catchable (TypeError s)"
  "catchable OverflowError" "catchable (HTTPError s)" "catchable TimeoutError"
  "catchable (PlainException s)"
  by (simp_all add: catchable_def)

lemma is_permanent_catchable: "is_permanent e \<Longrightarrow> catchable e"
  by (cases e) simp_all

lemma not_catchable: "\<not> catchable e \<longleftrightarrow> e = CancelledError"
  by (simp add: catchable_def)

section \<open>Python's float() on a string\<close>

definition is_digit :: "char \<Rightarrow> bool" where
  "is_digit c \<longleftrightarrow> (let n = of_char c :: nat in 48 \<le> n \<and> n \<le> 57)"

definition digit_val :: "char \<Rightarrow> nat" where
  "digit_val c = of_char c - 48"

text \<open>
  A run of digits in which single underscores may stand between digits. The result is the
  digits without underscores and the rest of the input; the first argument tells whether the
  previous character was a digit.
\<close>

fun digit_run :: "bool \<Rightarrow> string \<Rightarrow> nat list \<times> string" where
  "digit_run prev [] = ([], [])"
| "digit_run prev (c # cs) =
     (if is_digit c then (case digit_run True cs of (ds, r) \<Rightarrow> (digit_val c # ds, r))
      else if c = CHR ''_'' \<and> prev \<and> cs \<noteq> [] \<and> is_digit (hd cs) then digit_run False cs
      else ([], c # cs))"

definition dec_nat :: "nat list \<Rightarrow> nat" where
  "dec_nat ds = foldl (\<lambda>a d. 10 * a + d) 0 ds"

definition take_sign :: "string \<Rightarrow> bool \<times> string" where
  "take_sign s = (case s of [] \<Rightarrow> (False, [])
     | c # cs \<Rightarrow> if c = CHR ''-'' then (True, cs) else if c = CHR ''+'' then (False, cs) else (False, s))"

text \<open>The optional exponent: \<open>None\<close> when an \<open>e\<close> is not followed by digits to the end.\<close>

definition exponent_part :: "string \<Rightarrow> int option" where
  "exponent_part s = (case s of [] \<Rightarrow> Some 0
     | c # cs \<Rightarrow>
         if c = CHR ''e'' \<or> c = CHR ''E'' then
           (case take_sign cs of (neg, r) \<Rightarrow>
             (case digit_run False r of (ds, r') \<Rightarrow>
               if ds = [] \<or> r' \<noteq> [] then None
               else Some (if neg then - int (dec_nat ds) else int (dec_nat ds))))
         else None)"

definition scale10 :: "int \<Rightarrow> real" where
  "scale10 e = (if 0 \<le> e then 10 ^ nat e else 1 / 10 ^ nat (- e))"

text \<open>Halfway from the largest double to \<open>2 ^ 1024\<close>: from there on, rounding gives an infinity.\<close>

definition double_overflow :: real where
  "double_overflow = 2 ^ 1024 - 2 ^ 970"

definition finite_or_inf :: "bool \<Rightarrow> real \<Rightarrow> pyfloat" where
  "finite_or_inf neg r = (if double_overflow \<le> r then (if neg then NInf else PInf)
                          else Fin (if neg then - r else r))"

definition float_body :: "bool \<Rightarrow> string \<Rightarrow> pyfloat option" where
  "float_body neg s =
     (if lower s = ''inf'' \<or> lower s = ''infinity'' then Some (if neg then NInf else PInf)
      else if lower s = ''nan'' then Some NaN
      else (case digit_run False s of (ds, r) \<Rightarrow>
        (case (case r of c # cs \<Rightarrow> if c = CHR ''.'' then digit_run False cs else ([], r)
                       | [] \<Rightarrow> ([], [])) of (fs, r') \<Rightarrow>
          if ds = [] \<and> fs = [] then None
          else map_option (\<lambda>e. finite_or_inf neg (real (dec_nat (ds @ fs)) * scale10 (e - int (length fs))))
                 (exponent_part r'))))"

definition py_float :: "string \<Rightarrow> pyfloat option" where
  "py_float s = (case take_sign (strip s) of (neg, r) \<Rightarrow> float_body neg r)"

end
