(* ===== verification/PyVal.thy ===== *)
theory PyVal
  imports PyErrors
begin

text \<open>
  Dynamically typed values, for the places where the program handles data of type \<open>Any\<close>: event
  metadata, metric tags and decoded JSON. A value records what the program can observe of it:
  its class, as far as the \<open>isinstance\<close> tests of the program tell classes apart, its
  contents, and for classes defined elsewhere whether rebuilding an instance raises.
\<close>

text \<open>
  Sequences: a list, a tuple, or another \<open>Sequence\<close> class; the flag of the latter tells whether
  \<open>type(value)(items)\<close> succeeds (a deque) or raises (a namedtuple, a range).
\<close>

datatype seq_kind = ListK | TupleK | SeqK bool

datatype pyval =
    PNone
  | PBool bool
  | PInt int
  | PFloat pyfloat
  | PStr string
  | PBytes string
  | PScalar string
  | PDict "(pyval \<times> pyval) list"
  | PMapping bool "(pyval \<times> pyval) list"
  | PModel "(pyval \<times> pyval) list"
  | PSeq seq_kind "pyval list"
  | PSet bool "pyval list"
  | POpaque string
  | PRaises

text \<open>
  \<open>PScalar\<close> is a date, time, Decimal, UUID or Enum value, given by its text. \<open>PMapping\<close> is a
  \<open>Mapping\<close> that is no dict, its flag as for \<open>SeqK\<close>. \<open>PModel\<close> is a dataclass instance or an
  object with a \<open>model_dump\<close> method, given by the dict it dumps to. \<open>PSet\<close> carries whether the
  set is frozen. \<open>POpaque\<close> is an object of any other class, given by its \<open>str()\<close>; \<open>PRaises\<close>
  an object that raises an ordinary exception when it is inspected or printed. Dicts and sets
  keep their iteration order.
\<close>

abbreviation PList :: "pyval list \<Rightarrow> pyval" where
  "PList \<equiv> PSeq ListK"

type_synonym pydict = "(pyval \<times> pyval) list"

text \<open>\<open>bool(v)\<close>, on the values that JSON can hold; other objects count as true.\<close>

fun truthy :: "pyval \<Rightarrow> bool" where
  "truthy PNone = False"
| "truthy (PBool b) = b"
| "truthy (PInt i) = (i \<noteq> 0)"
| "truthy (PFloat f) = (f \<noteq> Fin 0)"
| "truthy (PStr s) = (s \<noteq> [])"
| "truthy (PBytes s) = (s \<noteq> [])"
| "truthy (PDict d) = (d \<noteq> [])"
| "truthy (PMapping _ d) = (d \<noteq> [])"
| "truthy (PSeq _ xs) = (xs \<noteq> [])"
| "truthy (PSet _ xs) = (xs \<noteq> [])"
| "truthy (PScalar _) = True"
| "truthy (PModel _) = True"
| "truthy (POpaque _) = True"
| "truthy PRaises = True"

text \<open>\<open>d.get(k)\<close> for a string key.\<close>

definition dict_get :: "string \<Rightarrow> pydict \<Rightarrow> pyval" where
  "dict_get k d = (case map_of d (PStr k) of Some v \<Rightarrow> v | None \<Rightarrow> PNone)"

text \<open>\<open>d[k] = v\<close>: the entry keeps its place, or is added at the end.\<close>

fun dict_set :: "string \<Rightarrow> pyval \<Rightarrow> pydict \<Rightarrow> pydict" where
  "dict_set k v [] = [(PStr k, v)]"
| "dict_set k v ((k', v') # d) = (if k' = PStr k then (k', v) # d else (k', v') # dict_set k v d)"

lemma map_of_dict_set [simp]: "map_of (dict_set k v d) = (map_of d)(PStr k \<mapsto> v)"
  by (induction k v d rule: dict_set.induct) (auto simp: fun_eq_iff)

text \<open>The number of steps of \<open>for x in v\<close>, or the TypeError of an object that is not iterable.\<close>

fun iterated :: "pyval \<Rightarrow> exn + nat" where
  "iterated (PStr s) = Inr (length s)"
| "iterated (PBytes s) = Inr (length s)"
| "iterated (PDict d) = Inr (length d)"
| "iterated (PMapping _ d) = Inr (length d)"
| "iterated (PSeq _ xs) = Inr (length xs)"
| "iterated (PSet _ xs) = Inr (length xs)"
| "iterated _ = Inl (TypeError ''object is not iterable'')"

fun is_dict :: "pyval \<Rightarrow> bool" where
  "is_dict (PDict _) = True"
| "is_dict _ = False"

text \<open>
  Python's \<open>hash(v)\<close> succeeds: what may be an element of a set. An object that defines equality
  only may be unhashable; \<open>PModel\<close> and \<open>POpaque\<close> elements of a set are hashable as they are
  there, so the question arises only for the values the program builds.
\<close>

fun hashable :: "pyval \<Rightarrow> bool" where
  "hashable (PDict _) = False"
| "hashable (PSeq k xs) = (k = TupleK \<and> list_all hashable xs)"
| "hashable (PSet frozen _) = frozen"
| "hashable (PMapping _ _) = False"
| "hashable _ = True"

end
