(* ===== verification/Models.thy ===== *)
theory Models
  imports PyVal
begin

text \<open>
  \<open>models.py\<close>: the configuration and the data models as records with the source's fields
  (prefixed by \<open>cf_\<close>, \<open>ev_\<close>, \<open>mt_\<close>, \<open>dr_\<close>, \<open>as_\<close>, \<open>eb_\<close>), the default
  configuration, the bounds pydantic checks on the configuration, and the endpoint validator.

  Dates are never computed with and are kept as text. Field validation by pydantic other than
  the validators written in the source is not modelled: a record is an already validated
  instance.
\<close>

section \<open>AgentConfig\<close>

datatype overflow_policy = Drop | Block | Raise

text \<open>
  The user's \<open>on_error\<close> callback is described by what it raises for a stage and an exception,
  \<open>None\<close> when it returns.
\<close>

type_synonym error_hook = "string \<Rightarrow> exn \<Rightarrow> exn option"

record agent_config =
  cf_api_key :: string
  cf_endpoint :: string
  cf_project_id :: "string option"
  cf_buffer_size :: int
  cf_flush_interval :: int
  cf_dynamic_rule_interval :: int
  cf_status_interval :: int
  cf_high_watermark_ratio :: real
  cf_max_concurrent_flushes :: int
  cf_overflow_policy :: overflow_policy
  cf_enable_metrics :: bool
  cf_enable_events :: bool
  cf_retry_attempts :: int
  cf_timeout :: int
  cf_backoff_factor :: real
  cf_sensitive_headers :: "string list"
  cf_max_payload_size :: int
  cf_encryption_key :: "string option"
  cf_guard_version :: "string option"
  cf_guard_core_version :: "string option"
  cf_compression_enabled :: bool
  cf_compression_threshold :: int
  cf_install_id :: "string option"
  cf_signing_secret :: "string option"
  cf_on_error :: "error_hook option"

definition default_config :: "string \<Rightarrow> agent_config" where
  "default_config key = \<lparr>
     cf_api_key = key,
     cf_endpoint = ''https://api.guard-core.com'',
     cf_project_id = None,
     cf_buffer_size = 100,
     cf_flush_interval = 30,
     cf_dynamic_rule_interval = 300,
     cf_status_interval = 300,
     cf_high_watermark_ratio = 8 / 10,
     cf_max_concurrent_flushes = 1,
     cf_overflow_policy = Drop,
     cf_enable_metrics = True,
     cf_enable_events = True,
     cf_retry_attempts = 3,
     cf_timeout = 30,
     cf_backoff_factor = 1,
     cf_sensitive_headers = [''authorization'', ''proxy-authorization'', ''cookie'', ''x-api-key''],
     cf_max_payload_size = 1024,
     cf_encryption_key = None,
     cf_guard_version = None,
     cf_guard_core_version = None,
     cf_compression_enabled = True,
     cf_compression_threshold = 1024,
     cf_install_id = None,
     cf_signing_secret = None,
     cf_on_error = None\<rparr>"

text \<open>The \<open>ge=60\<close> constraints of the two polling intervals.\<close>

definition config_bounds :: "agent_config \<Rightarrow> bool" where
  "config_bounds c \<longleftrightarrow> 60 \<le> cf_dynamic_rule_interval c \<and> 60 \<le> cf_status_interval c"

section \<open>The endpoint validator\<close>

text \<open>
  The scheme and network location that \<open>urllib.parse.urlparse\<close> finds. White space and control
  characters are stripped in front, tabs and line breaks are removed everywhere, the scheme is
  what precedes the first colon when it is a well-formed scheme name, and the network location
  is what follows a double slash up to the next slash, question mark or hash. Unbalanced
  brackets raise ValueError; the syntax check of a bracketed address is not modelled.
\<close>

definition is_alpha :: "char \<Rightarrow> bool" where
  "is_alpha c \<longleftrightarrow> (let n = of_char c :: nat in (65 \<le> n \<and> n \<le> 90) \<or> (97 \<le> n \<and> n \<le> 122))"

definition is_scheme_char :: "char \<Rightarrow> bool" where
  "is_scheme_char c \<longleftrightarrow> is_alpha c \<or> is_digit c \<or> c \<in> set ''+-.''"

definition url_clean :: "string \<Rightarrow> string" where
  "url_clean u = filter (\<lambda>c. (of_char c :: nat) \<notin> {9, 10, 13}) (dropWhile (\<lambda>c. (of_char c :: nat) \<le> 32) u)"

definition split_scheme :: "string \<Rightarrow> string \<times> string" where
  "split_scheme u =
     (let h = takeWhile (\<lambda>c. c \<noteq> CHR '':'') u
      in if h \<noteq> [] \<and> h \<noteq> u \<and> is_alpha (hd h) \<and> list_all is_scheme_char h
         then (lower h, drop (Suc (length h)) u) else ([], u))"

definition url_parts :: "string \<Rightarrow> exn + string \<times> string" where
  "url_parts v =
     (case split_scheme (url_clean v) of (scheme, r) \<Rightarrow>
       (let netloc = (if take 2 r = ''//'' then takeWhile (\<lambda>c. c \<notin> set ''/?#'') (drop 2 r) else [])
        in if (CHR ''['' \<in> set netloc) \<noteq> (CHR '']'' \<in> set netloc)
           then Inl (ValueError ''Invalid IPv6 URL'')
           else Inr (scheme, netloc)))"

text \<open>
  The validator, with the module's \<open>_endpoint_suffix_warned\<close> flag as state: it returns the
  stored endpoint or the error, and the flag after the call.
\<close>

definition validate_endpoint :: "string \<Rightarrow> bool \<Rightarrow> (exn + string) \<times> bool" where
  "validate_endpoint v warned =
     (if v = [] then (Inl (ValueError ''Endpoint URL cannot be empty''), warned)
      else case url_parts v of
        Inl e \<Rightarrow> (Inl e, warned)
      | Inr (scheme, netloc) \<Rightarrow>
          if scheme = [] \<or> netloc = [] then
            (Inl (ValueError ''Endpoint must be a valid URL with scheme and domain''), warned)
          else if scheme \<notin> {''http'', ''https''} then
            (Inl (ValueError ''Endpoint URL must use http or https scheme''), warned)
          else
            (let normalized = rstrip_char (CHR ''/'') v
             in if ends_with ''/api/v1'' normalized then
                  (Inr (rstrip_char (CHR ''/'') (take (length normalized - length ''/api/v1'') normalized)), True)
                else (Inr normalized, warned)))"

section \<open>Events, metrics, rules, status, batches\<close>

text \<open>\<open>KNOWN_EVENT_TYPES\<close>: the event types agreed on with guard-core; an event of another type is accepted too.\<close>

definition known_event_types :: "string list" where
  "known_event_types = [
     ''ip_banned'', ''ip_unbanned'', ''ip_blocked'', ''ip_ban_failed'', ''rate_limited'',
     ''rate_limit_script_reloaded'', ''suspicious_request'', ''cloud_blocked'', ''country_blocked'',
     ''penetration_attempt'', ''behavioral_violation'', ''user_agent_blocked'', ''custom_request_check'',
     ''decorator_violation'', ''decoding_error'', ''detection_engine_callback_error'', ''geo_lookup_failed'',
     ''https_enforced'', ''pattern_anomaly_slow_execution'', ''pattern_anomaly_timeout'',
     ''pattern_anomaly_statistical_anomaly'', ''redis_connection'', ''redis_error'', ''dynamic_rule_applied'',
     ''dynamic_rule_updated'', ''path_excluded'', ''route_unresolved'', ''pattern_detected'',
     ''pattern_added'', ''pattern_removed'', ''access_denied'', ''authentication_failed'',
     ''content_filtered'', ''emergency_mode_activated'', ''emergency_mode_block'', ''dynamic_rule_violation'',
     ''security_bypass'', ''security_headers_applied'', ''csp_violation'']"

record security_event =
  ev_idempotency_key :: string
  ev_timestamp :: string
  ev_event_type :: string
  ev_ip_address :: string
  ev_country :: "string option"
  ev_user_agent :: "string option"
  ev_action_taken :: string
  ev_reason :: string
  ev_endpoint :: "string option"
  ev_method :: "string option"
  ev_status_code :: "int option"
  ev_response_time :: "real option"
  ev_decorator_type :: "string option"
  ev_rule_type :: "string option"
  ev_pattern_matched :: "string option"
  ev_handler_name :: "string option"
  ev_metadata :: pyval
  ev_extra :: pydict

datatype metric_type =
    RequestCount | ResponseTime | ErrorRate | BandwidthUsage | ThreatLevel | BlockRate | CacheHitRate

record security_metric =
  mt_timestamp :: string
  mt_metric_type :: metric_type
  mt_value :: real
  mt_endpoint :: "string option"
  mt_tags :: pyval

record dynamic_rules =
  dr_rule_id :: string
  dr_version :: int
  dr_timestamp :: string
  dr_expires_at :: "string option"
  dr_ttl :: int
  dr_ip_blacklist :: "string list"
  dr_ip_whitelist :: "string list"
  dr_ip_ban_duration :: int
  dr_blocked_countries :: "string list"
  dr_whitelist_countries :: "string list"
  dr_global_rate_limit :: "int option"
  dr_global_rate_window :: "int option"
  dr_endpoint_rate_limits :: "(string \<times> int \<times> int) list"
  dr_blocked_cloud_providers :: "string list"
  dr_blocked_user_agents :: "string list"
  dr_suspicious_patterns :: "string list"
  dr_enable_penetration_detection :: "bool option"
  dr_enable_ip_banning :: "bool option"
  dr_enable_rate_limiting :: "bool option"
  dr_auto_ban_threshold :: "int option"
  dr_auto_ban_duration :: "int option"
  dr_enable_rate_limit_auto_ban :: "bool option"
  dr_emergency_mode :: bool
  dr_emergency_whitelist :: "string list"
  dr_emergency_whitelist_only :: bool
  dr_message :: "string option"

datatype health = Healthy | Degraded | Failed

record agent_status =
  as_timestamp :: string
  as_status :: health
  as_uptime :: real
  as_events_sent :: int
  as_events_failed :: int
  as_buffer_size :: int
  as_last_flush :: "real option"
  as_errors :: "string list"

record event_batch =
  eb_project_id :: string
  eb_events :: "security_event list"
  eb_metrics :: "security_metric list"
  eb_batch_id :: string
  eb_created_at :: string
  eb_compressed :: bool
  eb_agent_version :: "string option"
  eb_guard_version :: "string option"
  eb_guard_core_version :: "string option"

text \<open>An event or metric with every optional field at its default.\<close>

definition new_event :: "string \<Rightarrow> string \<Rightarrow> string \<Rightarrow> security_event" where
  "new_event key ts ty = \<lparr>
     ev_idempotency_key = key, ev_timestamp = ts, ev_event_type = ty, ev_ip_address = [],
     ev_country = None, ev_user_agent = None, ev_action_taken = [], ev_reason = [],
     ev_endpoint = None, ev_method = None, ev_status_code = None, ev_response_time = None,
     ev_decorator_type = None, ev_rule_type = None, ev_pattern_matched = None,
     ev_handler_name = None, ev_metadata = PDict [], ev_extra = []\<rparr>"

section \<open>Facts about the validator\<close>

lemma validate_endpoint_cases:
  assumes "validate_endpoint v w = (Inr u, w')"
  obtains (suffix) scheme netloc where
      "url_parts v = Inr (scheme, netloc)" "scheme \<in> {''http'', ''https''}" "netloc \<noteq> []"
      "ends_with ''/api/v1'' (rstrip_char (CHR ''/'') v)" "w'"
      "u = rstrip_char (CHR ''/'') (take (length (rstrip_char (CHR ''/'') v) - 7) (rstrip_char (CHR ''/'') v))"
    | (plain) scheme netloc where
      "url_parts v = Inr (scheme, netloc)" "scheme \<in> {''http'', ''https''}" "netloc \<noteq> []"
      "\<not> ends_with ''/api/v1'' (rstrip_char (CHR ''/'') v)" "w' = w" "u = rstrip_char (CHR ''/'') v"
  using assms
  by (auto simp: validate_endpoint_def Let_def eval_nat_numeral split: if_splits sum.splits)

end
