(* ===== verification/Utils.thy ===== *)
theory Utils
  imports Models
begin

text \<open>
  The stand-alone helpers of \<open>utils.py\<close>: retry delays, text limits, configuration checks, the
  call of the user's error hook. Each is a function of its inputs; the hook's effect is returned
  as the call it made.
\<close>

section \<open>Delays\<close>

text \<open>\<open>parse_retry_after_seconds\<close>: a missing or unreadable header gives the default.\<close>

definition parse_retry_after_seconds :: "string option \<Rightarrow> pyfloat \<Rightarrow> pyfloat" where
  "parse_retry_after_seconds header_value dflt =
     (case header_value of None \<Rightarrow> dflt
      | Some h \<Rightarrow> (case py_float h of None \<Rightarrow> dflt | Some value \<Rightarrow> pf_max (Fin 0) value))"

text \<open>
  \<open>calculate_backoff_delay\<close>. The code computes \<open>float(2 ** attempt)\<close> with an unbounded integer
  power, and \<open>float\<close> raises OverflowError for integers that no double can hold: from
  \<open>2 ** 1024\<close> on.
\<close>

definition calculate_backoff_delay :: "nat \<Rightarrow> real \<Rightarrow> real \<Rightarrow> exn + real" where
  "calculate_backoff_delay attempt base_delay max_delay =
     (if 1024 \<le> attempt then Inl OverflowError
      else Inr (min (base_delay * 2 ^ attempt) max_delay))"

section \<open>Text limits\<close>

definition truncate_payload :: "string \<Rightarrow> nat \<Rightarrow> string" where
  "truncate_payload payload max_size =
     (if length payload \<le> max_size then payload
      else take max_size payload @ ''...[TRUNCATED]'')"

definition summarize_response_body :: "string \<Rightarrow> nat \<Rightarrow> string" where
  "summarize_response_body text max_length =
     (let collapsed = join '' '' (split_ws text)
      in if length collapsed \<le> max_length then collapsed
         else take max_length collapsed @ ''... [truncated, '' @ show_nat (length text) @ '' chars total]'')"

section \<open>Configuration checks\<close>

definition validate_config :: "agent_config \<Rightarrow> string list" where
  "validate_config c =
     (if cf_api_key c = [] \<or> length (cf_api_key c) < 10
      then [''api_key must be at least 10 characters long''] else [])
     @ (if \<not> (starts_with ''http://'' (cf_endpoint c) \<or> starts_with ''https://'' (cf_endpoint c))
        then [''endpoint must be a valid HTTP/HTTPS URL''] else [])
     @ (if cf_buffer_size c \<le> 0 then [''buffer_size must be greater than 0''] else [])
     @ (if cf_flush_interval c \<le> 0 then [''flush_interval must be greater than 0''] else [])
     @ (if cf_timeout c \<le> 0 then [''timeout must be greater than 0''] else [])
     @ (if cf_retry_attempts c < 0 then [''retry_attempts cannot be negative''] else [])
     @ (if cf_backoff_factor c \<le> 0 then [''backoff_factor must be greater than 0''] else [])"

section \<open>The error hook\<close>

text \<open>A call of the user's callback, with the stage, the exception and the context dict.\<close>

type_synonym hook_call = "string \<times> exn \<times> pydict"

text \<open>
  \<open>fire_error_hook\<close>: an ordinary exception raised by the callback is logged and swallowed; a
  cancellation raised in it escapes. The second component is the calls made.
\<close>

definition fire_error_hook ::
  "error_hook option \<Rightarrow> string \<Rightarrow> exn \<Rightarrow> pydict \<Rightarrow> (exn + unit) \<times> hook_call list" where
  "fire_error_hook on_error stage exc context =
     (case on_error of None \<Rightarrow> (Inr (), [])
      | Some hook \<Rightarrow>
          (case hook stage exc of
             None \<Rightarrow> (Inr (), [(stage, exc, context)])
           | Some hook_error \<Rightarrow>
               if catchable hook_error then (Inr (), [(stage, exc, context)])
               else (Inl hook_error, [(stage, exc, context)])))"

section \<open>Facts\<close>

text \<open>The delays the transport may sleep for: non-negative finite numbers, or an infinity.\<close>

definition retry_delay :: "pyfloat \<Rightarrow> bool" where
  "retry_delay f \<longleftrightarrow> f = PInf \<or> (\<exists>r \<ge> 0. f = Fin r)"

lemma retry_delay_simps [simp]:
  "retry_delay PInf" "retry_delay (Fin r) \<longleftrightarrow> 0 \<le> r" "\<not> retry_delay NInf" "\<not> retry_delay NaN"
  by (auto simp: retry_delay_def)

lemma retry_delay_max0: "retry_delay (pf_max (Fin 0) f)"
  by (cases f) (auto simp: pf_max_def)

lemma parse_retry_after_delay:
  "retry_delay d \<Longrightarrow> retry_delay (parse_retry_after_seconds h d)"
  by (auto simp: parse_retry_after_seconds_def retry_delay_max0 split: option.splits)

lemma pf_min_delay:
  assumes "retry_delay f" and "0 \<le> m"
  shows "\<exists>r. pf_min f (Fin m) = Fin r \<and> 0 \<le> r \<and> r \<le> m"
  using assms by (cases f) (auto simp: pf_min_def)

lemma calculate_backoff_delay_ok:
  "attempt < 1024 \<Longrightarrow> calculate_backoff_delay attempt b m = Inr (min (b * 2 ^ attempt) m)"
  by (simp add: calculate_backoff_delay_def)

lemma calculate_backoff_delay_overflow [simp]:
  "1024 \<le> attempt \<Longrightarrow> calculate_backoff_delay attempt b m = Inl OverflowError"
  by (simp add: calculate_backoff_delay_def)

lemma calculate_backoff_delay_error:
  "calculate_backoff_delay attempt b m = Inl e \<Longrightarrow> e = OverflowError \<and> 1024 \<le> attempt"
  by (simp add: calculate_backoff_delay_def split: if_splits)

lemma fire_error_hook_error:
  "fire_error_hook h st e ctx = (Inl x, cs) \<Longrightarrow> x = CancelledError"
  by (auto simp: fire_error_hook_def not_catchable split: option.splits if_splits)

lemma collapsed_no_space:
  "x \<in> set (join '' '' (split_ws s)) \<Longrightarrow> is_space x \<Longrightarrow> x = CHR '' ''"
  using set_join [of x "'' ''" "split_ws s"] by (auto dest: split_ws_no_space)

lemma is_digit_char [simp]: "d < 10 \<Longrightarrow> is_space (digit_char d) = False"
  by (simp add: is_space_def digit_char_def Let_def)

lemma show_nat_no_space: "x \<in> set (show_nat n) \<Longrightarrow> \<not> is_space x"
proof (induction n rule: show_nat.induct)
  case (1 n)
  show ?case
  proof (cases "n < 10")
    case True
    with "1.prems" show ?thesis by (simp add: show_nat.simps [of n])
  next
    case False
    with "1.prems" have "x \<in> set (show_nat (n div 10)) \<or> x = digit_char (n mod 10)"
      by (auto simp: show_nat.simps [of n])
    with False "1.IH" show ?thesis by auto
  qed
qed

end
