(* ===== verification/RateLimit.thy ===== *)
theory RateLimit
  imports Prelude
begin

text \<open>
  The client-side rate limiter (\<open>RateLimiter\<close> in \<open>utils.py\<close>): a sliding window over the times of
  the granted calls. Every \<open>time.time()\<close> the code reads is an argument.
\<close>

record rate_limiter =
  rl_max_calls :: int
  rl_time_window :: time
  rl_calls :: "time list"

definition rate_limiter_init :: "int \<Rightarrow> time \<Rightarrow> rate_limiter" where
  "rate_limiter_init max_calls time_window =
     \<lparr>rl_max_calls = max_calls, rl_time_window = time_window, rl_calls = []\<rparr>"

definition rl_acquire :: "time \<Rightarrow> rate_limiter \<Rightarrow> bool \<times> rate_limiter" where
  "rl_acquire now rl =
     (let live = filter (\<lambda>t. now - t < rl_time_window rl) (rl_calls rl)
      in if int (length live) < rl_max_calls rl
         then (True, rl\<lparr>rl_calls := live @ [now]\<rparr>)
         else (False, rl\<lparr>rl_calls := live\<rparr>))"

definition rl_get_retry_after :: "time \<Rightarrow> rate_limiter \<Rightarrow> time" where
  "rl_get_retry_after now rl =
     (if rl_calls rl = [] then 0
      else max 0 (rl_time_window rl - (now - Min (set (rl_calls rl)))))"

text \<open>The times at which a sequence of calls was granted.\<close>

fun rl_granted :: "rate_limiter \<Rightarrow> time list \<Rightarrow> time list" where
  "rl_granted rl [] = []"
| "rl_granted rl (t # ts) =
     (case rl_acquire t rl of (ok, rl') \<Rightarrow> (if ok then [t] else []) @ rl_granted rl' ts)"

section \<open>Facts\<close>

lemma rl_acquire_params [simp]:
  "rl_max_calls (snd (rl_acquire now rl)) = rl_max_calls rl"
  "rl_time_window (snd (rl_acquire now rl)) = rl_time_window rl"
  by (simp_all add: rl_acquire_def Let_def)

text \<open>The limiter never holds more calls than it may grant.\<close>

definition rl_bounded :: "rate_limiter \<Rightarrow> bool" where
  "rl_bounded rl \<longleftrightarrow> int (length (rl_calls rl)) \<le> max 0 (rl_max_calls rl)"

lemma rl_bounded_acquire [inv_intros]: "rl_bounded rl \<Longrightarrow> rl_bounded (snd (rl_acquire now rl))"
proof -
  assume b: "rl_bounded rl"
  have "length (filter (\<lambda>t. now - t < rl_time_window rl) (rl_calls rl)) \<le> length (rl_calls rl)"
    by (rule length_filter_le)
  then have "int (length (filter (\<lambda>t. now - t < rl_time_window rl) (rl_calls rl))) \<le> max 0 (rl_max_calls rl)"
    using b unfolding rl_bounded_def by linarith
  then show ?thesis by (auto simp: rl_acquire_def rl_bounded_def Let_def)
qed

text \<open>
  The window invariant. \<open>h\<close> is the history of granted calls, oldest first: the limiter still
  holds every granted call younger than the window, and every stretch of the history shorter
  than the window has at most \<open>max_calls\<close> calls.
\<close>

definition window_count :: "time \<Rightarrow> time \<Rightarrow> time list \<Rightarrow> nat" where
  "window_count a w h = length (filter (\<lambda>t. a \<le> t \<and> t < a + w) h)"

definition rl_inv :: "time \<Rightarrow> time list \<Rightarrow> rate_limiter \<Rightarrow> bool" where
  "rl_inv now h rl \<longleftrightarrow>
     (\<forall>t \<in> set h. t \<le> now) \<and>
     (\<forall>t' \<ge> now. filter (\<lambda>t. t' - t < rl_time_window rl) (rl_calls rl)
               = filter (\<lambda>t. t' - t < rl_time_window rl) h) \<and>
     (\<forall>a. int (window_count a (rl_time_window rl) h) \<le> max 0 (rl_max_calls rl))"

lemma rl_inv_init: "rl_inv now [] (rate_limiter_init m w)"
  by (simp add: rl_inv_def rate_limiter_init_def window_count_def)

lemma filter_live_later:
  assumes "now \<le> t'"
  shows "filter (\<lambda>t. t' - t < w) (filter (\<lambda>t. now - t < w) xs) = filter (\<lambda>t. t' - t < w) (xs :: time list)"
  using assms by (induction xs) auto

lemma window_count_append_le:
  assumes "\<forall>t \<in> set h. t \<le> now"
  shows "window_count a w (h @ [now]) \<le> Suc (length (filter (\<lambda>t. now - t < w) h))
    \<or> window_count a w (h @ [now]) = window_count a w h"
proof (cases "a \<le> now \<and> now < a + w")
  case True
  have "length (filter (\<lambda>t. a \<le> t \<and> t < a + w) h) \<le> length (filter (\<lambda>t. now - t < w) h)"
    using True by (induction h) auto
  with True show ?thesis by (simp add: window_count_def)
next
  case False
  then show ?thesis by (auto simp: window_count_def)
qed

lemma rl_inv_step:
  assumes inv: "rl_inv prev h rl" and mono: "prev \<le> now"
    and acq: "rl_acquire now rl = (ok, rl')"
  shows "rl_inv now (if ok then h @ [now] else h) rl'"
proof -
  let ?w = "rl_time_window rl"
  let ?live = "filter (\<lambda>t. now - t < ?w) (rl_calls rl)"
  have live: "?live = filter (\<lambda>t. now - t < ?w) h" and past: "\<forall>t \<in> set h. t \<le> now"
    using inv mono by (force simp: rl_inv_def)+
  have later: "filter (\<lambda>t. t' - t < ?w) ?live = filter (\<lambda>t. t' - t < ?w) h" if "now \<le> t'" for t'
    using inv mono that filter_live_later [OF that, of ?w "rl_calls rl"] by (simp only: rl_inv_def)
  have old: "int (window_count a ?w h) \<le> max 0 (rl_max_calls rl)" for a
    using inv by (simp add: rl_inv_def)
  show ?thesis
  proof (cases "int (length ?live) < rl_max_calls rl")
    case True
    then have ok: "ok" and rl': "rl' = rl\<lparr>rl_calls := ?live @ [now]\<rparr>"
      using acq by (auto simp: rl_acquire_def Let_def)
    have "int (window_count a ?w (h @ [now])) \<le> max 0 (rl_max_calls rl)" for a
      using window_count_append_le [OF past, of a ?w] True old [of a] by (auto simp: live)
    with ok rl' later past show ?thesis by (auto simp: rl_inv_def)
  next
    case False
    then have "\<not> ok" and "rl' = rl\<lparr>rl_calls := ?live\<rparr>"
      using acq by (auto simp: rl_acquire_def Let_def)
    with later past old show ?thesis by (auto simp: rl_inv_def)
  qed
qed

lemma rl_inv_run:
  assumes "rl_inv prev h rl" and "sorted ts" and "\<forall>t \<in> set ts. prev \<le> t"
  shows "\<exists>now rl'. rl_inv now (h @ rl_granted rl ts) rl' \<and> rl_time_window rl' = rl_time_window rl
    \<and> rl_max_calls rl' = rl_max_calls rl"
  using assms
proof (induction ts arbitrary: prev h rl)
  case Nil
  then show ?case by auto
next
  case (Cons t ts)
  obtain ok rl' where acq: "rl_acquire t rl = (ok, rl')" by fastforce
  have "rl_inv t (if ok then h @ [t] else h) rl'"
    using Cons.prems acq by (intro rl_inv_step) auto
  then have "\<exists>now rl''. rl_inv now ((if ok then h @ [t] else h) @ rl_granted rl' ts) rl''
      \<and> rl_time_window rl'' = rl_time_window rl' \<and> rl_max_calls rl'' = rl_max_calls rl'"
    using Cons.prems by (intro Cons.IH) auto
  moreover have "rl_time_window rl' = rl_time_window rl" "rl_max_calls rl' = rl_max_calls rl"
    using acq rl_acquire_params [of t rl] by auto
  ultimately show ?case using acq by (cases ok) auto
qed

text \<open>
  C28: in every half-open interval as long as the window, however it is placed, the limiter
  grants at most \<open>max_calls\<close> calls, for any sequence of calls at non-decreasing times.
\<close>

theorem rate_limit_window:
  assumes "sorted ts"
  shows "int (window_count a w (rl_granted (rate_limiter_init m w) ts)) \<le> max 0 m"
proof (cases ts)
  case Nil
  then show ?thesis by (simp add: window_count_def)
next
  case (Cons t ts')
  obtain now rl' where
    "rl_inv now ([] @ rl_granted (rate_limiter_init m w) ts) rl'"
    "rl_time_window rl' = w" "rl_max_calls rl' = m"
    using rl_inv_run [OF rl_inv_init assms, of t m w] Cons assms
    by (auto simp: rate_limiter_init_def)
  then show ?thesis by (auto simp: rl_inv_def)
qed

theorem rate_limit_window_witness:
  "sorted [0, 1, 2, 9 :: time]
   \<and> rl_granted (rate_limiter_init 2 5) [0, 1, 2, 9] = [0, 1, 9]
   \<and> int (window_count 0 5 (rl_granted (rate_limiter_init 2 5) [0, 1, 2, 9])) \<le> max 0 2"
proof (intro conjI)
  show sorted: "sorted [0, 1, 2, 9 :: time]" by simp
  show "rl_granted (rate_limiter_init 2 5) [0, 1, 2, 9] = [0, 1, 9]"
    by (simp add: rl_acquire_def rate_limiter_init_def Let_def)
  show "int (window_count 0 5 (rl_granted (rate_limiter_init 2 5) [0, 1, 2, 9])) \<le> max 0 2"
    by (rule rate_limit_window [OF sorted])
qed

text \<open>
  C29: a caller that is refused and sleeps for the advertised time is admitted, provided nobody
  else was admitted meanwhile: the oldest call has left the window by then.
\<close>

theorem retry_after_admits:
  assumes "rl_bounded rl" and "0 < rl_max_calls rl"
    and refused: "rl_acquire now rl = (False, rl')"
    and slept: "now + rl_get_retry_after now rl' \<le> now'"
  shows "fst (rl_acquire now' rl')"
proof -
  let ?w = "rl_time_window rl"
  let ?live = "filter (\<lambda>t. now - t < ?w) (rl_calls rl)"
  from refused have rl': "rl' = rl\<lparr>rl_calls := ?live\<rparr>" and full: "rl_max_calls rl \<le> int (length ?live)"
    by (auto simp: rl_acquire_def Let_def split: if_splits)
  have bound: "int (length ?live) \<le> rl_max_calls rl"
    using rl_bounded_acquire [OF assms(1), of now] refused assms(2)
    by (auto simp: rl' rl_bounded_def)
  from full assms(2) have ne: "?live \<noteq> []" by force
  let ?old = "Min (set ?live)"
  have mem: "?old \<in> set ?live" using ne by (metis List.finite_set Min_in set_empty)
  have gone: "\<not> now' - ?old < ?w"
    using slept ne by (auto simp: rl' rl_get_retry_after_def max_def split: if_splits)
  have "length (filter (\<lambda>t. now' - t < ?w) ?live) < length ?live"
    using mem gone by (intro length_filter_less)
  with bound show ?thesis by (simp add: rl' rl_acquire_def Let_def)
qed

theorem retry_after_admits_witness:
  "fst (rl_acquire 5 (snd (rl_acquire 3 \<lparr>rl_max_calls = 2, rl_time_window = 5, rl_calls = [0, 1]\<rparr>)))"
proof (rule retry_after_admits)
  show "rl_bounded \<lparr>rl_max_calls = 2, rl_time_window = 5, rl_calls = [0, 1]\<rparr>"
    by (simp add: rl_bounded_def)
  show "0 < rl_max_calls \<lparr>rl_max_calls = 2, rl_time_window = 5, rl_calls = [0, 1]\<rparr>" by simp
  show "rl_acquire 3 \<lparr>rl_max_calls = 2, rl_time_window = 5, rl_calls = [0, 1]\<rparr>
     = (False, snd (rl_acquire 3 \<lparr>rl_max_calls = 2, rl_time_window = 5, rl_calls = [0, 1]\<rparr>))"
    by (simp add: rl_acquire_def)
  show "3 + rl_get_retry_after 3
      (snd (rl_acquire 3 \<lparr>rl_max_calls = 2, rl_time_window = 5, rl_calls = [0, 1]\<rparr>)) \<le> 5"
    by (simp add: rl_acquire_def rl_get_retry_after_def)
qed

end
