(* ===== verification/Breaker.thy ===== *)
theory Breaker
  imports PyErrors
begin

text \<open>
  The circuit breaker (\<open>CircuitBreaker\<close> in \<open>utils.py\<close>). \<open>call\<close> has an \<open>await\<close> in its middle, so
  it is modelled in two halves, the admission and the settlement of the awaited result, which
  other calls may overlap; \<open>cb_call\<close> composes them for a call that nothing overlaps.
\<close>

datatype cb_state = Closed | Open | HalfOpen

record circuit_breaker =
  cb_failure_threshold :: int
  cb_recovery_timeout :: time
  cb_failure_count :: int
  cb_last_failure_time :: "time option"
  cb_state :: cb_state

definition circuit_breaker_init :: "int \<Rightarrow> time \<Rightarrow> circuit_breaker" where
  "circuit_breaker_init threshold timeout =
     \<lparr>cb_failure_threshold = threshold, cb_recovery_timeout = timeout,
      cb_failure_count = 0, cb_last_failure_time = None, cb_state = Closed\<rparr>"

text \<open>
  The test \<open>self.last_failure_time and now - self.last_failure_time > self.recovery_timeout\<close>: a
  recorded time of 0 counts as absent, as it does in the code.
\<close>

definition cb_recovered :: "time \<Rightarrow> circuit_breaker \<Rightarrow> bool" where
  "cb_recovered now cb =
     (case cb_last_failure_time cb of None \<Rightarrow> False
      | Some t \<Rightarrow> t \<noteq> 0 \<and> now - t > cb_recovery_timeout cb)"

definition cb_admit :: "time \<Rightarrow> circuit_breaker \<Rightarrow> (exn + unit) \<times> circuit_breaker" where
  "cb_admit now cb =
     (if cb_state cb = Open then
        (if cb_recovered now cb then (Inr (), cb\<lparr>cb_state := HalfOpen\<rparr>)
         else (Inl (PlainException ''Circuit breaker is OPEN''), cb))
      else (Inr (), cb))"

definition cb_on_success :: "circuit_breaker \<Rightarrow> circuit_breaker" where
  "cb_on_success cb = cb\<lparr>cb_failure_count := 0, cb_state := Closed\<rparr>"

definition cb_on_failure :: "time \<Rightarrow> circuit_breaker \<Rightarrow> circuit_breaker" where
  "cb_on_failure now cb =
     (let cb1 = cb\<lparr>cb_failure_count := cb_failure_count cb + 1, cb_last_failure_time := Some now\<rparr>
      in if cb_failure_count cb1 \<ge> cb_failure_threshold cb1 then cb1\<lparr>cb_state := Open\<rparr> else cb1)"

text \<open>
  What becomes of the breaker when the awaited call ends: a permanent client error leaves it
  alone, and so does a cancellation, which \<open>except Exception\<close> does not see.
\<close>

definition cb_settle :: "time \<Rightarrow> exn + 'a \<Rightarrow> circuit_breaker \<Rightarrow> circuit_breaker" where
  "cb_settle now result cb =
     (case result of
        Inr _ \<Rightarrow> cb_on_success cb
      | Inl e \<Rightarrow> if is_permanent e then cb
                 else if catchable e then cb_on_failure now cb else cb)"

text \<open>A whole call: \<open>func\<close> runs on its own state and is not run when admission fails.\<close>

definition cb_call ::
  "time \<Rightarrow> time \<Rightarrow> ('s \<Rightarrow> (exn + 'a) \<times> 's) \<Rightarrow> circuit_breaker \<Rightarrow> 's \<Rightarrow> (exn + 'a) \<times> circuit_breaker \<times> 's" where
  "cb_call now now' func cb s =
     (case cb_admit now cb of
        (Inl e, cb1) \<Rightarrow> (Inl e, cb1, s)
      | (Inr _, cb1) \<Rightarrow> (case func s of (r, s') \<Rightarrow> (r, cb_settle now' r cb1, s')))"

section \<open>Runs of overlapping calls\<close>

text \<open>
  An interleaving of any number of calls is a sequence of admissions and settlements, each with
  the time it reads. A settlement carries how the call ended.
\<close>

datatype cb_outcome = Success | Failure | Permanent | Cancelled
datatype cb_event = Admit time | Settle time cb_outcome

definition outcome_result :: "cb_outcome \<Rightarrow> exn + unit" where
  "outcome_result oc = (case oc of Success \<Rightarrow> Inr () | Failure \<Rightarrow> Inl (PlainException [])
     | Permanent \<Rightarrow> Inl (PermanentClientError 400 []) | Cancelled \<Rightarrow> Inl CancelledError)"

fun cb_event_step :: "cb_event \<Rightarrow> circuit_breaker \<Rightarrow> circuit_breaker" where
  "cb_event_step (Admit now) cb = snd (cb_admit now cb)"
| "cb_event_step (Settle now oc) cb = cb_settle now (outcome_result oc) cb"

definition cb_run :: "cb_event list \<Rightarrow> circuit_breaker \<Rightarrow> circuit_breaker" where
  "cb_run evs cb = fold cb_event_step evs cb"

text \<open>The failures of a run since its last success.\<close>

fun trailing_failures :: "cb_event list \<Rightarrow> nat \<Rightarrow> nat" where
  "trailing_failures [] n = n"
| "trailing_failures (Settle _ Success # evs) n = trailing_failures evs 0"
| "trailing_failures (Settle _ Failure # evs) n = trailing_failures evs (Suc n)"
| "trailing_failures (_ # evs) n = trailing_failures evs n"

lemma outcome_result_simps [simp]:
  "outcome_result Success = Inr ()" "outcome_result Failure = Inl (PlainException [])"
  "outcome_result Permanent = Inl (PermanentClientError 400 [])"
  "outcome_result Cancelled = Inl CancelledError"
  by (simp_all add: outcome_result_def)

text \<open>The breaker's fields agree: it is closed exactly while the count is below the threshold.\<close>

definition cb_inv :: "circuit_breaker \<Rightarrow> bool" where
  "cb_inv cb \<longleftrightarrow> 0 < cb_failure_threshold cb \<and> 0 \<le> cb_failure_count cb \<and>
     (cb_state cb = Closed \<longleftrightarrow> cb_failure_count cb < cb_failure_threshold cb) \<and>
     (cb_state cb \<noteq> Closed \<longrightarrow> cb_last_failure_time cb \<noteq> None)"

lemma cb_inv_init [inv_intros]: "0 < th \<Longrightarrow> cb_inv (circuit_breaker_init th rt)"
  by (simp add: cb_inv_def circuit_breaker_init_def)

lemma cb_inv_admit [inv_intros]: "cb_inv cb \<Longrightarrow> cb_inv (snd (cb_admit now cb))"
  by (auto simp: cb_admit_def cb_inv_def)

lemma cb_inv_settle [inv_intros]: "cb_inv cb \<Longrightarrow> cb_inv (cb_settle now r cb)"
  by (auto simp: cb_settle_def cb_inv_def cb_on_success_def cb_on_failure_def Let_def
      split: sum.splits)

lemma cb_inv_step [inv_intros]: "cb_inv cb \<Longrightarrow> cb_inv (cb_event_step ev cb)"
  by (cases ev) (simp_all add: cb_inv_admit cb_inv_settle)

lemma cb_inv_run [inv_intros]: "cb_inv cb \<Longrightarrow> cb_inv (cb_run evs cb)"
  unfolding cb_run_def by (induction evs arbitrary: cb) (simp_all add: cb_inv_step)

lemma cb_inv_call [inv_intros]: "cb_inv cb \<Longrightarrow> cb_inv (fst (snd (cb_call n1 n2 f cb s)))"
  using cb_inv_admit [of cb n1]
  by (auto simp: cb_call_def cb_inv_settle split: prod.splits sum.splits)

lemma cb_settle_params [simp]:
  "cb_failure_threshold (cb_settle now r cb) = cb_failure_threshold cb"
  "cb_recovery_timeout (cb_settle now r cb) = cb_recovery_timeout cb"
  by (auto simp: cb_settle_def cb_on_success_def cb_on_failure_def Let_def split: sum.splits)

lemma cb_admit_params [simp]:
  "cb_failure_threshold (snd (cb_admit now cb)) = cb_failure_threshold cb"
  "cb_recovery_timeout (snd (cb_admit now cb)) = cb_recovery_timeout cb"
  "cb_failure_count (snd (cb_admit now cb)) = cb_failure_count cb"
  by (simp_all add: cb_admit_def)

lemma cb_event_step_threshold [simp]:
  "cb_failure_threshold (cb_event_step ev cb) = cb_failure_threshold cb"
  by (cases ev) simp_all

lemma cb_run_threshold [simp]: "cb_failure_threshold (cb_run evs cb) = cb_failure_threshold cb"
  unfolding cb_run_def by (induction evs arbitrary: cb) simp_all

lemma cb_settle_count:
  "cb_failure_count (cb_settle now (outcome_result oc) cb) =
     (case oc of Success \<Rightarrow> 0 | Failure \<Rightarrow> cb_failure_count cb + 1 | _ \<Rightarrow> cb_failure_count cb)"
  by (cases oc) (simp_all add: cb_settle_def cb_on_success_def cb_on_failure_def Let_def)

lemma cb_run_count:
  "cb_failure_count cb = int n \<Longrightarrow> cb_failure_count (cb_run evs cb) = int (trailing_failures evs n)"
  unfolding cb_run_def
proof (induction evs n arbitrary: cb rule: trailing_failures.induct)
  case (1 n)
  then show ?case by simp
qed (simp_all add: cb_settle_count del: outcome_result_simps)

text \<open>
  C30: however calls overlap, after any sequence of admissions and settlements the breaker counts
  exactly the failures since the last success, and it is closed exactly while they are fewer
  than the threshold: permanent client errors and cancellations never trip or heal it.
\<close>

theorem breaker_counts_failures:
  assumes "0 < th"
  shows "cb_failure_count (cb_run evs (circuit_breaker_init th rt)) = int (trailing_failures evs 0)
    \<and> (cb_state (cb_run evs (circuit_breaker_init th rt)) = Closed
       \<longleftrightarrow> int (trailing_failures evs 0) < th)"
proof -
  let ?cb = "cb_run evs (circuit_breaker_init th rt)"
  have "cb_failure_count ?cb = int (trailing_failures evs 0)"
    by (rule cb_run_count) (simp add: circuit_breaker_init_def)
  moreover have "cb_inv ?cb" by (intro inv_intros assms)
  moreover have "cb_failure_threshold ?cb = th" by (simp add: circuit_breaker_init_def)
  ultimately show ?thesis by (simp add: cb_inv_def)
qed

theorem breaker_counts_failures_witness:
  "(0::int) < 2 \<and>
   cb_state (cb_run [Admit 1, Admit 1, Settle 2 Failure, Settle 3 Permanent, Settle 4 Failure]
     (circuit_breaker_init 2 60)) \<noteq> Closed"
proof -
  have th: "(0::int) < 2" by simp
  show ?thesis
    using th breaker_counts_failures [OF th,
        of "[Admit 1, Admit 1, Settle 2 Failure, Settle 3 Permanent, Settle 4 Failure]" 60]
    by simp
qed

text \<open>
  An open breaker refuses every call until the recovery timeout has passed since the last
  failure, without running the call, and admits the first one after it as a probe.
\<close>

theorem open_breaker_gate:
  assumes "cb_state cb = Open" and "cb_last_failure_time cb = Some t" and "t \<noteq> 0"
  shows "cb_call now now' func cb s =
    (if now \<le> t + cb_recovery_timeout cb
     then (Inl (PlainException ''Circuit breaker is OPEN''), cb, s)
     else (case func s of (r, s') \<Rightarrow> (r, cb_settle now' r (cb\<lparr>cb_state := HalfOpen\<rparr>), s')))"
  using assms by (auto simp: cb_call_def cb_admit_def cb_recovered_def)

theorem open_breaker_gate_witness:
  "cb_call 100 101 (\<lambda>n::nat. (Inr n, Suc n)) \<lparr>cb_failure_threshold = 5, cb_recovery_timeout = 60,
      cb_failure_count = 5, cb_last_failure_time = Some 50, cb_state = Open\<rparr> 0
   = (Inl (PlainException ''Circuit breaker is OPEN''), \<lparr>cb_failure_threshold = 5, cb_recovery_timeout = 60,
      cb_failure_count = 5, cb_last_failure_time = Some 50, cb_state = Open\<rparr>, 0)"
  by (subst open_breaker_gate [where t = 50]) simp_all

text \<open>A probe in the half-open state decides at once: failure reopens, success closes.\<close>

lemma half_open_probe:
  assumes "cb_inv cb" and "cb_state cb = HalfOpen"
  shows "cb_state (cb_settle now (Inr x) cb) = Closed"
    and "catchable e \<Longrightarrow> \<not> is_permanent e \<Longrightarrow> cb_state (cb_settle now (Inl e) cb) = Open"
  using assms by (auto simp: cb_settle_def cb_on_success_def cb_on_failure_def cb_inv_def Let_def)

end
