(* ===== verification/Sanitize.thy ===== *)
theory Sanitize
  imports Models
begin

text \<open>
  The redaction of sensitive keys in telemetry (\<open>sanitize_headers\<close> and its helpers in
  \<open>utils.py\<close>). The JSON functions of the standard library and \<open>str()\<close> of a key that is no string
  are arguments of the definitions, collected in a record.
\<close>

record codec =
  cd_json_loads :: "string \<Rightarrow> exn + pyval"
  cd_json_dumps :: "pyval \<Rightarrow> exn + string"
  cd_str :: "pyval \<Rightarrow> exn + string"

abbreviation REDACTED :: pyval where
  "REDACTED \<equiv> PStr ''[REDACTED]''"

definition max_sanitize_depth :: nat where
  "max_sanitize_depth = 10"

definition max_json_scan_len :: nat where
  "max_json_scan_len = 8192"

section \<open>Keys\<close>

text \<open>
  \<open>_normalize_key\<close>. A bytes key is decoded; since strings are modelled by their UTF-8 encoding,
  valid bytes are their own decoding. Invalid bytes never get here (see \<open>key_sensitive\<close>).
\<close>

definition normalize_key :: "codec \<Rightarrow> pyval \<Rightarrow> exn + string" where
  "normalize_key C key =
     (case key of
        PBytes b \<Rightarrow> Inr (lower (strip b))
      | PStr s \<Rightarrow> Inr (lower (strip s))
      | _ \<Rightarrow> (case cd_str C key of Inl e \<Rightarrow> Inl e | Inr s \<Rightarrow> Inr (lower (strip s))))"

definition is_unclassifiable_bytes_key :: "pyval \<Rightarrow> bool" where
  "is_unclassifiable_bytes_key key = (case key of PBytes b \<Rightarrow> \<not> utf8_valid b | _ \<Rightarrow> False)"

definition key_sensitive :: "codec \<Rightarrow> string list \<Rightarrow> pyval \<Rightarrow> exn + bool" where
  "key_sensitive C sens key =
     (if is_unclassifiable_bytes_key key then Inr True
      else case normalize_key C key of Inl e \<Rightarrow> Inl e | Inr n \<Rightarrow> Inr (n \<in> set sens))"

section \<open>Strings that look like JSON\<close>

datatype json_like = NotJson | TooLarge | Parsed pyval

definition parse_json_like :: "codec \<Rightarrow> string \<Rightarrow> exn + json_like" where
  "parse_json_like C value =
     (let stripped = strip value
      in if stripped = [] \<or> hd stripped \<notin> {CHR ''{'', CHR ''['', CHR 0x22} then Inr NotJson
         else if length stripped > max_json_scan_len then Inr TooLarge
         else case cd_json_loads C stripped of
                Inr v \<Rightarrow> Inr (Parsed v)
              | Inl e \<Rightarrow> if is_type_or_value_error e then Inr NotJson else Inl e)"

section \<open>Values\<close>

text \<open>
  Each helper takes the recursive call on a nested value as an argument: it is
  \<open>_sanitize_value\<close> at the next depth, which never raises.
\<close>

definition sanitize_string_value :: "codec \<Rightarrow> (pyval \<Rightarrow> pyval) \<Rightarrow> string \<Rightarrow> exn + pyval" where
  "sanitize_string_value C rec value =
     (case parse_json_like C value of
        Inl e \<Rightarrow> Inl e
      | Inr TooLarge \<Rightarrow> Inr REDACTED
      | Inr NotJson \<Rightarrow> Inr (PStr value)
      | Inr (Parsed parsed) \<Rightarrow>
          (case cd_json_dumps C (rec parsed) of
             Inr s \<Rightarrow> Inr (PStr s)
           | Inl e \<Rightarrow> if is_type_or_value_error e then Inr (PStr value) else Inl e))"

fun sanitize_items :: "codec \<Rightarrow> string list \<Rightarrow> (pyval \<Rightarrow> pyval) \<Rightarrow> pydict \<Rightarrow> exn + pydict" where
  "sanitize_items C sens rec [] = Inr []"
| "sanitize_items C sens rec ((key, item) # kvs) =
     (case key_sensitive C sens key of
        Inl e \<Rightarrow> Inl e
      | Inr hidden \<Rightarrow>
          (case sanitize_items C sens rec kvs of
             Inl e \<Rightarrow> Inl e
           | Inr out \<Rightarrow> Inr ((key, if hidden then REDACTED else rec item) # out)))"

definition sanitize_set :: "(pyval \<Rightarrow> pyval) \<Rightarrow> bool \<Rightarrow> pyval list \<Rightarrow> pyval" where
  "sanitize_set rec frozen items =
     (let sanitized = map rec items
      in if list_all hashable sanitized then PSet frozen (remdups sanitized) else REDACTED)"

definition sanitize_sequence :: "(pyval \<Rightarrow> pyval) \<Rightarrow> seq_kind \<Rightarrow> pyval list \<Rightarrow> pyval" where
  "sanitize_sequence rec k items =
     (let sanitized = map rec items
      in case k of ListK \<Rightarrow> PList sanitized | TupleK \<Rightarrow> PSeq TupleK sanitized
         | SeqK rebuilds \<Rightarrow> if rebuilds then PSeq k sanitized else PList sanitized)"

text \<open>The dispatch of \<open>_sanitize_value_unsafe\<close> below the depth test, in the order of its tests.\<close>

definition sanitize_value_unsafe ::
  "codec \<Rightarrow> string list \<Rightarrow> (pyval \<Rightarrow> pyval) \<Rightarrow> pyval \<Rightarrow> exn + pyval" where
  "sanitize_value_unsafe C sens rec value =
     (case value of
        PStr s \<Rightarrow> sanitize_string_value C rec s
      | PBytes b \<Rightarrow> Inr value
      | PDict d \<Rightarrow> map_sum id PDict (sanitize_items C sens rec d)
      | PMapping rebuilds d \<Rightarrow>
          map_sum id (if rebuilds then PMapping True else PDict) (sanitize_items C sens rec d)
      | PModel d \<Rightarrow> map_sum id PDict (sanitize_items C sens rec d)
      | PSet frozen items \<Rightarrow> Inr (sanitize_set rec frozen items)
      | PSeq k items \<Rightarrow> Inr (sanitize_sequence rec k items)
      | PNone \<Rightarrow> Inr PNone
      | PBool _ \<Rightarrow> Inr value | PInt _ \<Rightarrow> Inr value | PFloat _ \<Rightarrow> Inr value | PScalar _ \<Rightarrow> Inr value
      | POpaque _ \<Rightarrow> Inr REDACTED
      | PRaises \<Rightarrow> Inl (PlainException []))"

function sanitize_value :: "codec \<Rightarrow> string list \<Rightarrow> pyval \<Rightarrow> nat \<Rightarrow> pyval" where
  "sanitize_value C sens value depth =
     (if depth > max_sanitize_depth then REDACTED
      else case sanitize_value_unsafe C sens (\<lambda>v. sanitize_value C sens v (Suc depth)) value of
             Inl e \<Rightarrow> REDACTED
           | Inr v \<Rightarrow> v)"
  by pat_completeness auto
termination
  by (relation "measure (\<lambda>(C, sens, v, depth). Suc max_sanitize_depth - depth)") auto

declare sanitize_value.simps [simp del]

definition sanitize_headers :: "codec \<Rightarrow> pyval \<Rightarrow> string list \<Rightarrow> pyval" where
  "sanitize_headers C headers sensitive_headers =
     sanitize_value C (map (\<lambda>h. lower (strip h)) sensitive_headers) headers 0"

section \<open>Facts\<close>

text \<open>What \<open>json.loads\<close> can return: strings as dict keys, no other containers than dict and list.\<close>

fun is_str :: "pyval \<Rightarrow> bool" where
  "is_str (PStr _) = True"
| "is_str _ = False"

inductive json_value :: "pyval \<Rightarrow> bool" where
  "json_value PNone" | "json_value (PBool b)" | "json_value (PInt i)" | "json_value (PFloat f)"
| "json_value (PStr s)"
| "\<forall>kv \<in> set d. is_str (fst kv) \<and> json_value (snd kv) \<Longrightarrow> json_value (PDict d)"
| "\<forall>v \<in> set xs. json_value v \<Longrightarrow> json_value (PList xs)"

inductive_simps json_value_simps [simp]:
  "json_value (PStr s)" "json_value (PDict d)" "json_value (PSeq k xs)" "json_value (PSet f xs)"
  "json_value PNone" "json_value (PBool b)" "json_value (PInt i)" "json_value (PFloat f)"
  "json_value (PBytes b)" "json_value (PScalar t)" "json_value (PMapping f d)"
  "json_value (PModel d)" "json_value (POpaque t)" "json_value PRaises"

text \<open>
  The documented behaviour of the standard library's \<open>json\<close> that the redaction relies on: the
  decoder returns JSON values, and the encoder does not reject a JSON value as unserializable.
\<close>

definition json_laws :: "codec \<Rightarrow> bool" where
  "json_laws C \<longleftrightarrow>
     (\<forall>s v. cd_json_loads C s = Inr v \<longrightarrow> json_value v) \<and>
     (\<forall>v e. json_value v \<longrightarrow> cd_json_dumps C v = Inl e \<longrightarrow> \<not> is_type_or_value_error e)"

fun is_scalar :: "pyval \<Rightarrow> bool" where
  "is_scalar PNone = True" | "is_scalar (PBool _) = True" | "is_scalar (PInt _) = True"
| "is_scalar (PFloat _) = True" | "is_scalar (PBytes _) = True" | "is_scalar (PScalar _) = True"
| "is_scalar _ = False"

text \<open>
  A value without a readable secret. A key is readable only if it is found not sensitive; a
  string is either no JSON text or the encoding of a clean value; and this holds at every level.
\<close>

definition hides :: "codec \<Rightarrow> string list \<Rightarrow> pyval \<times> pyval \<Rightarrow> bool" where
  "hides C sens kv \<longleftrightarrow> key_sensitive C sens (fst kv) = Inr False \<or> snd kv = REDACTED"

inductive clean :: "codec \<Rightarrow> string list \<Rightarrow> pyval \<Rightarrow> bool" for C sens where
  clean_redacted: "clean C sens REDACTED"
| clean_scalar: "is_scalar v \<Longrightarrow> clean C sens v"
| clean_text: "parse_json_like C s = Inr NotJson \<Longrightarrow> clean C sens (PStr s)"
| clean_json: "clean C sens w \<Longrightarrow> cd_json_dumps C w = Inr s \<Longrightarrow> clean C sens (PStr s)"
| clean_dict: "\<forall>kv \<in> set d. hides C sens kv \<and> clean C sens (snd kv) \<Longrightarrow> clean C sens (PDict d)"
| clean_mapping: "\<forall>kv \<in> set d. hides C sens kv \<and> clean C sens (snd kv) \<Longrightarrow> clean C sens (PMapping r d)"
| clean_seq: "\<forall>v \<in> set xs. clean C sens v \<Longrightarrow> clean C sens (PSeq k xs)"
| clean_set: "\<forall>v \<in> set xs. clean C sens v \<Longrightarrow> clean C sens (PSet f xs)"

inductive_cases clean_dictE: "clean C sens (PDict d)"

lemma sanitize_items_clean:
  assumes "sanitize_items C sens rec d = Inr out" and "\<And>v. clean C sens (rec v)"
  shows "\<forall>kv \<in> set out. hides C sens kv \<and> clean C sens (snd kv)"
  using assms(1)
proof (induction d arbitrary: out)
  case Nil
  then show ?case by simp
next
  case (Cons kv d)
  obtain key item where kv: "kv = (key, item)" by fastforce
  from Cons.prems obtain hidden out' where
      "key_sensitive C sens key = Inr hidden" "sanitize_items C sens rec d = Inr out'"
      "out = (key, if hidden then REDACTED else rec item) # out'"
    by (auto simp: kv split: sum.splits)
  with Cons.IH assms(2) show ?case by (auto simp: hides_def clean_redacted)
qed

lemma sanitize_items_json:
  assumes "sanitize_items C sens rec d = Inr out"
    and "\<And>kv. kv \<in> set d \<Longrightarrow> is_str (fst kv) \<and> json_value (rec (snd kv))"
  shows "\<forall>kv \<in> set out. is_str (fst kv) \<and> json_value (snd kv)"
  using assms
proof (induction d arbitrary: out)
  case Nil
  then show ?case by simp
next
  case (Cons kv d)
  obtain key item where kv: "kv = (key, item)" by fastforce
  with Cons show ?case by (fastforce split: sum.splits if_splits)
qed

lemma sanitize_string_value_cases:
  assumes "sanitize_string_value C rec s = Inr r"
  obtains (no_json) "parse_json_like C s = Inr NotJson" "r = PStr s"
  | (large) "r = REDACTED"
  | (json) v t where "parse_json_like C s = Inr (Parsed v)" "cd_json_dumps C (rec v) = Inr t" "r = PStr t"
  | (fallback) v e where "parse_json_like C s = Inr (Parsed v)" "cd_json_dumps C (rec v) = Inl e"
      "is_type_or_value_error e" "r = PStr s"
  using assms
  by (auto simp: sanitize_string_value_def split: sum.splits json_like.splits if_splits)

text \<open>Redaction keeps the shape of a JSON value.\<close>

lemma sanitize_value_json: "json_value v \<Longrightarrow> json_value (sanitize_value C sens v depth)"
proof (induction C sens v depth rule: sanitize_value.induct)
  case (1 C sens v depth)
  let ?rec = "\<lambda>v. sanitize_value C sens v (Suc depth)"
  show ?case
  proof (cases "sanitize_value_unsafe C sens ?rec v")
    case (Inl e)
    then show ?thesis by (simp add: sanitize_value.simps [of C sens v])
  next
    case (Inr r)
    have "json_value r" if deep: "\<not> depth > max_sanitize_depth"
      using "1.prems"
    proof cases
      case (5 s)
      with Inr have "sanitize_string_value C ?rec s = Inr r"
        by (simp add: sanitize_value_unsafe_def)
      then show ?thesis by (cases rule: sanitize_string_value_cases) auto
    next
      case (6 d)
      with Inr obtain out where out: "sanitize_items C sens ?rec d = Inr out" "r = PDict out"
        by (cases "sanitize_items C sens ?rec d") (auto simp: sanitize_value_unsafe_def)
      have "is_str (fst kv) \<and> json_value (?rec (snd kv))" if "kv \<in> set d" for kv
        using "1.IH" [OF deep] 6 that by auto
      with sanitize_items_json [OF out(1)] out(2) show ?thesis by auto
    qed (use Inr "1.IH" [OF deep] in \<open>auto simp: sanitize_value_unsafe_def sanitize_sequence_def\<close>)
    with Inr show ?thesis by (simp add: sanitize_value.simps [of C sens v])
  qed
qed

lemma sanitize_string_clean:
  assumes laws: "json_laws C" and rec: "\<And>v. clean C sens (rec v)"
    and json: "\<And>v. json_value v \<Longrightarrow> json_value (rec v)"
    and r: "sanitize_string_value C rec s = Inr r"
  shows "clean C sens r"
  using r
proof (cases rule: sanitize_string_value_cases)
  case no_json
  then show ?thesis by (simp add: clean_text)
next
  case large
  then show ?thesis by (simp add: clean_redacted)
next
  case (json v t)
  then show ?thesis using rec [of v] by (auto intro: clean_json)
next
  case (fallback v e)
  then have "cd_json_loads C (strip s) = Inr v"
    by (auto simp: parse_json_like_def Let_def split: if_splits sum.splits)
  with laws have "json_value (rec v)" by (auto simp: json_laws_def intro: json)
  with laws fallback show ?thesis by (auto simp: json_laws_def)
qed

lemma sanitize_value_unsafe_clean:
  assumes laws: "json_laws C" and rec: "\<And>v. clean C sens (rec v)"
    and json: "\<And>v. json_value v \<Longrightarrow> json_value (rec v)"
    and r: "sanitize_value_unsafe C sens rec v = Inr r"
  shows "clean C sens r"
proof (cases v)
  case (PStr s)
  with r have "sanitize_string_value C rec s = Inr r" by (simp add: sanitize_value_unsafe_def)
  from sanitize_string_clean [OF laws _ _ this] rec json show ?thesis by blast
next
  case (PDict d)
  with r rec show ?thesis
    by (cases "sanitize_items C sens rec d")
       (auto simp: sanitize_value_unsafe_def intro!: clean_dict dest: sanitize_items_clean)
next
  case (PMapping f d)
  with r rec show ?thesis
    by (cases "sanitize_items C sens rec d"; cases f)
       (auto simp: sanitize_value_unsafe_def intro!: clean_dict clean_mapping dest: sanitize_items_clean)
next
  case (PModel d)
  with r rec show ?thesis
    by (cases "sanitize_items C sens rec d")
       (auto simp: sanitize_value_unsafe_def intro!: clean_dict dest: sanitize_items_clean)
next
  case (PSeq k xs)
  with r rec show ?thesis
    by (auto simp: sanitize_value_unsafe_def sanitize_sequence_def Let_def
        split: seq_kind.splits if_splits intro!: clean_seq)
next
  case (PSet f xs)
  with r rec show ?thesis
    by (auto simp: sanitize_value_unsafe_def sanitize_set_def Let_def
        split: if_splits intro!: clean_set clean_redacted)
qed (use r in \<open>auto simp: sanitize_value_unsafe_def intro: clean_scalar clean_redacted\<close>)

lemma sanitize_value_clean:
  assumes "json_laws C"
  shows "clean C sens (sanitize_value C sens v depth)"
proof (induction C\<equiv>C sens v depth rule: sanitize_value.induct)
  case (1 sens v depth)
  let ?rec = "\<lambda>v. sanitize_value C sens v (Suc depth)"
  show ?case
  proof (cases "depth > max_sanitize_depth")
    case True
    then show ?thesis by (simp add: sanitize_value.simps [of C sens v] clean_redacted)
  next
    case False
    then have "clean C sens (?rec v)" for v using 1 by blast
    then show ?thesis
      using False sanitize_value_unsafe_clean [OF assms, of sens ?rec v] sanitize_value_json
      by (auto simp: sanitize_value.simps [of C sens v] clean_redacted split: sum.splits)
  qed
qed

text \<open>
  C26: whatever value is sanitized, however deeply sensitive keys hide in it (in dicts, mappings,
  model objects, sequences, sets, or JSON text), no value under a sensitive key survives.
\<close>

theorem sanitize_headers_clean:
  assumes "json_laws C"
  shows "clean C (map (\<lambda>h. lower (strip h)) sensitive) (sanitize_headers C value sensitive)"
  unfolding sanitize_headers_def by (rule sanitize_value_clean [OF assms])

text \<open>Evaluation on values whose class is known.\<close>

lemma sanitize_value_eval:
  "depth \<le> max_sanitize_depth \<Longrightarrow> sanitize_value C sens (PStr s) depth =
     (case sanitize_string_value C (\<lambda>v. sanitize_value C sens v (Suc depth)) s of Inl e \<Rightarrow> REDACTED | Inr r \<Rightarrow> r)"
  "depth \<le> max_sanitize_depth \<Longrightarrow> sanitize_value C sens (PDict d) depth =
     (case sanitize_items C sens (\<lambda>v. sanitize_value C sens v (Suc depth)) d of Inl e \<Rightarrow> REDACTED | Inr r \<Rightarrow> PDict r)"
  "depth \<le> max_sanitize_depth \<Longrightarrow> sanitize_value C sens (PSeq k xs) depth =
     sanitize_sequence (\<lambda>v. sanitize_value C sens v (Suc depth)) k xs"
  "depth \<le> max_sanitize_depth \<Longrightarrow> sanitize_value C sens (PSet f xs) depth =
     sanitize_set (\<lambda>v. sanitize_value C sens v (Suc depth)) f xs"
  "depth \<le> max_sanitize_depth \<Longrightarrow> is_scalar v \<Longrightarrow> sanitize_value C sens v depth = v"
  by (auto simp: sanitize_value.simps [of C sens "PStr s"] sanitize_value.simps [of C sens "PDict d"]
     sanitize_value.simps [of C sens "PSeq k xs"]  sanitize_value.simps [of C sens "PSet f xs"]
     sanitize_value.simps [of C sens v]
     sanitize_value_unsafe_def split: sum.splits pyval.splits)

text \<open>A small JSON codec for concrete runs: it knows one document and its encoding.\<close>

definition sample_codec :: codec where
  "sample_codec = \<lparr>
     cd_json_loads = (\<lambda>s. if s = ''{1}'' then Inr (PDict [(PStr ''Cookie'', PInt 7)])
                          else Inl (ValueError [])),
     cd_json_dumps = (\<lambda>v. Inr ''{2}''),
     cd_str = (\<lambda>v. Inr ''None'')\<rparr>"

lemma sample_codec_laws: "json_laws sample_codec"
  by (auto simp: json_laws_def sample_codec_def split: if_splits)

lemmas sanitize_eval = max_sanitize_depth_def key_sensitive_def is_unclassifiable_bytes_key_def
  normalize_key_def sanitize_sequence_def sanitize_string_value_def parse_json_like_def
  max_json_scan_len_def sample_codec_def

theorem sanitize_headers_clean_witness:
  "clean sample_codec [''cookie'']
     (PDict [(PStr '' Cookie'', REDACTED), (PStr ''b'', PSeq TupleK [PStr ''{2}'', PInt 1])])"
proof -
  have "sanitize_headers sample_codec
      (PDict [(PStr '' Cookie'', PInt 3), (PStr ''b'', PSeq TupleK [PStr ''{1}'', PInt 1])]) [''cookie'']
    = PDict [(PStr '' Cookie'', REDACTED), (PStr ''b'', PSeq TupleK [PStr ''{2}'', PInt 1])]"
    by (simp add: sanitize_headers_def sanitize_value_eval sanitize_eval string_eval)
  moreover have "map (\<lambda>h. lower (strip h)) [''cookie''] = [''cookie'']"
    by (simp add: string_eval)
  ultimately show ?thesis
    using sanitize_headers_clean [OF sample_codec_laws, of "[''cookie'']"] by metis
qed

text \<open>
  Values that hold nothing to hide: no sensitive or unreadable key, no JSON text, no foreign
  objects, and a nesting that stays within the depth limit.
\<close>

fun benign :: "codec \<Rightarrow> string list \<Rightarrow> nat \<Rightarrow> pyval \<Rightarrow> bool" where
  "benign C sens 0 v = False"
| "benign C sens (Suc n) (PStr s) = (parse_json_like C s = Inr NotJson)"
| "benign C sens (Suc n) (PDict d) =
     list_all (\<lambda>kv. key_sensitive C sens (fst kv) = Inr False \<and> benign C sens n (snd kv)) d"
| "benign C sens (Suc n) (PSeq k xs) = (k \<noteq> SeqK False \<and> list_all (benign C sens n) xs)"
| "benign C sens (Suc n) (PSet f xs) = (distinct xs \<and> list_all hashable xs \<and> list_all (benign C sens n) xs)"
| "benign C sens (Suc n) v = is_scalar v"

lemma sanitize_items_benign:
  assumes "\<And>v. benign C sens n v \<Longrightarrow> rec v = v"
    and "list_all (\<lambda>kv. key_sensitive C sens (fst kv) = Inr False \<and> benign C sens n (snd kv)) d"
  shows "sanitize_items C sens rec d = Inr d"
  using assms(2) by (induction d) (auto simp: assms(1))

lemma map_benign:
  assumes "\<And>v. benign C sens n v \<Longrightarrow> rec v = v" and "list_all (benign C sens n) xs"
  shows "map rec xs = xs"
  using assms by (simp add: list_all_iff map_idI)

text \<open>
  Redaction touches nothing else. A value with nothing to hide, nested at most ten levels
  below the depth it is met at, comes back unchanged.
\<close>

theorem sanitize_value_benign:
  assumes "benign C sens n v" and "n + depth \<le> Suc max_sanitize_depth"
  shows "sanitize_value C sens v depth = v"
  using assms
proof (induction n arbitrary: v depth)
  case 0
  then show ?case by simp
next
  case (Suc n)
  let ?rec = "\<lambda>v. sanitize_value C sens v (Suc depth)"
  have rec: "benign C sens n w \<Longrightarrow> ?rec w = w" for w
    using Suc by simp
  have "sanitize_value_unsafe C sens ?rec v = Inr v"
  proof (cases v)
    case (PDict d)
    with Suc.prems show ?thesis
      by (simp add: sanitize_value_unsafe_def sanitize_items_benign [OF rec])
  next
    case (PSeq k xs)
    with Suc.prems show ?thesis
      by (auto simp: sanitize_value_unsafe_def sanitize_sequence_def map_benign [OF rec]
          split: seq_kind.splits)
  next
    case (PSet f xs)
    with Suc.prems show ?thesis
      by (simp add: sanitize_value_unsafe_def sanitize_set_def map_benign [OF rec])
  qed (use Suc.prems in \<open>auto simp: sanitize_value_unsafe_def sanitize_string_value_def\<close>)
  with Suc.prems show ?case by (simp add: sanitize_value.simps [of C sens v])
qed

theorem sanitize_value_benign_witness:
  "sanitize_value sample_codec [''cookie''] (PDict [(PStr ''ua'', PList [PStr ''curl'', PInt 2])]) 3
   = PDict [(PStr ''ua'', PList [PStr ''curl'', PInt 2])]"
proof (rule sanitize_value_benign)
  show "benign sample_codec [''cookie''] 3 (PDict [(PStr ''ua'', PList [PStr ''curl'', PInt 2])])"
    by (simp add: eval_nat_numeral sanitize_eval string_eval)
  show "3 + 3 \<le> Suc max_sanitize_depth" by (simp add: max_sanitize_depth_def)
qed

text \<open>What lies deeper than the limit is redacted as a whole, whatever it is.\<close>

lemma sanitize_value_deep: "max_sanitize_depth < depth \<Longrightarrow> sanitize_value C sens v depth = REDACTED"
  by (simp add: sanitize_value.simps)

end
