(* ===== verification/Redaction.thy ===== *)
theory Redaction
  imports Sanitize
begin

text \<open>
  The type of redaction: what is JSON stays JSON, and a dict keeps its keys and their order. The
  consumers of redacted metadata and tags (\<open>model_copy\<close>, the JSON encoder, the server) rely on it.
\<close>

lemma str_key_classified: "is_str key \<Longrightarrow> \<exists>hidden. key_sensitive C sens key = Inr hidden"
  by (cases key) (simp_all add: key_sensitive_def is_unclassifiable_bytes_key_def normalize_key_def)

lemma sanitize_items_keys:
  assumes "\<forall>kv \<in> set d. is_str (fst kv)"
  shows "\<exists>out. sanitize_items C sens rec d = Inr out \<and> map fst out = map fst d
    \<and> list_all2 (\<lambda>kv kv'. snd kv' = rec (snd kv) \<or> snd kv' = REDACTED) d out"
  using assms
proof (induction d)
  case (Cons kv d)
  obtain key item where kv: "kv = (key, item)" by fastforce
  with Cons str_key_classified [of key C sens] show ?case by auto
qed simp

text \<open>
  C27: redacting a JSON object gives a JSON object with the same keys in the same order, whatever is
  hidden under them: the type of metadata and tags survives redaction, and no entry is added or lost.
\<close>

theorem redaction_keeps_json:
  assumes "json_value (PDict d)"
  shows "\<exists>d'. sanitize_headers C (PDict d) sensitive = PDict d' \<and> map fst d' = map fst d \<and> json_value (PDict d')"
proof -
  let ?sens = "map (\<lambda>h. lower (strip h)) sensitive"
  let ?rec = "\<lambda>v. sanitize_value C ?sens v (Suc 0)"
  have "\<forall>kv \<in> set d. is_str (fst kv)" using assms by auto
  from sanitize_items_keys [OF this] obtain out where
    out: "sanitize_items C ?sens ?rec d = Inr out" "map fst out = map fst d" by blast
  then have "sanitize_headers C (PDict d) sensitive = PDict out"
    by (simp add: sanitize_headers_def sanitize_value_eval)
  moreover have "json_value (sanitize_headers C (PDict d) sensitive)"
    unfolding sanitize_headers_def by (rule sanitize_value_json [OF assms])
  ultimately show ?thesis using out(2) by auto
qed

theorem redaction_keeps_json_witness:
  "\<exists>d'. sanitize_headers sample_codec (PDict [(PStr ''Cookie'', PInt 3), (PStr ''ip'', PStr ''::1'')]) [''cookie''] = PDict d'
    \<and> map fst d' = [PStr ''Cookie'', PStr ''ip''] \<and> json_value (PDict d')"
  using redaction_keeps_json [of "[(PStr ''Cookie'', PInt 3), (PStr ''ip'', PStr ''::1'')]" sample_codec "[''cookie'']"]
  by simp

end
