(* ===== verification/BufferLane.thy ===== *)
theory BufferLane
  imports Models
begin

text \<open>
  The event buffer keeps two queues, one of events and one of metrics, and \<open>_buffer_overflow.py\<close>,
  \<open>_buffer_queue.py\<close> and \<open>_buffer_redis.py\<close> spell out every operation twice, once for each. The
  operations are modelled here once, on a \<open>lane\<close>: a queue with its map of Redis keys and its
  counters; \<open>Buffer\<close> instantiates them for events and for metrics, the way the code has them.

  Items are objects, and the code identifies them by \<open>id()\<close>: a queue holds pairs of an object
  identity and a value. Each operation below is the code between two points where the coroutine
  may be suspended while it does not hold the lane's lock, or a whole critical section under it;
  calls of the Redis handler inside a critical section keep the lock.
\<close>

section \<open>The Redis handler\<close>

text \<open>
  \<open>RedisHandlerProtocol\<close> is implemented by the host application. It is a record of functions on an
  unknown state, an argument of the model; any call may raise.
\<close>

record 'r redis_handler =
  rh_get_key :: "string \<Rightarrow> string \<Rightarrow> 'r \<Rightarrow> (exn + string option) \<times> 'r"
  rh_set_key :: "string \<Rightarrow> string \<Rightarrow> string \<Rightarrow> int \<Rightarrow> 'r \<Rightarrow> (exn + unit) \<times> 'r"
  rh_delete :: "string \<Rightarrow> string \<Rightarrow> 'r \<Rightarrow> (exn + unit) \<times> 'r"
  rh_keys :: "string \<Rightarrow> 'r \<Rightarrow> (exn + string list option) \<times> 'r"

text \<open>
  What the two copies of the code differ in: the Redis namespace and key prefix, the encoding of
  an item (\<open>model_dump\<close> and JSON) and its decoding (JSON and the pydantic constructor; \<open>None\<close> when
  the text is no JSON object or an empty one).
\<close>

record 'a lane_kind =
  lk_namespace :: string
  lk_prefix :: string
  lk_full_message :: string
  lk_dump :: "'a \<Rightarrow> exn + string"
  lk_load :: "string \<Rightarrow> exn + 'a option"

section \<open>State\<close>

record 'a lane =
  ln_items :: "'a obj list"
  ln_keys :: "oid \<Rightarrow> string option"
  ln_buffered :: int
  ln_flushed :: int
  ln_dropped :: int

definition empty_lane :: "'a lane" where
  "empty_lane = \<lparr>ln_items = [], ln_keys = Map.empty, ln_buffered = 0, ln_flushed = 0, ln_dropped = 0\<rparr>"

text \<open>\<open>deque(maxlen=n)\<close>: appending at one end of a full deque discards from the other.\<close>

definition deque_append :: "nat \<Rightarrow> 'x \<Rightarrow> 'x list \<Rightarrow> 'x list" where
  "deque_append n x q = drop (Suc (length q) - n) (q @ [x])"

definition deque_appendleft :: "nat \<Rightarrow> 'x \<Rightarrow> 'x list \<Rightarrow> 'x list" where
  "deque_appendleft n x q = take n (x # q)"

section \<open>Overflow\<close>

definition lane_full :: "nat \<Rightarrow> 'a lane \<Rightarrow> bool" where
  "lane_full maxlen L \<longleftrightarrow> maxlen \<le> length (ln_items L)"

definition forget_oldest_key :: "'a lane \<Rightarrow> string option \<times> 'a lane" where
  "forget_oldest_key L =
     (case ln_items L of [] \<Rightarrow> (None, L)
      | x # _ \<Rightarrow> (ln_keys L (fst x), L\<lparr>ln_keys := (ln_keys L)(fst x := None)\<rparr>))"

definition forget_newest_key :: "'a lane \<Rightarrow> string option \<times> 'a lane" where
  "forget_newest_key L =
     (if ln_items L = [] then (None, L)
      else let x = last (ln_items L)
           in (ln_keys L (fst x), L\<lparr>ln_keys := (ln_keys L)(fst x := None)\<rparr>))"

text \<open>
  \<open>confirm_*_redis_keys\<close>: delete each non-empty key; an ordinary failure is logged and the next
  key is tried.
\<close>

fun confirm_keys :: "'r redis_handler option \<Rightarrow> string \<Rightarrow> string list \<Rightarrow> 'r \<Rightarrow> (exn + unit) \<times> 'r" where
  "confirm_keys None ns keys r = (Inr (), r)"
| "confirm_keys (Some h) ns [] r = (Inr (), r)"
| "confirm_keys (Some h) ns (key # keys) r =
     (if key = [] then confirm_keys (Some h) ns keys r
      else case rh_delete h ns key r of
        (Inl e, r') \<Rightarrow> if catchable e then confirm_keys (Some h) ns keys r' else (Inl e, r')
      | (Inr _, r') \<Rightarrow> confirm_keys (Some h) ns keys r')"

text \<open>
  \<open>_resolve_*_overflow\<close>: make room for one item as the policy says. The result tells whether the
  caller must wait.
\<close>

definition resolve_overflow ::
  "'a lane_kind \<Rightarrow> 'r redis_handler option \<Rightarrow> overflow_policy \<Rightarrow> nat \<Rightarrow> 'a lane \<times> 'r
   \<Rightarrow> (exn + bool) \<times> 'a lane \<times> 'r" where
  "resolve_overflow K R policy maxlen = (\<lambda>(L, r).
     if \<not> lane_full maxlen L then (Inr False, L, r)
     else case policy of
       Raise \<Rightarrow> (Inl (BufferFullError (lk_full_message K)), L, r)
     | Block \<Rightarrow> (Inr True, L, r)
     | Drop \<Rightarrow>
         (case forget_oldest_key (L\<lparr>ln_dropped := ln_dropped L + 1\<rparr>) of
            (None, L') \<Rightarrow> (Inr False, L', r)
          | (Some key, L') \<Rightarrow>
              if key = [] then (Inr False, L', r)
              else (case confirm_keys R (lk_namespace K) [key] r of
                      (Inl e, r') \<Rightarrow> (Inl e, L', r')
                    | (Inr _, r') \<Rightarrow> (Inr False, L', r'))))"

section \<open>Adding an item\<close>

text \<open>The Redis key of a new item, from the clock in nanoseconds and a random UUID in hex.\<close>

definition redis_key :: "string \<Rightarrow> nat \<Rightarrow> string \<Rightarrow> string" where
  "redis_key prefix time_ns uuid_hex = prefix @ ''_'' @ show_nat time_ns @ ''_'' @ take 8 uuid_hex"

text \<open>
  \<open>_persist_*_to_redis\<close>: the key under which the item was stored, \<open>None\<close> without a handler or
  after an ordinary failure, which is counted.
\<close>

definition persist_item ::
  "'a lane_kind \<Rightarrow> 'r redis_handler option \<Rightarrow> string \<Rightarrow> 'a \<Rightarrow> int \<times> 'r \<Rightarrow> (exn + string option) \<times> int \<times> 'r" where
  "persist_item K R key v = (\<lambda>(fails, r).
     case R of None \<Rightarrow> (Inr None, fails, r)
     | Some h \<Rightarrow>
         (case (case lk_dump K v of
                  Inl e \<Rightarrow> (Inl e, r)
                | Inr text \<Rightarrow> rh_set_key h (lk_namespace K) key text 3600 r) of
            (Inr _, r') \<Rightarrow> (Inr (Some key), fails, r')
          | (Inl e, r') \<Rightarrow> if catchable e then (Inr None, fails + 1, r') else (Inl e, fails, r')))"

text \<open>
  The state an add works on: the lane, the buffer's count of failed persists, and the Redis side.
  \<open>append_item\<close> is the body of the inner \<open>try\<close> of \<open>add_event\<close>.
\<close>

type_synonym ('a, 'r) lane_state = "'a lane \<times> int \<times> 'r"

definition append_item ::
  "'a lane_kind \<Rightarrow> 'r redis_handler option \<Rightarrow> nat \<Rightarrow> string \<Rightarrow> 'a obj \<Rightarrow> ('a, 'r) lane_state
   \<Rightarrow> (exn + unit) \<times> ('a, 'r) lane_state" where
  "append_item K R maxlen key x = (\<lambda>(L, fails, r).
     let L1 = L\<lparr>ln_items := deque_append maxlen x (ln_items L), ln_buffered := ln_buffered L + 1\<rparr>
     in case R of None \<Rightarrow> (Inr (), L1, fails, r)
        | Some h \<Rightarrow>
            (case persist_item K R key (snd x) (fails, r) of
               (Inl e, fails', r') \<Rightarrow> (if catchable e then Inr () else Inl e, L1, fails', r')
             | (Inr None, fails', r') \<Rightarrow> (Inr (), L1, fails', r')
             | (Inr (Some k), fails', r') \<Rightarrow>
                 (Inr (), L1\<lparr>ln_keys := (ln_keys L1)(fst x \<mapsto> k)\<rparr>, fails', r')))"

text \<open>
  One round of the \<open>while True\<close> loop of \<open>add_event\<close>, up to the wait. The result is whether the
  item was added; otherwise the caller waits for the condition, for half a second at most.
\<close>

definition add_round ::
  "'a lane_kind \<Rightarrow> 'r redis_handler option \<Rightarrow> overflow_policy \<Rightarrow> nat \<Rightarrow> string \<Rightarrow> 'a obj
   \<Rightarrow> ('a, 'r) lane_state \<Rightarrow> (exn + bool) \<times> ('a, 'r) lane_state" where
  "add_round K R policy maxlen key x = (\<lambda>(L, fails, r).
     case resolve_overflow K R policy maxlen (L, r) of
       (Inl e, L', r') \<Rightarrow> (Inl e, L', fails, r')
     | (Inr True, L', r') \<Rightarrow> (Inr False, L', fails, r')
     | (Inr False, L', r') \<Rightarrow>
         (case append_item K R maxlen key x (L', fails, r') of
            (Inl e, s) \<Rightarrow> (Inl e, s)
          | (Inr _, s) \<Rightarrow> (Inr True, s)))"

text \<open>
  The loop around the rounds. While the writer waits it does not hold the lock: \<open>env k\<close> is what
  other tasks do to the state during the \<open>k\<close>-th wait, \<open>None\<close> when the writer is cancelled in it.
  The result is \<open>None\<close> when the rounds allowed by the first argument do not suffice.
\<close>

fun wait_loop ::
  "nat \<Rightarrow> (nat \<Rightarrow> 's \<Rightarrow> 's option) \<Rightarrow> nat \<Rightarrow> ('s \<Rightarrow> (exn + bool) \<times> 's) \<Rightarrow> 's
   \<Rightarrow> ((exn + unit) \<times> 's) option" where
  "wait_loop 0 env k attempt s = None"
| "wait_loop (Suc fuel) env k attempt s =
     (case attempt s of
        (Inl e, s') \<Rightarrow> Some (Inl e, s')
      | (Inr True, s') \<Rightarrow> Some (Inr (), s')
      | (Inr False, s') \<Rightarrow>
          (case env k s' of
             None \<Rightarrow> Some (Inl CancelledError, s')
           | Some s'' \<Rightarrow> wait_loop fuel env (Suc k) attempt s''))"

text \<open>After an add, an early flush is scheduled when the lane has reached the high watermark.\<close>

definition early_flush_due :: "agent_config \<Rightarrow> 'a lane \<Rightarrow> bool" where
  "early_flush_due c L \<longleftrightarrow>
     real (length (ln_items L)) \<ge> real_of_int (cf_buffer_size c) * cf_high_watermark_ratio c"

section \<open>Draining and requeueing\<close>

text \<open>\<open>[keys.pop(id(x), "") for x in items]\<close>\<close>

fun pop_keys :: "'a obj list \<Rightarrow> (oid \<Rightarrow> string option) \<Rightarrow> string list \<times> (oid \<Rightarrow> string option)" where
  "pop_keys [] m = ([], m)"
| "pop_keys (x # xs) m =
     (case pop_keys xs (m(fst x := None)) of (ks, m') \<Rightarrow>
        ((case m (fst x) of None \<Rightarrow> [] | Some k \<Rightarrow> k) # ks, m'))"

definition flush_with_keys :: "'a lane \<Rightarrow> 'a obj list \<times> string list \<times> 'a lane" where
  "flush_with_keys L =
     (let xs = ln_items L
      in case pop_keys xs (ln_keys L) of (ks, m) \<Rightarrow>
        (xs, ks, L\<lparr>ln_items := [], ln_keys := m, ln_flushed := ln_flushed L + int (length xs)\<rparr>))"

text \<open>
  One iteration of \<open>requeue_*_in_memory\<close>; the accumulator is the list of evicted keys. The loop
  runs over the reversed lists; \<open>zip(strict=True)\<close> raises when one of them ends before the other.
\<close>

definition requeue_one :: "nat \<Rightarrow> 'a obj \<Rightarrow> string \<Rightarrow> string list \<times> 'a lane \<Rightarrow> string list \<times> 'a lane" where
  "requeue_one maxlen x key = (\<lambda>(evicted, L).
     case (if lane_full maxlen L then
             (case forget_newest_key (L\<lparr>ln_dropped := ln_dropped L + 1\<rparr>) of
                (None, L1) \<Rightarrow> (evicted, L1)
              | (Some k, L1) \<Rightarrow> (if k = [] then evicted else evicted @ [k], L1))
           else (evicted, L)) of
       (evicted', L1) \<Rightarrow>
         (let L2 = L1\<lparr>ln_items := deque_appendleft maxlen x (ln_items L1)\<rparr>
          in (evicted', if key = [] then L2 else L2\<lparr>ln_keys := (ln_keys L2)(fst x \<mapsto> key)\<rparr>)))"

fun requeue_loop :: "nat \<Rightarrow> 'a obj list \<Rightarrow> string list \<Rightarrow> string list \<times> 'a lane
   \<Rightarrow> (exn + string list) \<times> 'a lane" where
  "requeue_loop maxlen [] [] (evicted, L) = (Inr evicted, L)"
| "requeue_loop maxlen (x # xs) (k # ks) s = requeue_loop maxlen xs ks (requeue_one maxlen x k s)"
| "requeue_loop maxlen _ _ (evicted, L) = (Inl (ValueError ''zip() arguments of different lengths''), L)"

definition requeue_in_memory :: "nat \<Rightarrow> 'a obj list \<Rightarrow> string list \<Rightarrow> 'a lane
   \<Rightarrow> (exn + string list) \<times> 'a lane" where
  "requeue_in_memory maxlen xs ks L = requeue_loop maxlen (rev xs) (rev ks) ([], L)"

definition clear_lane :: "'a lane \<Rightarrow> 'a lane" where
  "clear_lane L = L\<lparr>ln_items := [], ln_keys := Map.empty\<rparr>"

section \<open>Loading persisted items\<close>

text \<open>
  \<open>_load_one_*_from_redis\<close>. The item is a new object with the given identity. All exceptions but
  a cancellation are logged and skip the key.
\<close>

definition load_one :: "'a lane_kind \<Rightarrow> 'r redis_handler \<Rightarrow> nat \<Rightarrow> oid \<Rightarrow> string \<Rightarrow> 'a lane \<times> 'r
   \<Rightarrow> (exn + unit) \<times> 'a lane \<times> 'r" where
  "load_one K h maxlen i key = (\<lambda>(L, r).
     let short_key = after_last (CHR '':'') key
     in case rh_get_key h (lk_namespace K) short_key r of
          (Inl e, r') \<Rightarrow> (if catchable e then Inr () else Inl e, L, r')
        | (Inr None, r') \<Rightarrow> (Inr (), L, r')
        | (Inr (Some data), r') \<Rightarrow>
            if data = [] then (Inr (), L, r')
            else (case lk_load K data of
                    Inl e \<Rightarrow> (if catchable e then Inr () else Inl e, L, r')
                  | Inr None \<Rightarrow> (Inr (), L, r')
                  | Inr (Some v) \<Rightarrow>
                      (let L1 = (if lane_full maxlen L then snd (forget_oldest_key L) else L)
                       in (Inr (), L1\<lparr>ln_items := deque_append maxlen (i, v) (ln_items L1),
                                       ln_buffered := ln_buffered L1 + 1,
                                       ln_keys := (ln_keys L1)(i \<mapsto> short_key)\<rparr>, r'))))"

text \<open>The loop over the listed keys; the objects it creates get the identities from \<open>i\<close> on.\<close>

fun load_all :: "'a lane_kind \<Rightarrow> 'r redis_handler \<Rightarrow> nat \<Rightarrow> oid \<Rightarrow> string list \<Rightarrow> 'a lane \<times> 'r
   \<Rightarrow> (exn + unit) \<times> 'a lane \<times> 'r" where
  "load_all K h maxlen i [] s = (Inr (), s)"
| "load_all K h maxlen i (key # keys) s =
     (case load_one K h maxlen i key s of
        (Inl e, s') \<Rightarrow> (Inl e, s')
      | (Inr _, s') \<Rightarrow> load_all K h maxlen (Suc i) keys s')"

definition load_lane :: "'a lane_kind \<Rightarrow> 'r redis_handler \<Rightarrow> nat \<Rightarrow> oid \<Rightarrow> 'a lane \<times> 'r
   \<Rightarrow> (exn + unit) \<times> 'a lane \<times> 'r" where
  "load_lane K h maxlen i = (\<lambda>(L, r).
     case rh_keys h (lk_namespace K @ '':*'') r of
       (Inl e, r') \<Rightarrow> (Inl e, L, r')
     | (Inr ks, r') \<Rightarrow> load_all K h maxlen i (case ks of None \<Rightarrow> [] | Some ks \<Rightarrow> ks) (L, r'))"

end
