(* ===== verification/LaneFacts.thy ===== *)
theory LaneFacts
  imports BufferLane
begin

text \<open>
  The well-formedness of a lane, that adding keeps it, and what one attempt to add does under each
  overflow policy. Draining and requeueing are treated in \<open>LaneRequeue\<close>, the waiting loop of a
  blocked writer in \<open>AddLoop\<close>.
\<close>

section \<open>Deques\<close>

lemma length_deque_append [simp]: "length q \<le> n \<Longrightarrow> length (deque_append n x q) = min n (Suc (length q))"
  by (auto simp: deque_append_def)

lemma deque_append_room: "length q < n \<Longrightarrow> deque_append n x q = q @ [x]"
  by (simp add: deque_append_def)

lemma deque_append_full: "length q = n \<Longrightarrow> 0 < n \<Longrightarrow> deque_append n x q = tl q @ [x]"
  by (cases q) (simp_all add: deque_append_def)

lemma length_deque_appendleft: "length (deque_appendleft n x q) \<le> n"
  by (simp add: deque_appendleft_def)

section \<open>Well-formed lanes\<close>

abbreviation ids :: "'a obj list \<Rightarrow> oid set" where
  "ids xs \<equiv> fst ` set xs"

text \<open>
  The queue respects its bound, no object is queued twice, Redis keys are tracked for queued
  objects only, and a tracked key is never empty (the code uses the empty string for "no key").
\<close>

definition lane_wf :: "nat \<Rightarrow> 'a lane \<Rightarrow> bool" where
  "lane_wf n L \<longleftrightarrow> length (ln_items L) \<le> n \<and> distinct (map fst (ln_items L))
     \<and> dom (ln_keys L) \<subseteq> ids (ln_items L) \<and> [] \<notin> ran (ln_keys L)"

lemma lane_wfD:
  assumes "lane_wf n L"
  shows "length (ln_items L) \<le> n" "distinct (map fst (ln_items L))"
    "dom (ln_keys L) \<subseteq> ids (ln_items L)" "[] \<notin> ran (ln_keys L)"
  using assms by (simp_all add: lane_wf_def)

lemma lane_wf_empty [inv_intros]: "lane_wf n empty_lane"
  by (simp add: lane_wf_def empty_lane_def)

lemma lane_wf_clear [inv_intros]: "lane_wf n (clear_lane L)"
  by (simp add: lane_wf_def clear_lane_def)

lemma lane_wf_counters [simp]:
  "lane_wf n (L\<lparr>ln_dropped := d\<rparr>) = lane_wf n L"
  "lane_wf n (L\<lparr>ln_buffered := d\<rparr>) = lane_wf n L"
  "lane_wf n (L\<lparr>ln_flushed := d\<rparr>) = lane_wf n L"
  by (simp_all add: lane_wf_def)

lemma keys_upd_None_wf:
  assumes "lane_wf n L"
  shows "lane_wf n (L\<lparr>ln_keys := (ln_keys L)(i := None)\<rparr>)"
  using assms ran_upd_None_subset [of "ln_keys L" i] by (auto simp: lane_wf_def)

lemma tracked_nonempty: "lane_wf n L \<Longrightarrow> ln_keys L i \<noteq> Some []"
  by (auto simp: lane_wf_def ran_def)

section \<open>Overflow policies\<close>

text \<open>A lane an item may be appended to: the item that a full deque discards has no key left.\<close>

definition lane_ready :: "nat \<Rightarrow> 'a lane \<Rightarrow> bool" where
  "lane_ready n L \<longleftrightarrow> lane_wf n L \<and> (lane_full n L \<longrightarrow> ln_items L \<noteq> [] \<longrightarrow> ln_keys L (fst (hd (ln_items L))) = None)"

lemma forget_oldest_key_facts:
  assumes "forget_oldest_key L = (k, L')"
  shows "L' = L\<lparr>ln_keys := ln_keys L'\<rparr>"
    and "k = (if ln_items L = [] then None else ln_keys L (fst (hd (ln_items L))))"
    and "ln_items L \<noteq> [] \<Longrightarrow> ln_keys L' = (ln_keys L)(fst (hd (ln_items L)) := None)"
    and "lane_wf n L \<Longrightarrow> lane_wf n L'"
  using assms keys_upd_None_wf [of n L]
  by (cases "ln_items L"; auto simp: forget_oldest_key_def)+

lemma confirm_keys_error: "confirm_keys R ns ks r = (Inl e, r') \<Longrightarrow> e = CancelledError"
  by (induction R ns ks r rule: confirm_keys.induct)
     (auto simp: not_catchable split: if_splits prod.splits sum.splits)

text \<open>The three outcomes of resolving an overflow: as it was, or one key forgotten and one drop counted.\<close>

lemma resolve_overflow_cases:
  assumes "resolve_overflow K R policy n (L, r) = (res, L', r')"
  obtains (room) "\<not> lane_full n L" "res = Inr False" "L' = L" "r' = r"
  | (refuse) "lane_full n L" "policy = Raise" "res = Inl (BufferFullError (lk_full_message K))" "L' = L" "r' = r"
  | (wait) "lane_full n L" "policy = Block" "res = Inr True" "L' = L" "r' = r"
  | (drop) k where "lane_full n L" "policy = Drop"
      "forget_oldest_key (L\<lparr>ln_dropped := ln_dropped L + 1\<rparr>) = (k, L')" "res \<noteq> Inr True"
  using assms
  by (cases "forget_oldest_key (L\<lparr>ln_dropped := ln_dropped L + 1\<rparr>)")
     (auto simp: resolve_overflow_def split: if_splits overflow_policy.splits option.splits
        prod.splits sum.splits)

lemma resolve_overflow_frame:
  assumes "resolve_overflow K R policy n (L, r) = (res, L', r')"
  shows "ln_items L' = ln_items L \<and> ln_buffered L' = ln_buffered L \<and> ln_flushed L' = ln_flushed L"
  using assms
proof (cases rule: resolve_overflow_cases)
  case (drop k)
  from forget_oldest_key_facts(1) [OF drop(3)] show ?thesis
    by (metis lane.select_convs lane.surjective lane.update_convs)
qed simp_all

lemma resolve_overflow_wf [inv_intros]:
  assumes "lane_wf n L" and "resolve_overflow K R policy n (L, r) = (res, L', r')"
  shows "lane_wf n L'"
  using assms(2) by (cases rule: resolve_overflow_cases) (use assms(1) in \<open>auto dest: forget_oldest_key_facts(4) [where n = n]\<close>)

lemma resolve_overflow_ready:
  assumes wf: "lane_wf n L" and r: "resolve_overflow K R policy n (L, r) = (Inr False, L', r')"
  shows "lane_ready n L'"
  using r
proof (cases rule: resolve_overflow_cases)
  case room
  with wf show ?thesis by (simp add: lane_ready_def)
next
  case (drop k)
  have "ln_items L' = ln_items L" by (simp add: resolve_overflow_frame [OF r])
  with forget_oldest_key_facts(3) [OF drop(3)] resolve_overflow_wf [OF wf r] show ?thesis
    by (auto simp: lane_ready_def)
qed simp_all

lemma append_item_lane:
  assumes "append_item K R n key x (L, fails, r) = (res, L', fails', r')"
  shows "ln_items L' = deque_append n x (ln_items L) \<and> ln_buffered L' = ln_buffered L + 1
    \<and> ln_flushed L' = ln_flushed L \<and> ln_dropped L' = ln_dropped L
    \<and> (ln_keys L' = ln_keys L \<or> ln_keys L' = (ln_keys L)(fst x \<mapsto> key))"
  using assms
  by (auto simp: append_item_def persist_item_def Let_def split: option.splits prod.splits sum.splits if_splits)

lemma append_item_error:
  "append_item K R n key x (L, fails, r) = (Inl e, s) \<Longrightarrow> e = CancelledError"
  by (auto simp: append_item_def persist_item_def Let_def not_catchable
      split: option.splits prod.splits sum.splits if_splits)

lemma append_item_wf:
  assumes ready: "lane_ready n L" and n: "0 < n" and fresh: "fst x \<notin> ids (ln_items L)" and key: "key \<noteq> []"
    and a: "append_item K R n key x (L, fails, r) = (res, L', fails', r')"
  shows "lane_wf n L'"
proof -
  have wf: "lane_wf n L" using ready by (simp add: lane_ready_def)
  note w = lane_wfD [OF wf]
  let ?m = "ln_keys L'"
  have items: "ln_items L' = deque_append n x (ln_items L)"
    and m: "?m = ln_keys L \<or> ?m = (ln_keys L)(fst x \<mapsto> key)"
    using append_item_lane [OF a] by blast+
  have ran: "[] \<notin> ran ?m"
    using m w(4) key ran_upd_subset [of "ln_keys L" "fst x" "Some key"] by auto
  have dom: "dom ?m \<subseteq> insert (fst x) (dom (ln_keys L))"
    using m by auto
  have "distinct (map fst (deque_append n x (ln_items L)))
    \<and> insert (fst x) (dom (ln_keys L)) \<subseteq> ids (deque_append n x (ln_items L))"
  proof (cases "lane_full n L")
    case False
    then have "deque_append n x (ln_items L) = ln_items L @ [x]"
      by (simp add: lane_full_def deque_append_room)
    with w(2,3) fresh show ?thesis by (simp add: subset_insertI2)
  next
    case True
    with w(1) n obtain y ys where ys: "ln_items L = y # ys" "length (y # ys) = n"
      by (cases "ln_items L") (auto simp: lane_full_def)
    then have q: "deque_append n x (ln_items L) = ys @ [x]"
      using n by (simp add: deque_append_full)
    have "fst y \<notin> dom (ln_keys L)"
      using ready True ys by (simp add: lane_ready_def dom_def)
    then have "dom (ln_keys L) \<subseteq> ids ys" using w(3) ys by auto
    with q w(2) fresh ys show ?thesis by (simp add: subset_insertI2)
  qed
  with dom w(1) ran items show ?thesis by (auto simp: lane_wf_def)
qed

lemma add_round_wf [inv_intros]:
  assumes wf: "lane_wf n L" and n: "0 < n" and fresh: "fst x \<notin> ids (ln_items L)" and key: "key \<noteq> []"
    and a: "add_round K R policy n key x (L, fails, r) = (res, L', fails', r')"
  shows "lane_wf n L'"
proof -
  obtain res1 L1 r1 where o: "resolve_overflow K R policy n (L, r) = (res1, L1, r1)"
    by (metis prod_cases3)
  have wf1: "lane_wf n L1" by (rule resolve_overflow_wf [OF wf o])
  show ?thesis
  proof (cases "res1 = Inr False")
    case True
    with o have ready: "lane_ready n L1" by (simp add: resolve_overflow_ready [OF wf])
    have "fst x \<notin> ids (ln_items L1)" using fresh resolve_overflow_frame [OF o] by simp
    moreover obtain res2 where "append_item K R n key x (L1, fails, r1) = (res2, L', fails', r')"
      using a o True by (auto simp: add_round_def split: prod.splits sum.splits)
    ultimately show ?thesis by (rule append_item_wf [OF ready n _ key])
  next
    case False
    with a o have "L' = L1" by (auto simp: add_round_def split: sum.splits bool.splits)
    with wf1 show ?thesis by simp
  qed
qed

text \<open>What one attempt to add an item does, under each policy.\<close>

definition add_outcome ::
  "overflow_policy \<Rightarrow> nat \<Rightarrow> 'a lane_kind \<Rightarrow> 'a obj \<Rightarrow> 'a lane \<Rightarrow> (exn + bool) \<Rightarrow> 'a lane \<Rightarrow> bool" where
  "add_outcome policy n K x L res L' \<longleftrightarrow>
     (if \<not> lane_full n L then
        res = Inr True \<and> ln_items L' = ln_items L @ [x] \<and> ln_dropped L' = ln_dropped L
      else case policy of
        Raise \<Rightarrow> res = Inl (BufferFullError (lk_full_message K)) \<and> L' = L
      | Block \<Rightarrow> res = Inr False \<and> L' = L
      | Drop \<Rightarrow> res = Inr True \<and> ln_items L' = tl (ln_items L) @ [x] \<and> ln_dropped L' = ln_dropped L + 1)"

lemma forget_oldest_key_dropped:
  "forget_oldest_key L = (k, L') \<Longrightarrow> ln_dropped L' = ln_dropped L"
  by (auto simp: forget_oldest_key_def split: list.splits)

lemma add_round_outcome:
  assumes wf: "lane_wf n L" and n: "0 < n"
    and a: "add_round K R policy n key x (L, fails, r) = (res, L', fails', r')"
    and ok: "res \<noteq> Inl CancelledError"
  shows "add_outcome policy n K x L res L'"
proof -
  obtain res1 L1 r1 where o: "resolve_overflow K R policy n (L, r) = (res1, L1, r1)"
    by (metis prod_cases3)
  note len = lane_wfD(1) [OF wf]
  have add: "res = Inr True \<and> ln_items L' = deque_append n x (ln_items L1) \<and> ln_dropped L' = ln_dropped L1"
    if "res1 = Inr False"
  proof -
    obtain res2 s where app: "append_item K R n key x (L1, fails, r1) = (res2, s)"
      using prod.exhaust by blast
    with a o that have s: "s = (L', fails', r')" and res: "res = map_sum id (\<lambda>_. True) res2"
      by (auto simp: add_round_def split: sum.splits)
    moreover have "res2 \<noteq> Inl e" if "e \<noteq> CancelledError" for e
      using append_item_error [of K R n key x L1 fails r1 e s] app that by auto
    ultimately have "res = Inr True" using ok by (cases res2) auto
    with append_item_lane [of K R n key x L1 fails r1 res2 L' fails' r'] app s show ?thesis by simp
  qed
  have stay: "res1 \<noteq> Inr False \<Longrightarrow> L' = L1 \<and> res = map_sum id Not res1"
    using a o by (auto simp: add_round_def split: prod.splits sum.splits bool.splits)
  from o show ?thesis
  proof (cases rule: resolve_overflow_cases)
    case room
    with add len show ?thesis by (simp add: add_outcome_def lane_full_def deque_append_room)
  next
    case refuse
    with stay show ?thesis by (simp add: add_outcome_def)
  next
    case wait
    with stay show ?thesis by (simp add: add_outcome_def)
  next
    case (drop k)
    have "res1 = Inr False"
      using drop(4) stay ok o drop(1,2)
      by (cases res1) (auto simp: resolve_overflow_def not_catchable split: option.splits prod.splits sum.splits
          if_splits dest!: confirm_keys_error)
    moreover have "ln_dropped L1 = ln_dropped L + 1"
      using forget_oldest_key_dropped [OF drop(3)] by simp
    moreover have "deque_append n x (ln_items L1) = tl (ln_items L) @ [x]"
      using drop(1) len n by (simp add: resolve_overflow_frame [OF o] lane_full_def deque_append_full)
    ultimately show ?thesis using add drop(1,2) by (simp add: add_outcome_def)
  qed
qed

text \<open>
  C23: one attempt to add an item, under each policy and for a queue within its bound. With room
  the item goes to the end. A full queue refuses the item under \<open>raise\<close>, makes the caller wait
  under \<open>block\<close>, both without changing anything, and under \<open>drop\<close> loses exactly its oldest item,
  which is counted. In every case the lane stays well formed.
\<close>

theorem add_round_policies:
  assumes wf: "lane_wf n L" and n: "0 < n" and fresh: "fst x \<notin> ids (ln_items L)" and key: "key \<noteq> []"
    and a: "add_round K R policy n key x (L, fails, r) = (res, L', fails', r')"
    and ok: "res \<noteq> Inl CancelledError"
  shows "add_outcome policy n K x L res L' \<and> lane_wf n L'"
  using add_round_outcome [OF wf n a ok] add_round_wf [OF wf n fresh key a] by simp

text \<open>A lane kind that encodes numbers in decimal, and a full lane, for concrete runs.\<close>

definition sample_kind :: "nat lane_kind" where
  "sample_kind = \<lparr>lk_namespace = ''agent_events'', lk_prefix = ''event'', lk_full_message = ''Event buffer full'',
     lk_dump = (\<lambda>n. Inr (show_nat n)), lk_load = (\<lambda>s. Inr (Some 0))\<rparr>"

definition full_lane :: "nat lane" where
  "full_lane = \<lparr>ln_items = [(1, 10), (2, 20)], ln_keys = [1 \<mapsto> ''a''],
     ln_buffered = 2, ln_flushed = 0, ln_dropped = 0\<rparr>"

lemma full_lane_wf: "lane_wf 2 full_lane"
  by (simp add: lane_wf_def full_lane_def)

theorem add_round_policies_witness:
  "ln_items (fst (snd (add_round sample_kind (None :: unit redis_handler option) Drop 2 ''k'' (3, 30) (full_lane, 0, ()))))
     = [(2, 20), (3, 30)]"
proof -
  obtain res L' f' r' where a: "add_round sample_kind (None :: unit redis_handler option) Drop 2 ''k'' (3, 30)
      (full_lane, 0, ()) = (res, L', f', r')"
    by (metis prod_cases4)
  have ok: "res \<noteq> Inl CancelledError"
    using a by (auto simp: add_round_def resolve_overflow_def forget_oldest_key_def full_lane_def lane_full_def
        append_item_def Let_def)
  have fresh: "fst (3, 30) \<notin> ids (ln_items full_lane)" by (simp add: full_lane_def)
  from add_round_policies [OF full_lane_wf _ fresh _ a ok]
  have "add_outcome Drop 2 sample_kind (3, 30) full_lane res L'" by simp
  then have "ln_items L' = [(2, 20), (3, 30)]" by (simp add: add_outcome_def lane_full_def full_lane_def)
  then show ?thesis unfolding a by simp
qed

end
