(* ===== verification/LaneRequeue.thy ===== *)
theory LaneRequeue
  imports LaneFacts
begin

text \<open>
  Draining a lane and putting a batch back after a failed send. The loop of
  \<open>requeue_*_in_memory\<close>, which pushes items one by one and evicts at the other end, is shown
  equal to a reference description: the batch goes in front, in its order, and the queue is cut at
  its bound; and a drain followed by a requeue is shown to change nothing.
\<close>

section \<open>Draining\<close>

definition key_of :: "'a lane \<Rightarrow> 'a obj \<Rightarrow> string" where
  "key_of L x = (case ln_keys L (fst x) of None \<Rightarrow> [] | Some k \<Rightarrow> k)"

lemma pop_keys_distinct:
  assumes "distinct (map fst xs)"
  shows "pop_keys xs m = (map (\<lambda>x. case m (fst x) of None \<Rightarrow> [] | Some k \<Rightarrow> k) xs, m |` (- ids xs))"
  using assms
proof (induction xs arbitrary: m)
  case Nil
  then show ?case by simp
next
  case (Cons x xs)
  then have "map (\<lambda>y. case (m(fst x := None)) (fst y) of None \<Rightarrow> [] | Some k \<Rightarrow> k) xs
      = map (\<lambda>y. case m (fst y) of None \<Rightarrow> [] | Some k \<Rightarrow> k) xs"
    by (intro map_cong) (auto simp: rev_image_eqI)
  moreover have "(m(fst x := None)) |` (- ids xs) = m |` (- ids (x # xs))"
    by (auto simp: restrict_map_def fun_eq_iff)
  ultimately show ?case using Cons by simp
qed

lemma flush_with_keys_spec:
  assumes "lane_wf n L"
  shows "flush_with_keys L = (ln_items L, map (key_of L) (ln_items L),
     L\<lparr>ln_items := [], ln_keys := Map.empty, ln_flushed := ln_flushed L + int (length (ln_items L))\<rparr>)"
proof -
  have "ln_keys L |` (- ids (ln_items L)) = Map.empty"
    using lane_wfD(3) [OF assms] by (auto simp: restrict_map_def fun_eq_iff)
  moreover have "(\<lambda>x. case ln_keys L (fst x) of None \<Rightarrow> [] | Some k \<Rightarrow> k) = key_of L"
    by (simp add: key_of_def fun_eq_iff)
  ultimately show ?thesis
    using pop_keys_distinct [OF lane_wfD(2) [OF assms], of "ln_keys L"]
    by (simp add: flush_with_keys_def Let_def)
qed

text \<open>
  Draining a well-formed lane returns every queued item in order, with its Redis key next to
  it, and leaves the lane empty, with no tracked key and the items counted as flushed.
\<close>

theorem flush_with_keys_drains:
  assumes "lane_wf n L"
  shows "flush_with_keys L = (ln_items L, map (key_of L) (ln_items L),
     L\<lparr>ln_items := [], ln_keys := Map.empty, ln_flushed := ln_flushed L + int (length (ln_items L))\<rparr>)"
  by (rule flush_with_keys_spec [OF assms])

definition sample_lane :: "nat lane" where
  "sample_lane = \<lparr>ln_items = [(1, 10), (2, 20)], ln_keys = [1 \<mapsto> ''k1''], ln_buffered = 2,
     ln_flushed = 0, ln_dropped = 0\<rparr>"

lemma sample_lane_wf: "lane_wf 2 sample_lane"
  by (auto simp: lane_wf_def sample_lane_def split: if_splits)

theorem flush_with_keys_drains_witness:
  "flush_with_keys sample_lane = ([(1, 10), (2, 20)], [''k1'', []],
     \<lparr>ln_items = [], ln_keys = Map.empty, ln_buffered = 2, ln_flushed = 2, ln_dropped = 0\<rparr>)"
  by (subst flush_with_keys_drains [OF sample_lane_wf]) (simp add: sample_lane_def key_of_def)

lemma lane_wf_drained [inv_intros]:
  assumes "lane_wf n L" and "flush_with_keys L = (xs, ks, L')"
  shows "lane_wf n L'"
  using assms by (auto simp: flush_with_keys_spec [OF assms(1)] lane_wf_def)

section \<open>Requeueing\<close>

text \<open>The key map once the keys of a batch are recorded again.\<close>

fun add_keys :: "'a obj list \<Rightarrow> string list \<Rightarrow> (oid \<Rightarrow> string option) \<Rightarrow> (oid \<Rightarrow> string option)" where
  "add_keys (x # xs) (k # ks) m = (let m' = add_keys xs ks m in if k = [] then m' else m'(fst x \<mapsto> k))"
| "add_keys _ _ m = m"

text \<open>The keys tracked for a list of items, in its order.\<close>

definition tracked_keys :: "(oid \<Rightarrow> string option) \<Rightarrow> 'a obj list \<Rightarrow> string list" where
  "tracked_keys m xs = List.map_filter (\<lambda>x. m (fst x)) xs"

lemma tracked_keys_simps [simp]:
  "tracked_keys m [] = []"
  "tracked_keys m (x # xs) = (case m (fst x) of None \<Rightarrow> [] | Some k \<Rightarrow> [k]) @ tracked_keys m xs"
  "tracked_keys m (xs @ ys) = tracked_keys m xs @ tracked_keys m ys"
  by (auto simp: tracked_keys_def List.map_filter_def split: option.splits)

lemma tracked_keys_cong:
  "(\<And>x. x \<in> set xs \<Longrightarrow> m (fst x) = m' (fst x)) \<Longrightarrow> tracked_keys m xs = tracked_keys m' xs"
  by (induction xs) (auto split: option.splits)

lemma add_keys_other: "i \<notin> ids xs \<Longrightarrow> add_keys xs ks m i = m i"
  by (induction xs ks m rule: add_keys.induct) (auto simp: Let_def)

lemma add_keys_append:
  "length xs = length ks \<Longrightarrow> add_keys (xs @ [x]) (ks @ [k]) m = add_keys xs ks (add_keys [x] [k] m)"
  by (induction xs ks rule: list_induct2) (auto simp: Let_def)

lemma add_keys_dom: "dom (add_keys xs ks m) \<subseteq> ids xs \<union> dom m"
  by (induction xs ks m rule: add_keys.induct) (auto simp: Let_def split: if_splits)

lemma add_keys_ran: "[] \<notin> ran m \<Longrightarrow> [] \<notin> ran (add_keys xs ks m)"
proof (induction xs ks m rule: add_keys.induct)
  case (1 x xs k ks m)
  then show ?case
    using ran_upd_subset [of "add_keys xs ks m" "fst x" "Some k"] by (auto simp: Let_def)
qed simp_all

lemma add_keys_cong: "m i = m' i \<Longrightarrow> add_keys xs ks m i = add_keys xs ks m' i"
proof (induction xs ks m rule: add_keys.induct)
  case (1 x xs k ks m)
  then show ?case by (simp add: Let_def)
qed simp_all

lemma restrict_map_dom: "dom m \<subseteq> A \<Longrightarrow> m |` A = m"
  by (rule ext) (metis domIff restrict_map_def subsetD)

lemma restrict_map_cong: "(\<And>i. i \<in> A \<Longrightarrow> m i = m' i) \<Longrightarrow> m |` A = m' |` A"
  by (auto simp: restrict_map_def fun_eq_iff)

lemma drop_append_take: "drop n (xs @ take n q) @ drop n q = drop n (xs @ q)"
proof -
  have "drop n (xs @ q) = drop n ((xs @ take n q) @ drop n q)" by simp
  also have "\<dots> = drop n (xs @ take n q) @ drop n q"
    by (subst drop_append) (simp add: min_def not_le diff_diff_eq2)
  finally show ?thesis by simp
qed

lemma rev_drop_append_take: "rev (drop n (xs @ q)) = rev (drop n q) @ rev (drop n (xs @ take n q))"
  by (metis drop_append_take rev_append)

text \<open>What one iteration does, on a well-formed lane and an object that is not queued.\<close>

definition requeued :: "nat \<Rightarrow> 'a obj list \<Rightarrow> string list \<Rightarrow> 'a lane \<Rightarrow> 'a lane \<Rightarrow> bool" where
  "requeued n xs ks L L' \<longleftrightarrow>
     ln_items L' = take n (xs @ ln_items L) \<and>
     ln_keys L' = add_keys xs ks (ln_keys L) |` ids (take n (xs @ ln_items L)) \<and>
     ln_dropped L' = ln_dropped L + int (length (drop n (xs @ ln_items L))) \<and>
     ln_buffered L' = ln_buffered L \<and> ln_flushed L' = ln_flushed L"

definition evicted_keys :: "nat \<Rightarrow> 'a obj list \<Rightarrow> string list \<Rightarrow> 'a lane \<Rightarrow> string list" where
  "evicted_keys n xs ks L =
     tracked_keys (add_keys xs ks (ln_keys L)) (rev (drop n (xs @ ln_items L)))"

lemma requeued_wf:
  assumes "requeued n xs ks L L'" and "lane_wf n L"
    and "distinct (map fst xs)" and "ids xs \<inter> ids (ln_items L) = {}"
  shows "lane_wf n L'"
proof -
  have "distinct (map fst (xs @ ln_items L))"
    using assms lane_wfD(2) [OF assms(2)] by auto
  then have "distinct (map fst (take n (xs @ ln_items L)))"
    by (metis distinct_take take_map)
  moreover have "[] \<notin> ran (add_keys xs ks (ln_keys L))"
    by (rule add_keys_ran [OF lane_wfD(4) [OF assms(2)]])
  then have "[] \<notin> ran (add_keys xs ks (ln_keys L) |` A)" for A
    by (auto simp: ran_def restrict_map_def split: if_splits)
  ultimately show ?thesis
    using assms(1) by (auto simp: requeued_def lane_wf_def)
qed

lemma requeue_one_spec:
  assumes wf: "lane_wf n L" and n: "0 < n" and fresh: "fst y \<notin> ids (ln_items L)"
  obtains L' where "requeue_one n y k (ev, L) = (ev @ evicted_keys n [y] [k] L, L')"
    and "requeued n [y] [k] L L'"
proof (cases "lane_full n L")
  case False
  then have room: "drop n (y # ln_items L) = []" "take n (y # ln_items L) = y # ln_items L"
    by (simp_all add: lane_full_def)
  have dom: "dom (add_keys [y] [k] (ln_keys L)) \<subseteq> ids (y # ln_items L)"
    using add_keys_dom [of "[y]" "[k]" "ln_keys L"] lane_wfD(3) [OF wf]
    by (simp del: add_keys.simps) blast
  then have "add_keys [y] [k] (ln_keys L) |` ids (y # ln_items L) = add_keys [y] [k] (ln_keys L)"
    by (rule restrict_map_dom)
  with False room show ?thesis
    by (intro that [of "snd (requeue_one n y k (ev, L))"])
       (simp_all add: requeue_one_def requeued_def evicted_keys_def deque_appendleft_def Let_def)
next
  case True
  from True lane_wfD(1) [OF wf] n obtain zs z where q: "ln_items L = zs @ [z]" "length zs = n - 1"
    by (cases "ln_items L" rule: rev_cases) (auto simp: lane_full_def)
  with n have cut: "take n (y # ln_items L) = y # zs" "drop n (y # ln_items L) = [z]"
    by (simp_all add: take_Cons' drop_Cons')
  have new: "fst z \<notin> ids zs" "fst z \<noteq> fst y"
    using lane_wfD(2) [OF wf] fresh q by auto
  let ?m = "(ln_keys L)(fst z := None)"
  have "dom ?m \<subseteq> ids zs" using lane_wfD(3) [OF wf] q by auto
  then have "dom (add_keys [y] [k] ?m) \<subseteq> ids (y # zs)"
    using add_keys_dom [of "[y]" "[k]" ?m] by (simp del: add_keys.simps) blast
  then have "add_keys [y] [k] ?m |` ids (y # zs) = add_keys [y] [k] ?m"
    by (rule restrict_map_dom)
  moreover have "add_keys [y] [k] ?m |` ids (y # zs) = add_keys [y] [k] (ln_keys L) |` ids (y # zs)"
    using new by (auto simp: restrict_map_def fun_eq_iff Let_def)
  ultimately have keys: "add_keys [y] [k] (ln_keys L) |` ids (y # zs) = add_keys [y] [k] ?m" by simp
  have ne: "ln_keys L (fst z) \<noteq> Some []" by (rule tracked_nonempty [OF wf])
  have key: "add_keys [y] [k] (ln_keys L) (fst z) = ln_keys L (fst z)"
    using new by (simp add: Let_def)
  let ?L' = "L\<lparr>ln_dropped := ln_dropped L + 1, ln_items := y # zs, ln_keys := add_keys [y] [k] ?m\<rparr>"
  have "requeued n [y] [k] L ?L'"
    using keys by (simp add: requeued_def cut)
  moreover have "evicted_keys n [y] [k] L = (case ln_keys L (fst z) of None \<Rightarrow> [] | Some k \<Rightarrow> [k])"
    using cut key by (simp add: evicted_keys_def del: add_keys.simps)
  then have "requeue_one n y k (ev, L) = (ev @ evicted_keys n [y] [k] L, ?L')"
    using True ne n q(2)
    by (cases "ln_keys L (fst z)")
       (simp_all add: requeue_one_def forget_newest_key_def q(1) deque_appendleft_def take_Cons' Let_def)
  ultimately show ?thesis by (intro that)
qed

text \<open>The loop, by induction on the batch from its end: the order in which the code pushes.\<close>

lemma requeue_loop_spec:
  assumes "length xs = length ks" and "lane_wf n L" and "0 < n"
    and "distinct (map fst xs)" and "ids xs \<inter> ids (ln_items L) = {}"
  shows "\<exists>L'. requeue_loop n (rev xs) (rev ks) (ev, L) = (Inr (ev @ evicted_keys n xs ks L), L')
    \<and> requeued n xs ks L L'"
  using assms
proof (induction xs arbitrary: ks ev L rule: rev_induct)
  case Nil
  have "ln_keys L |` ids (take n (ln_items L)) = ln_keys L"
    using lane_wfD(1,3) [OF Nil.prems(2)] by (simp add: restrict_map_dom)
  with Nil lane_wfD(1) [OF Nil.prems(2)] show ?case by (simp add: requeued_def evicted_keys_def)
next
  case (snoc y xs)
  from snoc.prems(1) obtain ks' k where ks: "ks = ks' @ [k]" and len: "length xs = length ks'"
    by (cases ks rule: rev_cases) auto
  let ?q = "y # ln_items L" and ?m = "add_keys [y] [k] (ln_keys L)"
  have fresh: "fst y \<notin> ids (ln_items L)" "ids xs \<inter> ids ?q = {}" "distinct (map fst xs)"
    using snoc.prems(4,5) by auto
  obtain L1 where one: "requeue_one n y k (ev, L) = (ev @ evicted_keys n [y] [k] L, L1)"
    and r1: "requeued n [y] [k] L L1"
    by (rule requeue_one_spec [OF snoc.prems(2,3) fresh(1)])
  have items1: "ln_items L1 = take n ?q" and keys1: "ln_keys L1 = ?m |` ids (take n ?q)"
    using r1 by (simp_all add: requeued_def)
  have wf1: "lane_wf n L1"
    by (rule requeued_wf [OF r1 snoc.prems(2)]) (use fresh in auto)
  have dis1: "ids xs \<inter> ids (ln_items L1) = {}"
  proof -
    have "ids (take n ?q) \<subseteq> ids ?q" by (intro image_mono set_take_subset)
    with fresh(2) show ?thesis unfolding items1 by blast
  qed
  obtain L2 where loop: "requeue_loop n (rev xs) (rev ks') (ev @ evicted_keys n [y] [k] L, L1)
       = (Inr ((ev @ evicted_keys n [y] [k] L) @ evicted_keys n xs ks' L1), L2)"
    and r2: "requeued n xs ks' L1 L2"
    using snoc.IH [OF len wf1 snoc.prems(3) fresh(3) dis1] by blast
  have same: "add_keys xs ks' (ln_keys L1) i = add_keys xs ks' ?m i" if "i \<in> ids (xs @ take n ?q)" for i
  proof (rule add_keys_cong)
    have none: "?m i = None" if "i \<in> ids xs"
    proof -
      from that fresh(2) have "i \<notin> ids ?q" by blast
      then have "i \<notin> ids [y]" "i \<notin> dom (ln_keys L)"
        using lane_wfD(3) [OF snoc.prems(2)] by (simp, metis insertCI list.simps(15) image_insert subsetD)
      then show ?thesis by (subst add_keys_other) auto
    qed
    show "ln_keys L1 i = ?m i"
    proof (cases "i \<in> ids xs")
      case True
      with none show ?thesis by (simp add: keys1 restrict_map_def del: add_keys.simps)
    next
      case False
      with that have "i \<in> ids (take n ?q)" by (simp add: image_Un)
      then show ?thesis by (simp add: keys1 del: add_keys.simps)
    qed
  qed
  have M: "add_keys (xs @ [y]) ks (ln_keys L) = add_keys xs ks' ?m"
    by (simp add: ks add_keys_append len del: add_keys.simps)
  let ?M = "add_keys xs ks' ?m"
  have "ids (drop n ?q) \<subseteq> ids ?q" by (intro image_mono set_drop_subset)
  with fresh(2) have "ids xs \<inter> ids (drop n ?q) = {}" by blast
  then have "tracked_keys ?M (rev (drop n ?q)) = tracked_keys ?m (rev (drop n ?q))"
    by (intro tracked_keys_cong add_keys_other) (metis IntI emptyE imageI set_rev)
  moreover have "tracked_keys ?M (rev (drop n (xs @ take n ?q)))
      = tracked_keys (add_keys xs ks' (ln_keys L1)) (rev (drop n (xs @ take n ?q)))"
    by (intro tracked_keys_cong same [symmetric]) (metis image_eqI in_set_dropD set_rev)
  ultimately have "evicted_keys n (xs @ [y]) ks L = evicted_keys n [y] [k] L @ evicted_keys n xs ks' L1"
    by (simp add: evicted_keys_def M items1 rev_drop_append_take [of n xs ?q] del: add_keys.simps drop_append)
  moreover have "requeued n (xs @ [y]) ks L L2"
  proof -
    have "add_keys xs ks' (ln_keys L1) |` ids (take n (xs @ take n ?q))
        = ?M |` ids (take n (xs @ take n ?q))"
      using image_mono [OF set_take_subset, of fst n "xs @ take n ?q"]
      by (intro restrict_map_cong same) (erule subsetD)
    moreover have "length (drop n (xs @ ?q)) = length (drop n (xs @ take n ?q)) + length (drop n ?q)"
      by (metis drop_append_take length_append)
    ultimately show ?thesis
      using r1 r2 by (simp add: requeued_def M items1 del: add_keys.simps drop_append length_drop take_append)
  qed
  ultimately show ?case using one loop by (auto simp: ks)
qed

lemma requeue_in_memory_spec:
  assumes "length xs = length ks" and "lane_wf n L" and "0 < n"
    and "distinct (map fst xs)" and "ids xs \<inter> ids (ln_items L) = {}"
  shows "\<exists>L'. requeue_in_memory n xs ks L = (Inr (evicted_keys n xs ks L), L')
    \<and> requeued n xs ks L L' \<and> lane_wf n L'"
  using requeue_loop_spec [OF assms, of "[]"] requeued_wf [OF _ assms(2,4,5)]
  by (auto simp: requeue_in_memory_def)

text \<open>
  C22: requeueing a batch, whatever was added to the lane meanwhile, puts the batch in front in its
  order and cuts the queue at its bound. The items cut off are the newest; they are counted as
  dropped, and exactly their tracked keys are returned for deletion, newest first.
\<close>

theorem requeue_in_memory_reference:
  assumes "length xs = length ks" and "lane_wf n L" and "0 < n"
    and "distinct (map fst xs)" and "ids xs \<inter> ids (ln_items L) = {}"
  shows "\<exists>L'. requeue_in_memory n xs ks L = (Inr (evicted_keys n xs ks L), L')
    \<and> requeued n xs ks L L' \<and> lane_wf n L'"
  by (rule requeue_in_memory_spec [OF assms])

definition busy_lane :: "nat lane" where
  "busy_lane = \<lparr>ln_items = [(7, 70), (8, 80)], ln_keys = [8 \<mapsto> ''k8''], ln_buffered = 4,
     ln_flushed = 2, ln_dropped = 0\<rparr>"

theorem requeue_in_memory_reference_witness:
  "\<exists>L'. requeue_in_memory 3 [(1, 10), (2, 20)] [''k1'', []] busy_lane = (Inr [''k8''], L')
    \<and> ln_items L' = [(1, 10), (2, 20), (7, 70)] \<and> ln_dropped L' = 1 \<and> lane_wf 3 L'"
proof -
  have wf: "lane_wf 3 busy_lane"
    by (auto simp: lane_wf_def busy_lane_def split: if_splits)
  have "\<exists>L'. requeue_in_memory 3 [(1, 10), (2, 20)] [''k1'', []] busy_lane
      = (Inr (evicted_keys 3 [(1, 10), (2, 20)] [''k1'', []] busy_lane), L')
    \<and> requeued 3 [(1, 10), (2, 20)] [''k1'', []] busy_lane L' \<and> lane_wf 3 L'"
    by (rule requeue_in_memory_reference [OF _ wf]) (simp_all add: busy_lane_def)
  then show ?thesis by (auto simp: requeued_def evicted_keys_def busy_lane_def)
qed

section \<open>Drain, then requeue\<close>

lemma add_keys_key_of:
  "distinct (map fst xs) \<Longrightarrow> [] \<notin> ran (ln_keys L) \<Longrightarrow> i \<in> ids xs
   \<Longrightarrow> add_keys xs (map (key_of L) xs) Map.empty i = ln_keys L i"
proof (induction xs)
  case Nil
  then show ?case by simp
next
  case (Cons x xs)
  have other: "add_keys xs (map (key_of L) xs) Map.empty (fst x) = None"
    using Cons.prems(1) by (subst add_keys_other) auto
  have "ln_keys L (fst x) \<noteq> Some []" using Cons.prems(2) by (auto simp: ran_def)
  with Cons other show ?case
    by (cases "i = fst x") (auto simp: Let_def key_of_def [of L x] split: option.splits)
qed

text \<open>
  A batch that is drained and put back, because its send failed, is not lost or reordered: with
  nothing added in between, the lane holds the same items with the same Redis keys as before, no
  key is handed out for deletion, and no drop is counted.
\<close>

theorem drain_requeue_roundtrip:
  assumes wf: "lane_wf n L" and n: "0 < n" and drained: "flush_with_keys L = (xs, ks, L1)"
  shows "\<exists>L2. requeue_in_memory n xs ks L1 = (Inr [], L2) \<and> ln_items L2 = ln_items L
    \<and> ln_keys L2 = ln_keys L \<and> ln_dropped L2 = ln_dropped L"
proof -
  note w = lane_wfD [OF wf]
  have parts: "xs = ln_items L" "ks = map (key_of L) xs"
    "L1 = L\<lparr>ln_items := [], ln_keys := Map.empty, ln_flushed := ln_flushed L + int (length (ln_items L))\<rparr>"
    using drained by (auto simp: flush_with_keys_spec [OF wf])
  obtain L2 where req: "requeue_in_memory n xs ks L1 = (Inr (evicted_keys n xs ks L1), L2)"
    and spec: "requeued n xs ks L1 L2"
    using requeue_in_memory_spec [of xs ks n L1] lane_wf_drained [OF wf drained] w(2) n parts
    by auto
  have cut: "drop n (xs @ ln_items L1) = []" "take n (xs @ ln_items L1) = xs"
    using w(1) parts by simp_all
  have "ln_keys L2 i = ln_keys L i" for i
  proof (cases "i \<in> ids xs")
    case True
    with spec cut add_keys_key_of [of xs L i] w(2,4) parts show ?thesis
      by (simp add: requeued_def)
  next
    case False
    with w(3) parts(1) have "ln_keys L i = None" by blast
    with False spec cut show ?thesis by (simp add: requeued_def)
  qed
  then have "ln_keys L2 = ln_keys L" by (rule ext)
  with req spec cut parts show ?thesis by (simp add: requeued_def evicted_keys_def)
qed

theorem drain_requeue_roundtrip_witness:
  "\<exists>L2. requeue_in_memory 2 [(1, 10), (2, 20)] [''k1'', []] (sample_lane\<lparr>ln_items := [],
       ln_keys := Map.empty, ln_flushed := 2\<rparr>) = (Inr [], L2)
    \<and> ln_items L2 = ln_items sample_lane \<and> ln_keys L2 = ln_keys sample_lane
    \<and> ln_dropped L2 = ln_dropped sample_lane"
proof (rule drain_requeue_roundtrip [OF sample_lane_wf])
  show "(0::nat) < 2" by simp
  show "flush_with_keys sample_lane = ([(1, 10), (2, 20)], [''k1'', []],
      sample_lane\<lparr>ln_items := [], ln_keys := Map.empty, ln_flushed := 2\<rparr>)"
    by (simp add: flush_with_keys_def sample_lane_def Let_def fun_eq_iff)
qed

end
