(* ===== verification/Buffer.thy ===== *)
theory Buffer
  imports LaneRequeue
begin

text \<open>
  \<open>EventBuffer\<close>: the two lanes, the Redis side, the automatic flush. The public operations of
  \<open>buffer.py\<close>, \<open>_buffer_queue.py\<close>, \<open>_buffer_overflow.py\<close>, \<open>_buffer_redis.py\<close> and
  \<open>_buffer_lifecycle.py\<close> on the whole buffer, each with its copy for events and for metrics.

  An operation works on the buffer and the state \<open>'r\<close> of the Redis side. The events' and the
  metrics' encoders and decoders (\<open>model_dump\<close> with JSON, JSON with the pydantic constructor) are
  arguments, since the models' serialization is pydantic's.
\<close>

section \<open>State\<close>

text \<open>
  \<open>bf_flush_task\<close> is the auto-flush task, with whether it is done; \<open>bf_semaphore\<close> the free permits
  of the flush semaphore; \<open>bf_inflight\<close> the number of early-flush tasks not finished.
\<close>

record ('e, 'm, 'r) event_buffer =
  bf_config :: agent_config
  bf_redis :: "'r redis_handler option"
  bf_events :: "'e lane"
  bf_metrics :: "'m lane"
  bf_persist_failures :: int
  bf_last_flush_time :: "time option"
  bf_running :: bool
  bf_flush_task :: "bool option"
  bf_semaphore :: "nat option"
  bf_inflight :: nat

definition event_buffer_init :: "agent_config \<Rightarrow> ('e, 'm, 'r) event_buffer" where
  "event_buffer_init c = \<lparr>
     bf_config = c, bf_redis = None, bf_events = empty_lane, bf_metrics = empty_lane,
     bf_persist_failures = 0, bf_last_flush_time = None, bf_running = False,
     bf_flush_task = None, bf_semaphore = None, bf_inflight = 0\<rparr>"

definition buffer_maxlen :: "('e, 'm, 'r) event_buffer \<Rightarrow> nat" where
  "buffer_maxlen B = nat (cf_buffer_size (bf_config B))"

text \<open>The message of a refusal: \<open>... buffer full at maxlen=... and buffer_overflow_policy='raise'\<close>.\<close>

definition buffer_full_message :: "string \<Rightarrow> agent_config \<Rightarrow> string" where
  "buffer_full_message what c = what @ '' buffer full at maxlen='' @ show_int (cf_buffer_size c)
     @ '' and buffer_overflow_policy='' @ [CHR 0x27] @ ''raise'' @ [CHR 0x27]"

definition event_kind ::
  "agent_config \<Rightarrow> ('e \<Rightarrow> exn + string) \<Rightarrow> (string \<Rightarrow> exn + 'e option) \<Rightarrow> 'e lane_kind" where
  "event_kind c dump load = \<lparr>lk_namespace = ''agent_events'', lk_prefix = ''event'',
     lk_full_message = buffer_full_message ''Event'' c, lk_dump = dump, lk_load = load\<rparr>"

definition metric_kind ::
  "agent_config \<Rightarrow> ('m \<Rightarrow> exn + string) \<Rightarrow> (string \<Rightarrow> exn + 'm option) \<Rightarrow> 'm lane_kind" where
  "metric_kind c dump load = \<lparr>lk_namespace = ''agent_metrics'', lk_prefix = ''metric'',
     lk_full_message = buffer_full_message ''Metric'' c, lk_dump = dump, lk_load = load\<rparr>"

type_synonym ('e, 'm, 'r) buffer_state = "('e, 'm, 'r) event_buffer \<times> 'r"

section \<open>Overflow\<close>

definition is_event_buffer_full :: "('e, 'm, 'r) event_buffer \<Rightarrow> bool" where
  "is_event_buffer_full B = lane_full (buffer_maxlen B) (bf_events B)"

definition is_metric_buffer_full :: "('e, 'm, 'r) event_buffer \<Rightarrow> bool" where
  "is_metric_buffer_full B = lane_full (buffer_maxlen B) (bf_metrics B)"

definition forget_oldest_event_key :: "('e, 'm, 'r) event_buffer \<Rightarrow> string option \<times> ('e, 'm, 'r) event_buffer" where
  "forget_oldest_event_key B = (case forget_oldest_key (bf_events B) of (k, L) \<Rightarrow> (k, B\<lparr>bf_events := L\<rparr>))"

definition forget_oldest_metric_key :: "('e, 'm, 'r) event_buffer \<Rightarrow> string option \<times> ('e, 'm, 'r) event_buffer" where
  "forget_oldest_metric_key B = (case forget_oldest_key (bf_metrics B) of (k, L) \<Rightarrow> (k, B\<lparr>bf_metrics := L\<rparr>))"

definition forget_newest_event_key :: "('e, 'm, 'r) event_buffer \<Rightarrow> string option \<times> ('e, 'm, 'r) event_buffer" where
  "forget_newest_event_key B = (case forget_newest_key (bf_events B) of (k, L) \<Rightarrow> (k, B\<lparr>bf_events := L\<rparr>))"

definition forget_newest_metric_key :: "('e, 'm, 'r) event_buffer \<Rightarrow> string option \<times> ('e, 'm, 'r) event_buffer" where
  "forget_newest_metric_key B = (case forget_newest_key (bf_metrics B) of (k, L) \<Rightarrow> (k, B\<lparr>bf_metrics := L\<rparr>))"

definition resolve_event_overflow ::
  "'e lane_kind \<Rightarrow> ('e, 'm, 'r) buffer_state \<Rightarrow> (exn + bool) \<times> ('e, 'm, 'r) buffer_state" where
  "resolve_event_overflow K = (\<lambda>(B, r).
     case resolve_overflow K (bf_redis B) (cf_overflow_policy (bf_config B)) (buffer_maxlen B) (bf_events B, r) of
       (res, L, r') \<Rightarrow> (res, B\<lparr>bf_events := L\<rparr>, r'))"

definition resolve_metric_overflow ::
  "'m lane_kind \<Rightarrow> ('e, 'm, 'r) buffer_state \<Rightarrow> (exn + bool) \<times> ('e, 'm, 'r) buffer_state" where
  "resolve_metric_overflow K = (\<lambda>(B, r).
     case resolve_overflow K (bf_redis B) (cf_overflow_policy (bf_config B)) (buffer_maxlen B) (bf_metrics B, r) of
       (res, L, r') \<Rightarrow> (res, B\<lparr>bf_metrics := L\<rparr>, r'))"

section \<open>Adding\<close>

definition persist_event_to_redis ::
  "'e lane_kind \<Rightarrow> string \<Rightarrow> 'e \<Rightarrow> ('e, 'm, 'r) buffer_state \<Rightarrow> (exn + string option) \<times> ('e, 'm, 'r) buffer_state" where
  "persist_event_to_redis K key v = (\<lambda>(B, r).
     case persist_item K (bf_redis B) key v (bf_persist_failures B, r) of
       (res, fails, r') \<Rightarrow> (res, B\<lparr>bf_persist_failures := fails\<rparr>, r'))"

definition persist_metric_to_redis ::
  "'m lane_kind \<Rightarrow> string \<Rightarrow> 'm \<Rightarrow> ('e, 'm, 'r) buffer_state \<Rightarrow> (exn + string option) \<times> ('e, 'm, 'r) buffer_state" where
  "persist_metric_to_redis K key v = (\<lambda>(B, r).
     case persist_item K (bf_redis B) key v (bf_persist_failures B, r) of
       (res, fails, r') \<Rightarrow> (res, B\<lparr>bf_persist_failures := fails\<rparr>, r'))"

definition add_event_round ::
  "'e lane_kind \<Rightarrow> string \<Rightarrow> 'e obj \<Rightarrow> ('e, 'm, 'r) buffer_state \<Rightarrow> (exn + bool) \<times> ('e, 'm, 'r) buffer_state" where
  "add_event_round K key x = (\<lambda>(B, r).
     case add_round K (bf_redis B) (cf_overflow_policy (bf_config B)) (buffer_maxlen B) key x
            (bf_events B, bf_persist_failures B, r) of
       (res, L, fails, r') \<Rightarrow> (res, B\<lparr>bf_events := L, bf_persist_failures := fails\<rparr>, r'))"

definition add_metric_round ::
  "'m lane_kind \<Rightarrow> string \<Rightarrow> 'm obj \<Rightarrow> ('e, 'm, 'r) buffer_state \<Rightarrow> (exn + bool) \<times> ('e, 'm, 'r) buffer_state" where
  "add_metric_round K key x = (\<lambda>(B, r).
     case add_round K (bf_redis B) (cf_overflow_policy (bf_config B)) (buffer_maxlen B) key x
            (bf_metrics B, bf_persist_failures B, r) of
       (res, L, fails, r') \<Rightarrow> (res, B\<lparr>bf_metrics := L, bf_persist_failures := fails\<rparr>, r'))"

text \<open>
  The whole operation: the loop under the lock, then, unless it raised, the early-flush task when
  the lane has reached the watermark. The item and the Redis key of the persist are given.
\<close>

definition add_event ::
  "nat \<Rightarrow> (nat \<Rightarrow> ('e, 'm, 'r) buffer_state \<Rightarrow> ('e, 'm, 'r) buffer_state option)
   \<Rightarrow> 'e lane_kind \<Rightarrow> string \<Rightarrow> 'e obj \<Rightarrow> ('e, 'm, 'r) buffer_state
   \<Rightarrow> ((exn + unit) \<times> ('e, 'm, 'r) buffer_state) option" where
  "add_event fuel env K key x s =
     map_option (\<lambda>(res, B, r).
        (res, if res = Inr () \<and> early_flush_due (bf_config B) (bf_events B)
              then B\<lparr>bf_inflight := bf_inflight B + 1\<rparr> else B, r))
       (wait_loop fuel env 0 (add_event_round K key x) s)"

definition add_metric ::
  "nat \<Rightarrow> (nat \<Rightarrow> ('e, 'm, 'r) buffer_state \<Rightarrow> ('e, 'm, 'r) buffer_state option)
   \<Rightarrow> 'm lane_kind \<Rightarrow> string \<Rightarrow> 'm obj \<Rightarrow> ('e, 'm, 'r) buffer_state
   \<Rightarrow> ((exn + unit) \<times> ('e, 'm, 'r) buffer_state) option" where
  "add_metric fuel env K key x s =
     map_option (\<lambda>(res, B, r).
        (res, if res = Inr () \<and> early_flush_due (bf_config B) (bf_metrics B)
              then B\<lparr>bf_inflight := bf_inflight B + 1\<rparr> else B, r))
       (wait_loop fuel env 0 (add_metric_round K key x) s)"

section \<open>Draining, confirming, requeueing\<close>

definition flush_events_with_keys ::
  "time \<Rightarrow> ('e, 'm, 'r) event_buffer \<Rightarrow> 'e obj list \<times> string list \<times> ('e, 'm, 'r) event_buffer" where
  "flush_events_with_keys now B =
     (case flush_with_keys (bf_events B) of (xs, ks, L) \<Rightarrow>
        (xs, ks, B\<lparr>bf_events := L, bf_last_flush_time := Some now\<rparr>))"

definition flush_metrics_with_keys ::
  "time \<Rightarrow> ('e, 'm, 'r) event_buffer \<Rightarrow> 'm obj list \<times> string list \<times> ('e, 'm, 'r) event_buffer" where
  "flush_metrics_with_keys now B =
     (case flush_with_keys (bf_metrics B) of (xs, ks, L) \<Rightarrow>
        (xs, ks, B\<lparr>bf_metrics := L, bf_last_flush_time := Some now\<rparr>))"

definition confirm_event_redis_keys ::
  "string list \<Rightarrow> ('e, 'm, 'r) buffer_state \<Rightarrow> (exn + unit) \<times> ('e, 'm, 'r) buffer_state" where
  "confirm_event_redis_keys keys = (\<lambda>(B, r).
     case confirm_keys (bf_redis B) ''agent_events'' keys r of (res, r') \<Rightarrow> (res, B, r'))"

definition confirm_metric_redis_keys ::
  "string list \<Rightarrow> ('e, 'm, 'r) buffer_state \<Rightarrow> (exn + unit) \<times> ('e, 'm, 'r) buffer_state" where
  "confirm_metric_redis_keys keys = (\<lambda>(B, r).
     case confirm_keys (bf_redis B) ''agent_metrics'' keys r of (res, r') \<Rightarrow> (res, B, r'))"

text \<open>The legacy operations: drain and forget the Redis keys at once.\<close>

definition flush_events ::
  "time \<Rightarrow> ('e, 'm, 'r) buffer_state \<Rightarrow> (exn + 'e obj list) \<times> ('e, 'm, 'r) buffer_state" where
  "flush_events now = (\<lambda>(B, r).
     case flush_events_with_keys now B of (xs, ks, B1) \<Rightarrow>
       (case confirm_event_redis_keys ks (B1, r) of
          (Inl e, s) \<Rightarrow> (Inl e, s) | (Inr _, s) \<Rightarrow> (Inr xs, s)))"

definition flush_metrics ::
  "time \<Rightarrow> ('e, 'm, 'r) buffer_state \<Rightarrow> (exn + 'm obj list) \<times> ('e, 'm, 'r) buffer_state" where
  "flush_metrics now = (\<lambda>(B, r).
     case flush_metrics_with_keys now B of (xs, ks, B1) \<Rightarrow>
       (case confirm_metric_redis_keys ks (B1, r) of
          (Inl e, s) \<Rightarrow> (Inl e, s) | (Inr _, s) \<Rightarrow> (Inr xs, s)))"

definition requeue_events_in_memory ::
  "'e obj list \<Rightarrow> string list \<Rightarrow> ('e, 'm, 'r) event_buffer \<Rightarrow> (exn + string list) \<times> ('e, 'm, 'r) event_buffer" where
  "requeue_events_in_memory xs ks B =
     (case requeue_in_memory (buffer_maxlen B) xs ks (bf_events B) of (res, L) \<Rightarrow> (res, B\<lparr>bf_events := L\<rparr>))"

definition requeue_metrics_in_memory ::
  "'m obj list \<Rightarrow> string list \<Rightarrow> ('e, 'm, 'r) event_buffer \<Rightarrow> (exn + string list) \<times> ('e, 'm, 'r) event_buffer" where
  "requeue_metrics_in_memory xs ks B =
     (case requeue_in_memory (buffer_maxlen B) xs ks (bf_metrics B) of (res, L) \<Rightarrow> (res, B\<lparr>bf_metrics := L\<rparr>))"

section \<open>Deleting and loading Redis records\<close>

fun delete_listed :: "'r redis_handler \<Rightarrow> string \<Rightarrow> string list \<Rightarrow> 'r \<Rightarrow> (exn + unit) \<times> 'r" where
  "delete_listed h ns [] r = (Inr (), r)"
| "delete_listed h ns (key # keys) r =
     (case rh_delete h ns (after_last (CHR '':'') key) r of
        (Inl e, r') \<Rightarrow> (Inl e, r')
      | (Inr _, r') \<Rightarrow> delete_listed h ns keys r')"

text \<open>Strings compare as lists of code points; on UTF-8 text that is the order of the bytes.\<close>

fun str_le :: "string \<Rightarrow> string \<Rightarrow> bool" where
  "str_le [] t = True"
| "str_le (a # s) [] = False"
| "str_le (a # s) (b # t) =
     ((of_char a :: nat) < of_char b \<or> a = b \<and> str_le s t)"

fun insert_str :: "string \<Rightarrow> string list \<Rightarrow> string list" where
  "insert_str s [] = [s]"
| "insert_str s (t # ts) = (if str_le s t then s # t # ts else t # insert_str s ts)"

definition sorted_strs :: "string list \<Rightarrow> string list" where
  "sorted_strs xs = foldr insert_str xs []"

definition delete_matching_redis_keys ::
  "'r redis_handler \<Rightarrow> string \<Rightarrow> string \<Rightarrow> nat option \<Rightarrow> 'r \<Rightarrow> (exn + unit) \<times> 'r" where
  "delete_matching_redis_keys h ns pattern limit r =
     (case rh_keys h pattern r of
        (Inl e, r') \<Rightarrow> (Inl e, r')
      | (Inr listed, r') \<Rightarrow>
          (let keys = (case listed of None \<Rightarrow> [] | Some ks \<Rightarrow> ks)
           in delete_listed h ns (case limit of None \<Rightarrow> keys | Some n \<Rightarrow> take n (sorted_strs keys)) r'))"

text \<open>\<open>except Exception\<close> around a Redis call whose failure is only logged.\<close>

definition swallow :: "(exn + unit) \<times> 's \<Rightarrow> (exn + unit) \<times> 's" where
  "swallow = (\<lambda>(res, s). (case res of Inl e \<Rightarrow> if catchable e then Inr () else Inl e | Inr u \<Rightarrow> Inr u, s))"

definition clear_events_from_redis :: "nat \<Rightarrow> ('e, 'm, 'r) buffer_state \<Rightarrow> (exn + unit) \<times> ('e, 'm, 'r) buffer_state" where
  "clear_events_from_redis num = (\<lambda>(B, r).
     case bf_redis B of None \<Rightarrow> (Inr (), B, r)
     | Some h \<Rightarrow> (case swallow (delete_matching_redis_keys h ''agent_events'' ''agent_events:*'' (Some num) r) of
         (res, r') \<Rightarrow> (res, B, r')))"

definition clear_metrics_from_redis :: "nat \<Rightarrow> ('e, 'm, 'r) buffer_state \<Rightarrow> (exn + unit) \<times> ('e, 'm, 'r) buffer_state" where
  "clear_metrics_from_redis num = (\<lambda>(B, r).
     case bf_redis B of None \<Rightarrow> (Inr (), B, r)
     | Some h \<Rightarrow> (case swallow (delete_matching_redis_keys h ''agent_metrics'' ''agent_metrics:*'' (Some num) r) of
         (res, r') \<Rightarrow> (res, B, r')))"

definition clear_redis_buffers :: "('e, 'm, 'r) buffer_state \<Rightarrow> (exn + unit) \<times> ('e, 'm, 'r) buffer_state" where
  "clear_redis_buffers = (\<lambda>(B, r).
     case bf_redis B of None \<Rightarrow> (Inr (), B, r)
     | Some h \<Rightarrow>
         (case swallow
             (case delete_matching_redis_keys h ''agent_events'' ''agent_events:*'' None r of
                (Inl e, r') \<Rightarrow> (Inl e, r')
              | (Inr _, r') \<Rightarrow> delete_matching_redis_keys h ''agent_metrics'' ''agent_metrics:*'' None r') of
            (res, r') \<Rightarrow> (res, B, r')))"

definition clear_buffer :: "('e, 'm, 'r) buffer_state \<Rightarrow> (exn + unit) \<times> ('e, 'm, 'r) buffer_state" where
  "clear_buffer = (\<lambda>(B, r).
     clear_redis_buffers (B\<lparr>bf_events := clear_lane (bf_events B), bf_metrics := clear_lane (bf_metrics B)\<rparr>, r))"

text \<open>
  Attaching a handler and loading what it stores. The loaded events and metrics are new objects
  with identities from \<open>i\<close> and from \<open>j\<close> on.
\<close>

definition load_events_from_redis ::
  "'e lane_kind \<Rightarrow> 'r redis_handler \<Rightarrow> oid \<Rightarrow> ('e, 'm, 'r) buffer_state \<Rightarrow> (exn + unit) \<times> ('e, 'm, 'r) buffer_state" where
  "load_events_from_redis K h i = (\<lambda>(B, r).
     case load_lane K h (buffer_maxlen B) i (bf_events B, r) of (res, L, r') \<Rightarrow> (res, B\<lparr>bf_events := L\<rparr>, r'))"

definition load_metrics_from_redis ::
  "'m lane_kind \<Rightarrow> 'r redis_handler \<Rightarrow> oid \<Rightarrow> ('e, 'm, 'r) buffer_state \<Rightarrow> (exn + unit) \<times> ('e, 'm, 'r) buffer_state" where
  "load_metrics_from_redis K h j = (\<lambda>(B, r).
     case load_lane K h (buffer_maxlen B) j (bf_metrics B, r) of (res, L, r') \<Rightarrow> (res, B\<lparr>bf_metrics := L\<rparr>, r'))"

definition load_from_redis ::
  "'e lane_kind \<Rightarrow> 'm lane_kind \<Rightarrow> oid \<Rightarrow> oid \<Rightarrow> ('e, 'm, 'r) buffer_state
   \<Rightarrow> (exn + unit) \<times> ('e, 'm, 'r) buffer_state" where
  "load_from_redis KE KM i j = (\<lambda>(B, r).
     case bf_redis B of None \<Rightarrow> (Inr (), B, r)
     | Some h \<Rightarrow> swallow
         (case load_events_from_redis KE h i (B, r) of
            (Inl e, s) \<Rightarrow> (Inl e, s)
          | (Inr _, s) \<Rightarrow> load_metrics_from_redis KM h j s))"

definition initialize_redis ::
  "'e lane_kind \<Rightarrow> 'm lane_kind \<Rightarrow> oid \<Rightarrow> oid \<Rightarrow> 'r redis_handler \<Rightarrow> ('e, 'm, 'r) buffer_state
   \<Rightarrow> (exn + unit) \<times> ('e, 'm, 'r) buffer_state" where
  "initialize_redis KE KM i j h = (\<lambda>(B, r). load_from_redis KE KM i j (B\<lparr>bf_redis := Some h\<rparr>, r))"

section \<open>The automatic flush\<close>

definition get_buffer_size :: "('e, 'm, 'r) event_buffer \<Rightarrow> nat" where
  "get_buffer_size B = length (ln_items (bf_events B)) + length (ln_items (bf_metrics B))"

text \<open>
  The decision of \<open>_flush_if_needed\<close>: there is something to flush, the time or the watermark says
  so, the callback is there, and a permit of the semaphore is free. A last flush time of 0 counts
  as none, as in the code.
\<close>

definition flush_needed :: "time \<Rightarrow> ('e, 'm, 'r) event_buffer \<Rightarrow> bool" where
  "flush_needed now B =
     (let c = bf_config B;
          since = (case bf_last_flush_time B of
                     None \<Rightarrow> real_of_int (cf_flush_interval c) + 1
                   | Some t \<Rightarrow> if t = 0 then real_of_int (cf_flush_interval c) + 1 else now - t);
          at_watermark = (real (get_buffer_size B) \<ge> real_of_int (cf_buffer_size c) * cf_high_watermark_ratio c);
          time_elapsed = (since \<ge> real_of_int (cf_flush_interval c))
      in \<not> (\<not> (at_watermark \<or> time_elapsed) \<or> get_buffer_size B = 0))"

text \<open>\<open>Some\<close> of the buffer with a permit taken when the callback is to run, else \<open>None\<close>.\<close>

definition flush_if_needed_enter ::
  "bool \<Rightarrow> time \<Rightarrow> ('e, 'm, 'r) event_buffer \<Rightarrow> ('e, 'm, 'r) event_buffer option" where
  "flush_if_needed_enter has_callback now B =
     (if \<not> flush_needed now B then None
      else case (has_callback, bf_semaphore B) of
        (True, Some (Suc permits)) \<Rightarrow> Some (B\<lparr>bf_semaphore := Some permits\<rparr>)
      | _ \<Rightarrow> None)"

definition flush_if_needed_leave :: "('e, 'm, 'r) event_buffer \<Rightarrow> ('e, 'm, 'r) event_buffer" where
  "flush_if_needed_leave B = B\<lparr>bf_semaphore := map_option Suc (bf_semaphore B)\<rparr>"

definition start_auto_flush :: "('e, 'm, 'r) event_buffer \<Rightarrow> ('e, 'm, 'r) event_buffer" where
  "start_auto_flush B =
     (if bf_flush_task B = Some False then B
      else B\<lparr>bf_semaphore := Some (nat (cf_max_concurrent_flushes (bf_config B))),
             bf_running := True, bf_flush_task := Some False\<rparr>)"

text \<open>The state after \<open>stop_auto_flush\<close> has awaited the loop and the early-flush tasks.\<close>

definition stop_auto_flush :: "('e, 'm, 'r) event_buffer \<Rightarrow> ('e, 'm, 'r) event_buffer" where
  "stop_auto_flush B =
     B\<lparr>bf_running := False, bf_flush_task := map_option (\<lambda>_. True) (bf_flush_task B),
       bf_inflight := 0, bf_semaphore := None\<rparr>"

section \<open>Statistics\<close>

record buffer_stats =
  bs_events_buffered :: int
  bs_metrics_buffered :: int
  bs_events_flushed :: int
  bs_metrics_flushed :: int
  bs_events_dropped :: int
  bs_metrics_dropped :: int
  bs_current_event_buffer_size :: nat
  bs_current_metric_buffer_size :: nat
  bs_redis_persist_failures :: int
  bs_durability_degraded :: bool
  bs_last_flush_time :: "time option"
  bs_auto_flush_running :: bool

definition get_buffer_stats :: "('e, 'm, 'r) event_buffer \<Rightarrow> buffer_stats" where
  "get_buffer_stats B = \<lparr>
     bs_events_buffered = ln_buffered (bf_events B),
     bs_metrics_buffered = ln_buffered (bf_metrics B),
     bs_events_flushed = ln_flushed (bf_events B),
     bs_metrics_flushed = ln_flushed (bf_metrics B),
     bs_events_dropped = ln_dropped (bf_events B),
     bs_metrics_dropped = ln_dropped (bf_metrics B),
     bs_current_event_buffer_size = length (ln_items (bf_events B)),
     bs_current_metric_buffer_size = length (ln_items (bf_metrics B)),
     bs_redis_persist_failures = bf_persist_failures B,
     bs_durability_degraded = (bf_redis B \<noteq> None \<and> bf_persist_failures B > 0),
     bs_last_flush_time = bf_last_flush_time B,
     bs_auto_flush_running = bf_running B\<rparr>"

end
