(* ===== verification/AddLoop.thy ===== *)
theory AddLoop
  imports Buffer
begin

text \<open>
  The waiting loop of \<open>add_event\<close> and \<open>add_metric\<close>: which rounds wait, when a blocked writer gets
  through, and that the other two policies never wait.
\<close>

section \<open>The loop\<close>

text \<open>The state a writer finds at its \<open>i\<close>-th attempt after \<open>i\<close> waits that leave the state to others.\<close>

fun wait_state :: "(nat \<Rightarrow> 's \<Rightarrow> 's option) \<Rightarrow> nat \<Rightarrow> nat \<Rightarrow> 's \<Rightarrow> 's option" where
  "wait_state env k 0 s = Some s"
| "wait_state env k (Suc i) s = (case env k s of None \<Rightarrow> None | Some s' \<Rightarrow> wait_state env (Suc k) i s')"

lemma wait_loop_once: "attempt s = (res, s') \<Longrightarrow> res \<noteq> Inr False \<Longrightarrow>
    wait_loop (Suc fuel) env k attempt s = Some (map_sum id (\<lambda>_. ()) res, s')"
  by (auto split: sum.split bool.split)

text \<open>As long as the attempts fail without a trace, the loop runs from wait to wait.\<close>

lemma wait_loop_waits:
  assumes "\<And>i. i < j \<Longrightarrow> \<exists>t. wait_state env k i s = Some t \<and> attempt t = (Inr False, t)"
    and "wait_state env k j s = Some t"
  shows "wait_loop (j + fuel) env k attempt s = wait_loop fuel env (k + j) attempt t"
  using assms
proof (induction j arbitrary: k s)
  case 0
  then show ?case by simp
next
  case (Suc j)
  from Suc.prems(1) [of 0] have "attempt s = (Inr False, s)" by simp
  moreover from Suc.prems(2) obtain s' where s': "env k s = Some s'" "wait_state env (Suc k) j s' = Some t"
    by (auto split: option.splits)
  moreover have "wait_loop (j + fuel) env (Suc k) attempt s' = wait_loop fuel env (Suc k + j) attempt t"
  proof (rule Suc.IH [OF _ s'(2)])
    fix i assume "i < j"
    with Suc.prems(1) [of "Suc i"] s'(1)
    show "\<exists>t. wait_state env (Suc k) i s' = Some t \<and> attempt t = (Inr False, t)" by simp
  qed
  ultimately show ?case by simp
qed

lemma wait_state_Suc:
  "wait_state env k i s = Some t \<Longrightarrow> wait_state env k (Suc i) s = env (k + i) t"
proof (induction i arbitrary: k s)
  case 0
  then show ?case by (simp split: option.splits)
next
  case (Suc i)
  from Suc.prems obtain s' where s': "env k s = Some s'" "wait_state env (Suc k) i s' = Some t"
    by (auto split: option.splits)
  have "wait_state env k (Suc (Suc i)) s = wait_state env (Suc k) (Suc i) s'"
    unfolding wait_state.simps(2) [of env k "Suc i"] by (simp add: s'(1))
  with Suc.IH [OF s'(2)] show ?case by simp
qed

lemma wait_state_prefix: "wait_state env k (Suc i) s = Some t \<Longrightarrow> \<exists>u. wait_state env k i s = Some u"
proof (induction i arbitrary: k s)
  case 0
  then show ?case by simp
next
  case (Suc i)
  from Suc.prems obtain s' where "env k s = Some s'" "wait_state env (Suc k) (Suc i) s' = Some t"
    unfolding wait_state.simps(2) [of env k "Suc i"] by (auto split: option.splits)
  with Suc.IH show ?case by simp
qed

lemma wait_loop_cancelled:
  assumes "\<And>i. i < j \<Longrightarrow> \<exists>t. wait_state env k i s = Some t \<and> attempt t = (Inr False, t)"
    and "wait_state env k j s = None" and "0 < j"
  shows "\<exists>t. wait_loop (j + fuel) env k attempt s = Some (Inl CancelledError, t)"
proof -
  from \<open>0 < j\<close> obtain i where j: "j = Suc i" by (cases j) auto
  from assms(1) [of i] j obtain t where t: "wait_state env k i s = Some t" "attempt t = (Inr False, t)" by auto
  have next_state: "wait_state env k (Suc i) s = env (k + i) t"
    by (rule wait_state_Suc [OF t(1)])
  have "wait_loop (i + Suc fuel) env k attempt s = wait_loop (Suc fuel) env (k + i) attempt t"
    by (rule wait_loop_waits [OF _ t(1)]) (use assms(1) j in auto)
  then show ?thesis using t(2) next_state assms(2) j by simp
qed

lemma wait_loop_starves:
  assumes "\<And>i. \<exists>t. wait_state env k i s = Some t \<and> attempt t = (Inr False, t)"
  shows "wait_loop fuel env k attempt s = None"
proof -
  from assms [of fuel] obtain t where "wait_state env k fuel s = Some t" by auto
  with wait_loop_waits [of fuel env k s attempt t 0] assms show ?thesis by simp
qed

section \<open>Attempts on the buffer\<close>

lemma add_event_round_room:
  assumes "\<not> is_event_buffer_full B" and "add_event_round K key x (B, r) = (res, B', r')"
  shows "res = Inr True \<or> res = Inl CancelledError"
    and "ln_items (bf_events B') = ln_items (bf_events B) @ [x]"
    and "bf_config B' = bf_config B" and "bf_metrics B' = bf_metrics B"
proof -
  from assms(1) have "\<not> lane_full (buffer_maxlen B) (bf_events B)" by (simp add: is_event_buffer_full_def)
  then have o: "resolve_overflow K (bf_redis B) (cf_overflow_policy (bf_config B)) (buffer_maxlen B)
      (bf_events B, r) = (Inr False, bf_events B, r)"
    and q: "deque_append (buffer_maxlen B) x (ln_items (bf_events B)) = ln_items (bf_events B) @ [x]"
    by (simp_all add: resolve_overflow_def lane_full_def deque_append_room)
  obtain res2 L' f' r2 where a: "append_item K (bf_redis B) (buffer_maxlen B) key x
      (bf_events B, bf_persist_failures B, r) = (res2, L', f', r2)"
    by (metis prod_cases4)
  have e: "res2 = Inl e \<Longrightarrow> e = CancelledError" for e
    using append_item_error [of K "bf_redis B" "buffer_maxlen B" key x "bf_events B" "bf_persist_failures B" r e] a
    by simp
  have step: "res = map_sum id (\<lambda>_. True) res2 \<and> B' = B\<lparr>bf_events := L', bf_persist_failures := f'\<rparr>"
    using assms(2) a o by (cases res2) (auto simp: add_event_round_def add_round_def)
  then show "res = Inr True \<or> res = Inl CancelledError" using e by (cases res2) auto
  show "ln_items (bf_events B') = ln_items (bf_events B) @ [x]"
    using step append_item_lane [OF a] q by simp
  show "bf_config B' = bf_config B" "bf_metrics B' = bf_metrics B" using step by simp_all
qed

lemma add_event_round_block:
  assumes "is_event_buffer_full B" and "cf_overflow_policy (bf_config B) = Block"
  shows "add_event_round K key x (B, r) = (Inr False, B, r)"
  using assms by (simp add: add_event_round_def add_round_def resolve_overflow_def is_event_buffer_full_def)

lemma add_event_round_no_wait:
  assumes "cf_overflow_policy (bf_config B) \<noteq> Block"
  shows "fst (add_event_round K key x (B, r)) \<noteq> Inr False"
  using assms
  by (auto simp: add_event_round_def add_round_def resolve_overflow_def
      split: prod.splits sum.splits bool.splits overflow_policy.splits if_splits option.splits)

text \<open>Other tasks do not change the configuration.\<close>

definition env_keeps_config :: "(nat \<Rightarrow> ('e, 'm, 'r) buffer_state \<Rightarrow> ('e, 'm, 'r) buffer_state option) \<Rightarrow> bool" where
  "env_keeps_config env \<longleftrightarrow> (\<forall>k s s'. env k s = Some s' \<longrightarrow> bf_config (fst s') = bf_config (fst s))"

lemma wait_state_config:
  "env_keeps_config env \<Longrightarrow> wait_state env k i s = Some t \<Longrightarrow> bf_config (fst t) = bf_config (fst s)"
proof (induction i arbitrary: t)
  case 0
  then show ?case by simp
next
  case (Suc i)
  then obtain u where u: "wait_state env k i s = Some u"
    using wait_state_prefix [of env k i s t] by auto
  have "env (k + i) u = Some t" using wait_state_Suc [OF u] Suc.prems by simp
  with Suc.prems(1) have "bf_config (fst t) = bf_config (fst u)" unfolding env_keeps_config_def by blast
  with Suc.IH [OF Suc.prems(1) u] show ?case by simp
qed

text \<open>
  C24: a writer blocked on a full buffer gets through at the first wake-up that finds room, however
  many it takes: if the buffer is full at its first \<open>j\<close> attempts and has room at the next one,
  \<open>add_event\<close> returns, and appends its event at the end of the queue as the others left it. (Only a
  cancellation during the Redis write of that attempt can still make it raise, with the event
  queued.)
\<close>

theorem blocked_writer_proceeds:
  assumes block: "cf_overflow_policy (bf_config B0) = Block" and env: "env_keeps_config env"
    and full: "\<forall>i < j. \<exists>B r. wait_state env 0 i (B0, r0) = Some (B, r) \<and> is_event_buffer_full B"
    and room: "wait_state env 0 j (B0, r0) = Some (B, r)" "\<not> is_event_buffer_full B"
    and fuel: "j < fuel"
  shows "\<exists>res B' r'. add_event fuel env K key x (B0, r0) = Some (res, B', r')
    \<and> (res = Inr () \<or> res = Inl CancelledError)
    \<and> ln_items (bf_events B') = ln_items (bf_events B) @ [x]"
proof -
  have waits: "\<exists>t. wait_state env 0 i (B0, r0) = Some t \<and> add_event_round K key x t = (Inr False, t)"
    if i: "i < j" for i
  proof -
    from full i obtain Bi ri where s: "wait_state env 0 i (B0, r0) = Some (Bi, ri)" "is_event_buffer_full Bi"
      by blast
    from wait_state_config [OF env s(1)] block have "cf_overflow_policy (bf_config Bi) = Block" by simp
    from s(1) add_event_round_block [OF s(2) this] show ?thesis by blast
  qed
  obtain res B' r' where a: "add_event_round K key x (B, r) = (res, B', r')" by (metis prod_cases3)
  note step = add_event_round_room [OF room(2) a]
  obtain f where f: "fuel = j + Suc f" using fuel less_imp_Suc_add by fastforce
  have "wait_loop fuel env 0 (add_event_round K key x) (B0, r0)
      = Some (map_sum id (\<lambda>_. ()) res, B', r')"
    unfolding f
    by (subst wait_loop_waits [OF waits room(1)], assumption,
        rule wait_loop_once [where attempt = "add_event_round K key x", OF a]) (use step(1) in auto)
  then show ?thesis using step by (auto simp: add_event_def)
qed

text \<open>
  When the policy is to drop or to raise, an add never waits: one round decides it, whatever
  other tasks would do.
\<close>

theorem drop_and_raise_never_wait:
  assumes "cf_overflow_policy (bf_config B) \<noteq> Block"
  shows "\<exists>y. \<forall>fuel env. add_event (Suc fuel) env K key x (B, r) = Some y"
proof -
  obtain res s' where a: "add_event_round K key x (B, r) = (res, s')" by (meson prod.exhaust)
  with add_event_round_no_wait [OF assms, of K key x r]
  have "wait_loop (Suc fuel) env 0 (add_event_round K key x) (B, r) = Some (map_sum id (\<lambda>_. ()) res, s')"
    for fuel env using wait_loop_once [where attempt = "add_event_round K key x", OF a] by simp
  then show ?thesis unfolding add_event_def by (simp del: wait_loop.simps split_paired_Ex)
qed

text \<open>
  A writer blocked on a buffer that nobody ever drains waits forever; no number of half-second
  polls lets it through or makes it raise.
\<close>

theorem blocked_writer_starves:
  assumes block: "cf_overflow_policy (bf_config B0) = Block" and env: "env_keeps_config env"
    and full: "\<forall>i. \<exists>B r. wait_state env 0 i (B0, r0) = Some (B, r) \<and> is_event_buffer_full B"
  shows "add_event fuel env K key x (B0, r0) = None"
proof -
  have "\<exists>t. wait_state env 0 i (B0, r0) = Some t \<and> add_event_round K key x t = (Inr False, t)" for i
  proof -
    from full obtain Bi ri where s: "wait_state env 0 i (B0, r0) = Some (Bi, ri)" "is_event_buffer_full Bi"
      by blast
    from wait_state_config [OF env s(1)] block have "cf_overflow_policy (bf_config Bi) = Block" by simp
    from s(1) add_event_round_block [OF s(2) this] show ?thesis by blast
  qed
  then show ?thesis unfolding add_event_def by (simp add: wait_loop_starves)
qed

section \<open>Concrete runs\<close>

definition blocked_buffer :: "(nat, nat, unit) event_buffer" where
  "blocked_buffer = (event_buffer_init (default_config ''0123456789''))
     \<lparr>bf_config := (default_config ''0123456789'')\<lparr>cf_buffer_size := 2, cf_overflow_policy := Block\<rparr>,
      bf_events := full_lane\<rparr>"

text \<open>Another task drains the events during the second wait.\<close>

definition draining_env :: "nat \<Rightarrow> (nat, nat, unit) buffer_state \<Rightarrow> (nat, nat, unit) buffer_state option" where
  "draining_env k = (\<lambda>(B, r). Some (if k = 1 then B\<lparr>bf_events := empty_lane\<rparr> else B, r))"

lemma draining_env_config: "env_keeps_config draining_env"
  by (auto simp: env_keeps_config_def draining_env_def)

lemmas blocked_simps = blocked_buffer_def draining_env_def is_event_buffer_full_def buffer_maxlen_def
  lane_full_def full_lane_def empty_lane_def

theorem blocked_writer_proceeds_witness:
  "\<exists>res B' r'. add_event 3 draining_env sample_kind ''k'' (3, 30) (blocked_buffer, ()) = Some (res, B', r')
     \<and> (res = Inr () \<or> res = Inl CancelledError) \<and> ln_items (bf_events B') = [(3, 30)]"
proof -
  have states: "wait_state draining_env 0 0 (blocked_buffer, ()) = Some (blocked_buffer, ())"
    "wait_state draining_env 0 1 (blocked_buffer, ()) = Some (blocked_buffer, ())"
    "wait_state draining_env 0 2 (blocked_buffer, ()) = Some (blocked_buffer\<lparr>bf_events := empty_lane\<rparr>, ())"
    by (simp_all add: draining_env_def numeral_2_eq_2)
  have "is_event_buffer_full blocked_buffer" by (simp add: blocked_simps)
  with states have full: "\<forall>i < 2. \<exists>B r. wait_state draining_env 0 i (blocked_buffer, ()) = Some (B, r)
      \<and> is_event_buffer_full B"
    by (metis One_nat_def less_2_cases)
  have "\<not> is_event_buffer_full (blocked_buffer\<lparr>bf_events := empty_lane\<rparr>)" by (simp add: blocked_simps)
  with blocked_writer_proceeds [OF _ draining_env_config full states(3), of 3 sample_kind "''k''" "(3, 30)"]
  show ?thesis by (simp add: blocked_buffer_def empty_lane_def)
qed

theorem drop_and_raise_never_wait_witness:
  "\<exists>y. \<forall>fuel env. add_event (Suc fuel) env sample_kind ''k'' (3, 30)
     (blocked_buffer\<lparr>bf_config := (default_config ''0123456789'')\<lparr>cf_overflow_policy := Raise\<rparr>\<rparr>, ()) = Some y"
  by (rule drop_and_raise_never_wait) simp

theorem blocked_writer_starves_witness:
  "add_event 1000 (\<lambda>k. Some) sample_kind ''k'' (3, 30) (blocked_buffer, ()) = None"
proof (rule blocked_writer_starves)
  have "wait_state (\<lambda>k. Some) k i s = Some s" for k i and s :: "(nat, nat, unit) buffer_state"
    by (induction i arbitrary: k) simp_all
  then show "\<forall>i. \<exists>B r. wait_state (\<lambda>k. Some) 0 i (blocked_buffer, ()) = Some (B, r) \<and> is_event_buffer_full B"
    by (simp add: blocked_simps)
qed (simp_all add: blocked_buffer_def env_keeps_config_def)

end
