(* ===== verification/BufferInvariant.thy ===== *)
theory BufferInvariant
  imports Buffer
begin

text \<open>
  The invariant of the whole buffer, which every public operation of \<open>EventBuffer\<close> keeps: both queues
  within their bound, no object queued twice, Redis keys tracked for queued objects only.
\<close>

section \<open>Loading keeps a lane well formed\<close>

lemma forget_oldest_ready:
  assumes "lane_wf n L" and "lane_full n L"
  shows "lane_ready n (snd (forget_oldest_key L))" "ln_items (snd (forget_oldest_key L)) = ln_items L"
proof -
  obtain k L' where f: "forget_oldest_key L = (k, L')" by fastforce
  note facts = forget_oldest_key_facts [OF f]
  show items: "ln_items (snd (forget_oldest_key L)) = ln_items L"
    using f by (auto simp: forget_oldest_key_def split: list.splits)
  show "lane_ready n (snd (forget_oldest_key L))"
    using f facts(3) facts(4) [OF assms(1)] items by (auto simp: lane_ready_def)
qed

text \<open>Appending with a key, as an add or a load does it.\<close>

lemma lane_wf_append:
  assumes ready: "lane_ready n L" and n: "0 < n" and fresh: "i \<notin> ids (ln_items L)" and key: "key \<noteq> []"
  shows "lane_wf n (L\<lparr>ln_items := deque_append n (i, v) (ln_items L), ln_buffered := b, ln_keys := (ln_keys L)(i \<mapsto> key)\<rparr>)"
proof -
  let ?K = "\<lparr>lk_namespace = [], lk_prefix = [], lk_full_message = [], lk_dump = (\<lambda>_. Inr []), lk_load = (\<lambda>_. Inr None)\<rparr>"
  let ?h = "\<lparr>rh_get_key = (\<lambda>_ _ r. (Inr None, r)), rh_set_key = (\<lambda>_ _ _ _ r. (Inr (), r)),
     rh_delete = (\<lambda>_ _ r. (Inr (), r)), rh_keys = (\<lambda>_ r. (Inr None, r))\<rparr> :: unit redis_handler"
  have "append_item ?K (Some ?h) n key (i, v) (L, 0, ()) = (Inr (),
      L\<lparr>ln_items := deque_append n (i, v) (ln_items L), ln_buffered := ln_buffered L + 1, ln_keys := (ln_keys L)(i \<mapsto> key)\<rparr>, 0, ())"
    by (simp add: append_item_def persist_item_def Let_def)
  from append_item_wf [OF ready n _ key this] fresh
  have "lane_wf n (L\<lparr>ln_items := deque_append n (i, v) (ln_items L), ln_buffered := ln_buffered L + 1, ln_keys := (ln_keys L)(i \<mapsto> key)\<rparr>)"
    by simp
  then show ?thesis by (simp add: lane_wf_def)
qed

text \<open>Keys as a Redis handler lists them: none ends with the separator.\<close>

definition proper_key :: "string \<Rightarrow> bool" where
  "proper_key key \<longleftrightarrow> after_last (CHR '':'') key \<noteq> []"

lemma load_one_wf:
  assumes wf: "lane_wf n L" and n: "0 < n" and ids: "\<forall>j \<in> ids (ln_items L). j < i" and key: "proper_key key"
    and l: "load_one K h n i key (L, r) = (res, L', r')"
  shows "lane_wf n L' \<and> (\<forall>j \<in> ids (ln_items L'). j < Suc i)"
proof (cases "L' = L")
  case True
  with wf ids show ?thesis by auto
next
  case False
  define L1 where "L1 = (if lane_full n L then snd (forget_oldest_key L) else L)"
  from l False obtain v where L': "L' = L1\<lparr>ln_items := deque_append n (i, v) (ln_items L1), ln_buffered := ln_buffered L1 + 1,
       ln_keys := (ln_keys L1)(i \<mapsto> after_last (CHR '':'') key)\<rparr>"
    by (auto simp: load_one_def Let_def L1_def split: prod.splits sum.splits option.splits if_splits)
  have ready: "lane_ready n L1" and items: "ln_items L1 = ln_items L"
    using wf forget_oldest_ready [OF wf] by (auto simp: L1_def lane_ready_def)
  have "i \<notin> ids (ln_items L1)" using ids items by (metis less_irrefl)
  with lane_wf_append [OF ready n] key have "lane_wf n L'" by (simp add: L' proper_key_def)
  moreover have "set (deque_append n (i, v) (ln_items L1)) \<subseteq> insert (i, v) (set (ln_items L))"
    using set_drop_subset [of "Suc (length (ln_items L1)) - n" "ln_items L1 @ [(i, v)]"] items
    by (auto simp: deque_append_def)
  then have "\<forall>j \<in> ids (ln_items L'). j < Suc i" using ids by (fastforce simp: L' less_Suc_eq)
  ultimately show ?thesis by blast
qed

lemma load_all_wf:
  assumes "0 < n"
  shows "lane_wf n L \<Longrightarrow> \<forall>j \<in> ids (ln_items L). j < i \<Longrightarrow> list_all proper_key ks \<Longrightarrow>
     load_all K h n i ks (L, r) = (res, L', r') \<Longrightarrow> lane_wf n L'"
proof (induction ks arbitrary: i L r)
  case (Cons key ks)
  obtain res1 L1 r1 where one: "load_one K h n i key (L, r) = (res1, L1, r1)" by (metis prod_cases3)
  with load_one_wf [OF Cons.prems(1) assms Cons.prems(2) _ one] Cons.prems(3)
  have "lane_wf n L1" "\<forall>j \<in> ids (ln_items L1). j < Suc i" by simp_all
  note ih = Cons.IH [OF this]
  show ?case
  proof (cases res1)
    case (Inl e)
    with Cons.prems(4) one have "L' = L1" by simp
    with \<open>lane_wf n L1\<close> show ?thesis by simp
  next
    case (Inr u)
    with Cons.prems(4) one have "load_all K h n (Suc i) ks (L1, r1) = (res, L', r')" by simp
    with ih [of r1] Cons.prems(3) show ?thesis by simp
  qed
qed simp

lemma load_lane_wf [inv_intros]:
  assumes "lane_wf n L" "0 < n" "\<forall>j \<in> ids (ln_items L). j < i"
    and keys: "\<And>p r ks r'. rh_keys h p r = (Inr (Some ks), r') \<Longrightarrow> list_all proper_key ks"
    and l: "load_lane K h n i (L, r) = (res, L', r')"
  shows "lane_wf n L'"
proof -
  obtain listed r1 where k: "rh_keys h (lk_namespace K @ '':*'') r = (listed, r1)" by fastforce
  show ?thesis
  proof (cases listed)
    case (Inl e)
    with l k assms(1) show ?thesis by (simp add: load_lane_def)
  next
    case (Inr ks)
    with l k have "load_all K h n i (case ks of None \<Rightarrow> [] | Some ks \<Rightarrow> ks) (L, r1) = (res, L', r')"
      by (simp add: load_lane_def)
    moreover have "list_all proper_key (case ks of None \<Rightarrow> [] | Some ks \<Rightarrow> ks)"
      using keys k Inr by (auto split: option.splits)
    ultimately show ?thesis by (intro load_all_wf [OF assms(2,1,3)])
  qed
qed

section \<open>The operations of the buffer\<close>

definition buffer_wf :: "('e, 'm, 'r) event_buffer \<Rightarrow> bool" where
  "buffer_wf B \<longleftrightarrow> 0 < buffer_maxlen B \<and> lane_wf (buffer_maxlen B) (bf_events B) \<and> lane_wf (buffer_maxlen B) (bf_metrics B)"

text \<open>
  Every public operation, with what its caller provides: a new object is not queued, a batch that is put
  back was drained with its keys, and loaded objects are new.
\<close>

inductive buffer_op :: "('e, 'm, 'r) buffer_state \<Rightarrow> ('e, 'm, 'r) buffer_state \<Rightarrow> bool" where
  add_event: "add_event_round KE key x (B, r) = (res, s) \<Longrightarrow> key \<noteq> [] \<Longrightarrow> fst x \<notin> ids (ln_items (bf_events B)) \<Longrightarrow>
    buffer_op (B, r) s"
| add_metric: "add_metric_round KM key y (B, r) = (res, s) \<Longrightarrow> key \<noteq> [] \<Longrightarrow> fst y \<notin> ids (ln_items (bf_metrics B)) \<Longrightarrow>
    buffer_op (B, r) s"
| drain_events: "flush_events_with_keys now B = (xs, ks, B') \<Longrightarrow> buffer_op (B, r) (B', r)"
| drain_metrics: "flush_metrics_with_keys now B = (ys, ks, B') \<Longrightarrow> buffer_op (B, r) (B', r)"
| flush_events: "flush_events now (B, r) = (xres, s) \<Longrightarrow> buffer_op (B, r) s"
| flush_metrics: "flush_metrics now (B, r) = (yres, s) \<Longrightarrow> buffer_op (B, r) s"
| requeue_events: "requeue_events_in_memory xs ks B = (kres, B') \<Longrightarrow> length xs = length ks \<Longrightarrow>
    distinct (map fst (xs @ ln_items (bf_events B))) \<Longrightarrow> buffer_op (B, r) (B', r)"
| requeue_metrics: "requeue_metrics_in_memory ys ks B = (kres, B') \<Longrightarrow> length ys = length ks \<Longrightarrow>
    distinct (map fst (ys @ ln_items (bf_metrics B))) \<Longrightarrow> buffer_op (B, r) (B', r)"
| confirm_events: "confirm_event_redis_keys ks (B, r) = (ures, s) \<Longrightarrow> buffer_op (B, r) s"
| confirm_metrics: "confirm_metric_redis_keys ks (B, r) = (ures, s) \<Longrightarrow> buffer_op (B, r) s"
| clear: "clear_buffer (B, r) = (ures, s) \<Longrightarrow> buffer_op (B, r) s"
| load: "initialize_redis KE KM i j h (B, r) = (ures, s) \<Longrightarrow> \<forall>k \<in> ids (ln_items (bf_events B)). k < i \<Longrightarrow>
    \<forall>k \<in> ids (ln_items (bf_metrics B)). k < j \<Longrightarrow>
    \<forall>p r ks r'. rh_keys h p r = (Inr (Some ks), r') \<longrightarrow> list_all proper_key ks \<Longrightarrow> buffer_op (B, r) s"
| start: "buffer_op (B, r) (start_auto_flush B, r)"
| stop: "buffer_op (B, r) (stop_auto_flush B, r)"
| enter: "flush_if_needed_enter cb now B = Some B' \<Longrightarrow> buffer_op (B, r) (B', r)"
| leave: "buffer_op (B, r) (flush_if_needed_leave B, r)"
| early_flush: "buffer_op (B, r) (B\<lparr>bf_inflight := k\<rparr>, r)"

lemma buffer_wf_events: "buffer_wf B \<Longrightarrow> lane_wf (buffer_maxlen B) L \<Longrightarrow> buffer_wf (B\<lparr>bf_events := L\<rparr>)"
  by (simp add: buffer_wf_def buffer_maxlen_def)

lemma buffer_wf_metrics: "buffer_wf B \<Longrightarrow> lane_wf (buffer_maxlen B) L \<Longrightarrow> buffer_wf (B\<lparr>bf_metrics := L\<rparr>)"
  by (simp add: buffer_wf_def buffer_maxlen_def)

lemma buffer_wf_other [simp]:
  "buffer_wf (B\<lparr>bf_persist_failures := a\<rparr>) = buffer_wf B" "buffer_wf (B\<lparr>bf_last_flush_time := t\<rparr>) = buffer_wf B"
  "buffer_wf (B\<lparr>bf_redis := R\<rparr>) = buffer_wf B" "buffer_wf (B\<lparr>bf_running := b\<rparr>) = buffer_wf B"
  "buffer_wf (B\<lparr>bf_flush_task := ft\<rparr>) = buffer_wf B" "buffer_wf (B\<lparr>bf_semaphore := sem\<rparr>) = buffer_wf B"
  "buffer_wf (B\<lparr>bf_inflight := k\<rparr>) = buffer_wf B"
  by (simp_all add: buffer_wf_def buffer_maxlen_def)

lemma buffer_wfD:
  assumes "buffer_wf B"
  shows "0 < buffer_maxlen B" "lane_wf (buffer_maxlen B) (bf_events B)" "lane_wf (buffer_maxlen B) (bf_metrics B)"
  using assms by (simp_all add: buffer_wf_def)

lemma requeue_in_memory_wf:
  assumes "requeue_in_memory n xs ks L = (res, L')" "lane_wf n L" "0 < n" "length xs = length ks" "distinct (map fst (xs @ ln_items L))"
  shows "lane_wf n L'"
proof -
  have "distinct (map fst xs)" "ids xs \<inter> ids (ln_items L) = {}" using assms(5) by auto
  from requeue_in_memory_spec [OF assms(4,2,3) this] assms(1) show ?thesis by auto
qed

lemma flush_with_keys_wf_events:
  assumes "flush_events_with_keys now B = (xs, ks, B')" "buffer_wf B"
  shows "buffer_wf B'"
proof -
  obtain L where f: "flush_with_keys (bf_events B) = (xs, ks, L)" "B' = B\<lparr>bf_events := L, bf_last_flush_time := Some now\<rparr>"
    using assms(1) by (auto simp: flush_events_with_keys_def split: prod.splits)
  with lane_wf_drained [OF buffer_wfD(2) [OF assms(2)] f(1)] buffer_wf_events [OF assms(2)] show ?thesis by simp
qed

lemma flush_with_keys_wf_metrics:
  assumes "flush_metrics_with_keys now B = (ys, ks, B')" "buffer_wf B"
  shows "buffer_wf B'"
proof -
  obtain L where f: "flush_with_keys (bf_metrics B) = (ys, ks, L)" "B' = B\<lparr>bf_metrics := L, bf_last_flush_time := Some now\<rparr>"
    using assms(1) by (auto simp: flush_metrics_with_keys_def split: prod.splits)
  with lane_wf_drained [OF buffer_wfD(3) [OF assms(2)] f(1)] buffer_wf_metrics [OF assms(2)] show ?thesis by simp
qed

lemma confirm_keeps_buffer:
  "fst (snd (confirm_event_redis_keys ks (B, r))) = B" "fst (snd (confirm_metric_redis_keys ks (B, r))) = B"
  by (simp_all add: confirm_event_redis_keys_def confirm_metric_redis_keys_def split: prod.splits)

lemma flush_events_state:
  assumes "flush_events now (B, r) = (res, s)"
  obtains xs ks where "flush_events_with_keys now B = (xs, ks, fst s)"
proof -
  obtain xs ks B1 where f: "flush_events_with_keys now B = (xs, ks, B1)" by (metis prod_cases3)
  obtain cres s1 where c: "confirm_event_redis_keys ks (B1, r) = (cres, s1)" by (meson surj_pair)
  have "fst s1 = B1" using confirm_keeps_buffer(1) [of ks B1 r] c by simp
  moreover have "s = s1" using assms f c by (auto simp: flush_events_def split: sum.splits)
  ultimately show thesis using that f by simp
qed

lemma flush_metrics_state:
  assumes "flush_metrics now (B, r) = (res, s)"
  obtains ys ks where "flush_metrics_with_keys now B = (ys, ks, fst s)"
proof -
  obtain ys ks B1 where f: "flush_metrics_with_keys now B = (ys, ks, B1)" by (metis prod_cases3)
  obtain cres s1 where c: "confirm_metric_redis_keys ks (B1, r) = (cres, s1)" by (meson surj_pair)
  have "fst s1 = B1" using confirm_keeps_buffer(2) [of ks B1 r] c by simp
  moreover have "s = s1" using assms f c by (auto simp: flush_metrics_def split: sum.splits)
  ultimately show thesis using that f by simp
qed

lemma clear_redis_keeps_buffer [simp]: "fst (snd (clear_redis_buffers (B, r))) = B"
  by (simp add: clear_redis_buffers_def split: option.splits prod.splits)

lemma load_events_wf:
  assumes "buffer_wf B" "\<forall>k \<in> ids (ln_items (bf_events B)). k < i"
    and "\<forall>p r ks r'. rh_keys h p r = (Inr (Some ks), r') \<longrightarrow> list_all proper_key ks"
  shows "buffer_wf (fst (snd (load_events_from_redis K h i (B, r))))"
proof -
  obtain res L r' where l: "load_lane K h (buffer_maxlen B) i (bf_events B, r) = (res, L, r')" by (metis prod_cases3)
  have "lane_wf (buffer_maxlen B) L"
    by (rule load_lane_wf [OF buffer_wfD(2) [OF assms(1)] buffer_wfD(1) [OF assms(1)] assms(2) _ l]) (rule assms(3) [rule_format])
  with l assms(1) show ?thesis by (simp add: load_events_from_redis_def buffer_wf_events)
qed

lemma load_metrics_wf:
  assumes "buffer_wf B" "\<forall>k \<in> ids (ln_items (bf_metrics B)). k < j"
    and "\<forall>p r ks r'. rh_keys h p r = (Inr (Some ks), r') \<longrightarrow> list_all proper_key ks"
  shows "buffer_wf (fst (snd (load_metrics_from_redis K h j (B, r))))"
proof -
  obtain res L r' where l: "load_lane K h (buffer_maxlen B) j (bf_metrics B, r) = (res, L, r')" by (metis prod_cases3)
  have "lane_wf (buffer_maxlen B) L"
    by (rule load_lane_wf [OF buffer_wfD(3) [OF assms(1)] buffer_wfD(1) [OF assms(1)] assms(2) _ l]) (rule assms(3) [rule_format])
  with l assms(1) show ?thesis by (simp add: load_metrics_from_redis_def buffer_wf_metrics)
qed

lemma load_events_keeps_metrics:
  "bf_metrics (fst (snd (load_events_from_redis K h i (B, r)))) = bf_metrics B"
  by (simp add: load_events_from_redis_def split: prod.splits)

lemma swallow_keeps_state [simp]: "snd (swallow (res, s)) = s"
  by (simp add: swallow_def)

lemma initialize_redis_wf:
  assumes wf: "buffer_wf B" and i: "\<forall>k \<in> ids (ln_items (bf_events B)). k < i"
    and j: "\<forall>k \<in> ids (ln_items (bf_metrics B)). k < j"
    and keys: "\<forall>p r ks r'. rh_keys h p r = (Inr (Some ks), r') \<longrightarrow> list_all proper_key ks"
  shows "buffer_wf (fst (snd (initialize_redis KE KM i j h (B, r))))"
proof -
  let ?B = "B\<lparr>bf_redis := Some h\<rparr>"
  obtain res B1 r1 where l: "load_events_from_redis KE h i (?B, r) = (res, B1, r1)" by (metis prod_cases3)
  have wf1: "buffer_wf B1" using load_events_wf [of ?B i h KE r] wf i keys l by simp
  have "bf_metrics B1 = bf_metrics B" using load_events_keeps_metrics [of KE h i ?B r] l by simp
  with j wf1 keys have "buffer_wf (fst (snd (load_metrics_from_redis KM h j (B1, r1))))"
    by (intro load_metrics_wf) auto
  with wf1 l show ?thesis
    by (cases res; cases "load_metrics_from_redis KM h j (B1, r1)") (auto simp: initialize_redis_def load_from_redis_def)
qed

section \<open>Every operation keeps the invariant\<close>

lemma buffer_op_wf: "buffer_op s s' \<Longrightarrow> buffer_wf (fst s) \<Longrightarrow> buffer_wf (fst s')"
proof (induction rule: buffer_op.induct)
  case (add_event KE key x B r res s)
  then show ?case
    by (auto simp: add_event_round_def split: prod.splits intro!: buffer_wf_events
        elim!: add_round_wf [OF buffer_wfD(2) buffer_wfD(1), rotated 4])
next
  case (add_metric KM key y B r res s)
  then show ?case
    by (auto simp: add_metric_round_def split: prod.splits intro!: buffer_wf_metrics
        elim!: add_round_wf [OF buffer_wfD(3) buffer_wfD(1), rotated 4])
next
  case (flush_events now B r xres s)
  then show ?case by (auto elim!: flush_events_state dest: flush_with_keys_wf_events)
next
  case (flush_metrics now B r yres s)
  then show ?case by (auto elim!: flush_metrics_state dest: flush_with_keys_wf_metrics)
next
  case (requeue_events xs ks B kres B' r)
  then show ?case
    by (auto simp: requeue_events_in_memory_def split: prod.splits intro!: buffer_wf_events
        elim!: requeue_in_memory_wf [OF _ buffer_wfD(2) buffer_wfD(1)])
next
  case (requeue_metrics ys ks B kres B' r)
  then show ?case
    by (auto simp: requeue_metrics_in_memory_def split: prod.splits intro!: buffer_wf_metrics
        elim!: requeue_in_memory_wf [OF _ buffer_wfD(3) buffer_wfD(1)])
next
  case (confirm_events ks B r ures s)
  with confirm_keeps_buffer(1) [of ks B r] show ?case by simp
next
  case (confirm_metrics ks B r ures s)
  with confirm_keeps_buffer(2) [of ks B r] show ?case by simp
next
  case (clear B r ures s)
  then show ?case
    using clear_redis_keeps_buffer [of "B\<lparr>bf_events := clear_lane (bf_events B), bf_metrics := clear_lane (bf_metrics B)\<rparr>" r]
    by (simp add: clear_buffer_def buffer_wf_def buffer_maxlen_def lane_wf_clear)
next
  case (load KE KM i j h B r ures s)
  with initialize_redis_wf [of B i j h KE KM r] show ?case by simp
next
  case (enter cb now B B' r)
  then show ?case by (auto simp: flush_if_needed_enter_def split: if_splits bool.splits option.splits nat.splits)
qed (auto simp: start_auto_flush_def stop_auto_flush_def flush_if_needed_leave_def
  dest: flush_with_keys_wf_events flush_with_keys_wf_metrics)

lemma drain_config:
  "flush_events_with_keys now B = (xs, ks, B') \<Longrightarrow> bf_config B' = bf_config B"
  "flush_metrics_with_keys now B = (ys, ks, B') \<Longrightarrow> bf_config B' = bf_config B"
  by (auto simp: flush_events_with_keys_def flush_metrics_with_keys_def split: prod.splits)

lemma buffer_op_config: "buffer_op s s' \<Longrightarrow> bf_config (fst s') = bf_config (fst s)"
proof (induction rule: buffer_op.induct)
  case (flush_events now B r xres s)
  then show ?case by (auto elim!: flush_events_state dest: drain_config)
next
  case (flush_metrics now B r yres s)
  then show ?case by (auto elim!: flush_metrics_state dest: drain_config)
next
  case (confirm_events ks B r ures s)
  with confirm_keeps_buffer(1) [of ks B r] show ?case by simp
next
  case (confirm_metrics ks B r ures s)
  with confirm_keeps_buffer(2) [of ks B r] show ?case by simp
next
  case (clear B r ures s)
  then show ?case
    using clear_redis_keeps_buffer [of "B\<lparr>bf_events := clear_lane (bf_events B), bf_metrics := clear_lane (bf_metrics B)\<rparr>" r]
    by (simp add: clear_buffer_def)
next
  case (load KE KM i j h B r ures s)
  then show ?case
    by (auto simp: initialize_redis_def load_from_redis_def load_events_from_redis_def load_metrics_from_redis_def
        swallow_def split: prod.splits sum.splits)
next
  case (enter cb now B B' r)
  then show ?case by (auto simp: flush_if_needed_enter_def split: if_splits bool.splits option.splits nat.splits)
qed (auto simp: add_event_round_def add_metric_round_def flush_events_with_keys_def flush_metrics_with_keys_def
  requeue_events_in_memory_def requeue_metrics_in_memory_def start_auto_flush_def stop_auto_flush_def
  flush_if_needed_leave_def split: prod.splits)

lemma buffer_run_wf:
  "buffer_op\<^sup>*\<^sup>* s s' \<Longrightarrow> buffer_wf (fst s) \<Longrightarrow> buffer_wf (fst s') \<and> bf_config (fst s') = bf_config (fst s)"
  by (induction rule: rtranclp_induct) (simp_all add: buffer_op_wf buffer_op_config)

lemma buffer_wf_init: "0 < cf_buffer_size c \<Longrightarrow> buffer_wf (event_buffer_init c)"
  by (simp add: buffer_wf_def event_buffer_init_def buffer_maxlen_def lane_wf_empty)


text \<open>Two adds to a buffer of one place that drops its oldest object when it is full.\<close>

definition one_place :: agent_config where
  "one_place = (default_config ''0123456789'')\<lparr>cf_buffer_size := 1\<rparr>"

definition two_adds :: "(nat, nat, unit) buffer_state" where
  "two_adds = snd (add_event_round sample_kind ''k2'' (2, 20)
     (snd (add_event_round sample_kind ''k1'' (1, 10) (event_buffer_init one_place, ()))))"

lemmas two_adds_simps = two_adds_def one_place_def event_buffer_init_def default_config_def add_event_round_def
  add_round_def resolve_overflow_def forget_oldest_key_def empty_lane_def lane_full_def append_item_def
  persist_item_def buffer_maxlen_def deque_append_def Let_def

lemma two_adds_items: "ln_items (bf_events (fst two_adds)) = [(2, 20)]"
  by (simp add: two_adds_simps)

lemma add_event_step:
  assumes "key \<noteq> []" "fst x \<notin> ids (ln_items (bf_events (fst s)))"
  shows "buffer_op s (snd (add_event_round K key x s))"
proof (cases s)
  case (Pair B r)
  with assms show ?thesis by (auto intro!: buffer_op.add_event [OF prod.collapse [symmetric]])
qed

lemma two_adds_run: "buffer_op\<^sup>*\<^sup>* (event_buffer_init one_place, ()) two_adds"
proof -
  let ?s0 = "(event_buffer_init one_place :: (nat, nat, unit) event_buffer, ())"
  let ?s1 = "snd (add_event_round sample_kind ''k1'' (1, 10) ?s0)"
  have "buffer_op ?s0 ?s1" by (rule add_event_step) (simp_all add: event_buffer_init_def empty_lane_def)
  moreover have "buffer_op ?s1 two_adds"
    unfolding two_adds_def by (rule add_event_step) (simp_all add: two_adds_simps)
  ultimately show ?thesis by (simp add: converse_rtranclp_into_rtranclp)
qed


end
