(* ===== verification/AutoFlush.thy ===== *)
theory AutoFlush
  imports Buffer
begin

text \<open>
  The automatic flush of the buffer (\<open>_buffer_lifecycle.py\<close>): the loop task, the early-flush tasks
  that a full lane starts, and the semaphore that bounds the flushes running at once.
\<close>

section \<open>The loop task\<close>

text \<open>
  For every round: whether the task is cancelled while it sleeps, what others do to the buffer
  meanwhile, the clock, and the callback with what others do while it is awaited.
\<close>

record ('e, 'm, 'r) auto_env =
  ae_cancelled :: "nat \<Rightarrow> bool"
  ae_sleep :: "nat \<Rightarrow> ('e, 'm, 'r) event_buffer \<Rightarrow> ('e, 'm, 'r) event_buffer"
  ae_clock :: "nat \<Rightarrow> time"
  ae_callback :: "nat \<Rightarrow> ('e, 'm, 'r) event_buffer \<Rightarrow> (exn + unit) \<times> ('e, 'm, 'r) event_buffer"

text \<open>
  \<open>_flush_if_needed\<close>: the callback runs inside \<open>async with\<close>, which gives the permit back however the
  callback ends.
\<close>

definition flush_if_needed ::
  "bool \<Rightarrow> time \<Rightarrow> (('e, 'm, 'r) event_buffer \<Rightarrow> (exn + unit) \<times> ('e, 'm, 'r) event_buffer)
   \<Rightarrow> ('e, 'm, 'r) event_buffer \<Rightarrow> (exn + unit) \<times> ('e, 'm, 'r) event_buffer" where
  "flush_if_needed has_callback now callback B =
     (case flush_if_needed_enter has_callback now B of
        None \<Rightarrow> (Inr (), B)
      | Some B1 \<Rightarrow> (case callback B1 of (res, B2) \<Rightarrow> (res, flush_if_needed_leave B2)))"

text \<open>One round; the first component tells whether the loop goes on. Ordinary exceptions are logged.\<close>

definition auto_flush_round ::
  "bool \<Rightarrow> ('e, 'm, 'r) auto_env \<Rightarrow> nat \<Rightarrow> ('e, 'm, 'r) event_buffer \<Rightarrow> bool \<times> ('e, 'm, 'r) event_buffer" where
  "auto_flush_round has_callback V i B =
     (let B1 = ae_sleep V i B
      in if ae_cancelled V i then (False, B1)
         else if \<not> bf_running B1 then (True, B1)
         else case flush_if_needed has_callback (ae_clock V i) (ae_callback V i) B1 of
           (Inr _, B2) \<Rightarrow> (True, B2)
         | (Inl e, B2) \<Rightarrow> (catchable e, B2))"

text \<open>\<open>_auto_flush_loop\<close> from round \<open>i\<close> on; \<open>None\<close> when the rounds allowed do not suffice.\<close>

fun auto_flush_loop ::
  "bool \<Rightarrow> ('e, 'm, 'r) auto_env \<Rightarrow> nat \<Rightarrow> nat \<Rightarrow> ('e, 'm, 'r) event_buffer \<Rightarrow> ('e, 'm, 'r) event_buffer option" where
  "auto_flush_loop has_callback V 0 i B = None"
| "auto_flush_loop has_callback V (Suc fuel) i B =
     (if \<not> bf_running B then Some B
      else case auto_flush_round has_callback V i B of
        (False, B') \<Rightarrow> Some B'
      | (True, B') \<Rightarrow> auto_flush_loop has_callback V fuel (Suc i) B')"

text \<open>The loop ends at the next round after it is cancelled or the buffer is stopped.\<close>

theorem auto_flush_loop_ends:
  assumes "ae_cancelled V n \<or> (\<forall>B. \<not> bf_running (ae_sleep V n B))" and "i \<le> n" and "Suc (n - i) < fuel"
  shows "auto_flush_loop has_callback V fuel i B \<noteq> None"
  using assms(2,3)
proof (induction fuel arbitrary: i B)
  case (Suc fuel)
  obtain go B' where r: "auto_flush_round has_callback V i B = (go, B')" by fastforce
  have "auto_flush_loop has_callback V fuel (Suc i) B' \<noteq> None" if go
  proof (cases "i = n")
    case True
    with assms(1) r that have "\<not> bf_running B'" by (auto simp: auto_flush_round_def Let_def split: if_splits)
    with Suc.prems True show ?thesis by (cases fuel) simp_all
  next
    case False
    with Suc.prems show ?thesis by (intro Suc.IH) simp_all
  qed
  with r show ?case by (cases go) auto
qed simp

section \<open>Permits\<close>

text \<open>
  Any number of tasks in \<open>_flush_if_needed\<close>: \<open>fs_inside\<close> of them are in the callback. Everything else
  (writers, drains, requeues) leaves the semaphore and the configuration alone. Stopping awaits the
  tasks, so it is complete, and a start follows, only when none is inside.
\<close>

record ('e, 'm, 'r) flush_sys =
  fs_buffer :: "('e, 'm, 'r) event_buffer"
  fs_inside :: nat

inductive flush_step :: "bool \<Rightarrow> ('e, 'm, 'r) flush_sys \<Rightarrow> ('e, 'm, 'r) flush_sys \<Rightarrow> bool" for has_callback where
  enter: "flush_if_needed_enter has_callback now (fs_buffer s) = Some B \<Longrightarrow>
    flush_step has_callback s (s\<lparr>fs_buffer := B, fs_inside := Suc (fs_inside s)\<rparr>)"
| leave: "fs_inside s = Suc n \<Longrightarrow>
    flush_step has_callback s (s\<lparr>fs_buffer := flush_if_needed_leave (fs_buffer s), fs_inside := n\<rparr>)"
| others: "bf_semaphore B = bf_semaphore (fs_buffer s) \<Longrightarrow> bf_config B = bf_config (fs_buffer s) \<Longrightarrow>
    flush_step has_callback s (s\<lparr>fs_buffer := B\<rparr>)"
| start: "fs_inside s = 0 \<Longrightarrow> flush_step has_callback s (s\<lparr>fs_buffer := start_auto_flush (fs_buffer s)\<rparr>)"
| stop: "fs_inside s = 0 \<Longrightarrow> flush_step has_callback s (s\<lparr>fs_buffer := stop_auto_flush (fs_buffer s)\<rparr>)"

definition flush_sys_init :: "agent_config \<Rightarrow> ('e, 'm, 'r) flush_sys" where
  "flush_sys_init c = \<lparr>fs_buffer = event_buffer_init c, fs_inside = 0\<rparr>"

text \<open>The permits that are free and those that are taken make up the configured number.\<close>

definition permits_inv :: "agent_config \<Rightarrow> ('e, 'm, 'r) flush_sys \<Rightarrow> bool" where
  "permits_inv c s \<longleftrightarrow> bf_config (fs_buffer s) = c
     \<and> (case bf_semaphore (fs_buffer s) of None \<Rightarrow> fs_inside s = 0
        | Some p \<Rightarrow> p + fs_inside s = nat (cf_max_concurrent_flushes c))"

lemma flush_enter_permit:
  "flush_if_needed_enter has_callback now B = Some B' \<Longrightarrow>
   \<exists>p. has_callback \<and> bf_semaphore B = Some (Suc p) \<and> B' = B\<lparr>bf_semaphore := Some p\<rparr>"
  by (auto simp: flush_if_needed_enter_def split: if_splits bool.splits option.splits nat.splits)

lemma permits_inv_step: "flush_step has_callback s s' \<Longrightarrow> permits_inv c s \<Longrightarrow> permits_inv c s'"
proof (induction rule: flush_step.induct)
  case (enter now s B)
  from flush_enter_permit [OF enter(1)] enter(2) show ?case by (auto simp: permits_inv_def)
next
  case (leave s n)
  then show ?case by (auto simp: permits_inv_def flush_if_needed_leave_def split: option.splits)
next
  case (others B s)
  then show ?case by (auto simp: permits_inv_def split: option.splits)
next
  case (start s)
  then show ?case by (auto simp: permits_inv_def start_auto_flush_def split: option.splits)
next
  case (stop s)
  then show ?case by (simp add: permits_inv_def stop_auto_flush_def)
qed

lemma permits_inv_run: "(flush_step has_callback)\<^sup>*\<^sup>* s s' \<Longrightarrow> permits_inv c s \<Longrightarrow> permits_inv c s'"
  by (induction rule: rtranclp_induct) (auto intro: permits_inv_step)


text \<open>A buffer with one waiting event, started, with its first flush under way.\<close>

definition waiting_buffer :: "(nat, nat, unit) event_buffer" where
  "waiting_buffer = (start_auto_flush (event_buffer_init (default_config ''0123456789'')))
     \<lparr>bf_events := empty_lane\<lparr>ln_items := [(1, 10)]\<rparr>\<rparr>"

definition flushing_sys :: "(nat, nat, unit) flush_sys" where
  "flushing_sys = \<lparr>fs_buffer = waiting_buffer\<lparr>bf_semaphore := Some 0\<rparr>, fs_inside = 1\<rparr>"

lemma flushing_reachable: "(flush_step True)\<^sup>*\<^sup>* (flush_sys_init (default_config ''0123456789'')) flushing_sys"
proof -
  let ?c = "default_config ''0123456789''"
  let ?B = "start_auto_flush (event_buffer_init ?c) :: (nat, nat, unit) event_buffer"
  have "flush_step True (flush_sys_init ?c) \<lparr>fs_buffer = ?B, fs_inside = 0\<rparr>"
    using flush_step.start [of "flush_sys_init ?c" True] by (simp add: flush_sys_init_def)
  moreover have "flush_step True \<lparr>fs_buffer = ?B, fs_inside = 0\<rparr> \<lparr>fs_buffer = waiting_buffer, fs_inside = 0\<rparr>"
    using flush_step.others [of waiting_buffer "\<lparr>fs_buffer = ?B, fs_inside = 0\<rparr>" True] by (simp add: waiting_buffer_def)
  moreover have "flush_if_needed_enter True 0 waiting_buffer = Some (waiting_buffer\<lparr>bf_semaphore := Some 0\<rparr>)"
    by (simp add: flush_if_needed_enter_def flush_needed_def waiting_buffer_def start_auto_flush_def event_buffer_init_def
        get_buffer_size_def empty_lane_def default_config_def)
  then have "flush_step True \<lparr>fs_buffer = waiting_buffer, fs_inside = 0\<rparr> flushing_sys"
    using flush_step.enter [of True 0 "\<lparr>fs_buffer = waiting_buffer, fs_inside = 0\<rparr>"] by (simp add: flushing_sys_def)
  ultimately show ?thesis by (meson converse_rtranclp_into_rtranclp rtranclp.rtrancl_refl)
qed


end
