(* ===== verification/Interleave.thy ===== *)
theory Interleave
  imports LaneRequeue "HOL-Library.Multiset"
begin

text \<open>
  Any number of writers and flushes on one queue, interleaved at will. A state has the queue and the
  batches that were drained and not yet answered; a step is one critical section of the code: an
  add, a drain, the end of a send in success, the requeue after a failed one. Ghost components
  record what was added, what the server settled, what was dropped, and the Redis key each object
  got when it was added.
\<close>

record ('a, 'r) sys =
  sy_lane :: "'a lane"
  sy_fails :: int
  sy_redis :: 'r
  sy_flights :: "('a obj list \<times> string list) list"
  sy_added :: "'a obj list"
  sy_settled :: "'a obj list"
  sy_lost :: "'a obj list"
  sy_key :: "oid \<Rightarrow> string option"

definition sys_init :: "'r \<Rightarrow> ('a, 'r) sys" where
  "sys_init r = \<lparr>sy_lane = empty_lane, sy_fails = 0, sy_redis = r, sy_flights = [], sy_added = [], sy_settled = [],
     sy_lost = [], sy_key = Map.empty\<rparr>"

definition flying :: "('a, 'r) sys \<Rightarrow> 'a obj list" where
  "flying s = concat (map fst (sy_flights s))"

definition without_flight :: "nat \<Rightarrow> 'f list \<Rightarrow> 'f list" where
  "without_flight i fs = take i fs @ drop (Suc i) fs"

text \<open>
  The steps of an add are those that complete: one that is refused or told to wait leaves everything
  as it was (as \<open>LaneFacts\<close> shows), and one that is cancelled amid its Redis call is not
  covered. A new object is none of those queued or in flight; the identity of an object that is gone
  may come back. The item that a full queue drops is its oldest; those a requeue evicts are the ones
  beyond the bound. Confirmations and other tasks change the Redis side at any time.
\<close>

inductive sys_step ::
  "'a lane_kind \<Rightarrow> 'r redis_handler option \<Rightarrow> overflow_policy \<Rightarrow> nat \<Rightarrow> ('a, 'r) sys \<Rightarrow> ('a, 'r) sys \<Rightarrow> bool"
  for K R policy n where
  add: "fst x \<notin> ids (ln_items (sy_lane s)) \<union> ids (flying s) \<Longrightarrow> key \<noteq> [] \<Longrightarrow>
    add_round K R policy n key x (sy_lane s, sy_fails s, sy_redis s) = (Inr True, L', fails', r') \<Longrightarrow>
    sys_step K R policy n s (s\<lparr>sy_lane := L', sy_fails := fails', sy_redis := r',
      sy_added := sy_added s @ [x],
      sy_lost := sy_lost s @ (if lane_full n (sy_lane s) then [hd (ln_items (sy_lane s))] else []),
      sy_key := (sy_key s)(fst x := ln_keys L' (fst x))\<rparr>)"
| drain: "flush_with_keys (sy_lane s) = (xs, ks, L') \<Longrightarrow>
    sys_step K R policy n s (s\<lparr>sy_lane := L', sy_flights := sy_flights s @ [(xs, ks)]\<rparr>)"
| sent: "i < length (sy_flights s) \<Longrightarrow> sy_flights s ! i = (xs, ks) \<Longrightarrow>
    sys_step K R policy n s (s\<lparr>sy_flights := without_flight i (sy_flights s), sy_settled := sy_settled s @ xs\<rparr>)"
| failed: "i < length (sy_flights s) \<Longrightarrow> sy_flights s ! i = (xs, ks) \<Longrightarrow>
    requeue_in_memory n xs ks (sy_lane s) = (res, L') \<Longrightarrow>
    sys_step K R policy n s (s\<lparr>sy_lane := L', sy_flights := without_flight i (sy_flights s),
      sy_lost := sy_lost s @ drop n (xs @ ln_items (sy_lane s))\<rparr>)"
| redis: "sys_step K R policy n s (s\<lparr>sy_redis := r\<rparr>)"

inductive reachable ::
  "'a lane_kind \<Rightarrow> 'r redis_handler option \<Rightarrow> overflow_policy \<Rightarrow> nat \<Rightarrow> 'r \<Rightarrow> ('a, 'r) sys \<Rightarrow> bool"
  for K R policy n r0 where
  start: "reachable K R policy n r0 (sys_init r0)"
| step: "reachable K R policy n r0 s \<Longrightarrow> sys_step K R policy n s s' \<Longrightarrow> reachable K R policy n r0 s'"

inductive_simps reachable_init_simps: "reachable K R policy n r0 (sys_init r0)"

section \<open>The invariant\<close>

definition key_text :: "(oid \<Rightarrow> string option) \<Rightarrow> 'a obj \<Rightarrow> string" where
  "key_text m x = (case m (fst x) of None \<Rightarrow> [] | Some k \<Rightarrow> k)"

text \<open>
  Well-formedness; conservation of the objects; the counters; and the keys: an object keeps the Redis
  key it got when it was added, in the queue and in flight, through any number of failed sends.
\<close>

definition sys_inv :: "nat \<Rightarrow> ('a, 'r) sys \<Rightarrow> bool" where
  "sys_inv n s \<longleftrightarrow>
     lane_wf n (sy_lane s) \<and> distinct (map fst (ln_items (sy_lane s) @ flying s))
   \<and> mset (sy_added s) = mset (ln_items (sy_lane s)) + mset (flying s) + mset (sy_settled s) + mset (sy_lost s)
   \<and> ln_dropped (sy_lane s) = int (length (sy_lost s)) \<and> ln_buffered (sy_lane s) = int (length (sy_added s))
   \<and> (\<forall>x \<in> set (ln_items (sy_lane s)). ln_keys (sy_lane s) (fst x) = sy_key s (fst x))
   \<and> (\<forall>(xs, ks) \<in> set (sy_flights s). ks = map (key_text (sy_key s)) xs)
   \<and> [] \<notin> ran (sy_key s)"

lemma sys_invD:
  assumes "sys_inv n s"
  shows "lane_wf n (sy_lane s)" "distinct (map fst (ln_items (sy_lane s) @ flying s))"
    "mset (sy_added s) = mset (ln_items (sy_lane s)) + mset (flying s) + mset (sy_settled s) + mset (sy_lost s)"
    "ln_dropped (sy_lane s) = int (length (sy_lost s))" "ln_buffered (sy_lane s) = int (length (sy_added s))"
    "\<And>x. x \<in> set (ln_items (sy_lane s)) \<Longrightarrow> ln_keys (sy_lane s) (fst x) = sy_key s (fst x)"
    "\<And>xs ks. (xs, ks) \<in> set (sy_flights s) \<Longrightarrow> ks = map (key_text (sy_key s)) xs"
    "[] \<notin> ran (sy_key s)"
  using assms by (auto simp: sys_inv_def)

lemma sys_inv_init: "sys_inv n (sys_init r)"
  by (simp add: sys_inv_def sys_init_def flying_def empty_lane_def lane_wf_def)

lemma without_flight_flying:
  assumes "i < length fs" "fs ! i = (xs, ks)"
  shows "mset (concat (map fst fs)) = mset xs + mset (concat (map fst (without_flight i fs)))"
    "set (without_flight i fs) \<subseteq> set fs"
proof -
  have fs: "fs = take i fs @ (xs, ks) # drop (Suc i) fs" using assms id_take_nth_drop by metis
  then have "concat (map fst fs) = concat (map fst (take i fs)) @ xs @ concat (map fst (drop (Suc i) fs))"
    by (metis (no_types, lifting) concat.simps(2) concat_append fst_conv list.simps(9) map_append)
  then show "mset (concat (map fst fs)) = mset xs + mset (concat (map fst (without_flight i fs)))"
    by (simp add: without_flight_def)
  show "set (without_flight i fs) \<subseteq> set fs"
    by (auto simp: without_flight_def dest: in_set_takeD in_set_dropD)
qed

lemma ids_mem: "y \<in> set xs \<Longrightarrow> fst y \<in> ids xs"
  by simp

lemma distinct_ids_mset:
  "mset xs = mset ys \<Longrightarrow> distinct (map fst xs) = distinct (map fst ys)"
  by (metis mset_eq_imp_distinct_iff mset_map)

section \<open>An add\<close>

lemma add_round_added:
  assumes wf: "lane_wf n L" and n: "0 < n"
    and a: "add_round K R policy n key x (L, fails, r) = (Inr True, L', fails', r')"
  shows "ln_items L' = (if lane_full n L then tl (ln_items L) else ln_items L) @ [x]"
    "ln_dropped L' = ln_dropped L + (if lane_full n L then 1 else 0)"
  using add_round_outcome [OF wf n a]
  by (auto simp: add_outcome_def split: if_splits overflow_policy.splits)

lemma add_round_appends:
  assumes "add_round K R policy n key x (L, fails, r) = (Inr True, L', fails', r')"
  obtains L1 r1 f1 res2 where "resolve_overflow K R policy n (L, r) = (Inr False, L1, r1)"
    "append_item K R n key x (L1, fails, r1) = (res2, L', fails', r')"
proof -
  obtain res1 L1 r1 where o: "resolve_overflow K R policy n (L, r) = (res1, L1, r1)" by (metis prod_cases3)
  with assms have "res1 = Inr False" by (auto simp: add_round_def split: sum.splits bool.splits prod.splits)
  with o assms obtain res2 where "append_item K R n key x (L1, fails, r1) = (res2, L', fails', r')"
    by (auto simp: add_round_def split: sum.splits prod.splits)
  with o \<open>res1 = Inr False\<close> that show ?thesis by blast
qed

lemma add_round_buffered:
  assumes "add_round K R policy n key x (L, fails, r) = (Inr True, L', fails', r')"
  shows "ln_buffered L' = ln_buffered L + 1"
proof -
  obtain L1 r1 f1 res2 where "resolve_overflow K R policy n (L, r) = (Inr False, L1, r1)"
      "append_item K R n key x (L1, fails, r1) = (res2, L', fails', r')"
    by (rule add_round_appends [OF assms])
  from resolve_overflow_frame [OF this(1)] append_item_lane [OF this(2)] show ?thesis by simp
qed

lemma add_round_other_keys:
  assumes wf: "lane_wf n L" and fresh: "fst x \<notin> ids (ln_items L)" and n: "0 < n"
    and a: "add_round K R policy n key x (L, fails, r) = (Inr True, L', fails', r')"
    and y: "y \<in> set (ln_items L')" "y \<noteq> x"
  shows "ln_keys L' (fst y) = ln_keys L (fst y)"
proof -
  obtain L1 r1 f1 res2 where o: "resolve_overflow K R policy n (L, r) = (Inr False, L1, r1)"
      and app: "append_item K R n key x (L1, fails, r1) = (res2, L', fails', r')"
    by (rule add_round_appends [OF a])
  have yq: "y \<in> set (if lane_full n L then tl (ln_items L) else ln_items L)"
    using add_round_added(1) [OF wf n a] y by auto
  then have yL: "y \<in> set (ln_items L)" by (cases "ln_items L") (auto split: if_splits)
  with fresh ids_mem have yx: "fst y \<noteq> fst x" by metis
  from o have "ln_keys L1 (fst y) = ln_keys L (fst y)"
  proof (cases rule: resolve_overflow_cases)
    case (drop k)
    obtain z zs where zs: "ln_items L = z # zs" using yL by (cases "ln_items L") auto
    with drop(1) yq have "y \<in> set zs" by simp
    with lane_wfD(2) [OF wf] zs ids_mem have "fst y \<noteq> fst z" by (metis distinct.simps(2) list.set_map list.simps(9))
    with forget_oldest_key_facts(3) [OF drop(3)] zs show ?thesis by simp
  qed simp_all
  with append_item_lane [OF app] yx show ?thesis by auto
qed

section \<open>Every step keeps the invariant\<close>

lemma sys_inv_add:
  assumes inv: "sys_inv n s" and n: "0 < n"
    and fresh: "fst x \<notin> ids (ln_items (sy_lane s)) \<union> ids (flying s)" and key: "key \<noteq> []"
    and a: "add_round K R policy n key x (sy_lane s, sy_fails s, sy_redis s) = (Inr True, L', fails', r')"
  shows "sys_inv n (s\<lparr>sy_lane := L', sy_fails := fails', sy_redis := r', sy_added := sy_added s @ [x],
      sy_lost := sy_lost s @ (if lane_full n (sy_lane s) then [hd (ln_items (sy_lane s))] else []),
      sy_key := (sy_key s)(fst x := ln_keys L' (fst x))\<rparr>)"
proof -
  note i = sys_invD [OF inv]
  have wf': "lane_wf n L'" by (rule add_round_wf [OF i(1) n _ key a]) (use fresh in simp)
  note items = add_round_added [OF i(1) n a]
  have full: "lane_full n (sy_lane s) \<Longrightarrow> ln_items (sy_lane s) \<noteq> []"
    using n by (auto simp: lane_full_def)
  have kept: "set (if lane_full n (sy_lane s) then tl (ln_items (sy_lane s)) else ln_items (sy_lane s)) \<subseteq> set (ln_items (sy_lane s))"
    by (cases "ln_items (sy_lane s)") auto
  have "distinct (map fst (ln_items L' @ flying s))"
    using i(2) fresh items(1) by (cases "ln_items (sy_lane s)") (auto simp: image_iff)
  moreover have "mset (sy_added s @ [x]) = mset (ln_items L') + mset (flying s) + mset (sy_settled s)
      + mset (sy_lost s @ (if lane_full n (sy_lane s) then [hd (ln_items (sy_lane s))] else []))"
    using i(3) items(1) full by (cases "ln_items (sy_lane s)") auto
  moreover have "\<forall>y \<in> set (ln_items L'). ln_keys L' (fst y) = ((sy_key s)(fst x := ln_keys L' (fst x))) (fst y)"
  proof
    fix y assume y: "y \<in> set (ln_items L')"
    show "ln_keys L' (fst y) = ((sy_key s)(fst x := ln_keys L' (fst x))) (fst y)"
    proof (cases "y = x")
      case False
      with y items(1) kept have yq: "y \<in> set (ln_items (sy_lane s))" by auto
      with fresh ids_mem have "fst y \<noteq> fst x" by (metis UnI1)
      with add_round_other_keys [OF i(1) _ n a y False] fresh i(6) [OF yq] show ?thesis by simp
    qed simp
  qed
  moreover have "ks = map (key_text ((sy_key s)(fst x := ln_keys L' (fst x)))) xs" if f: "(xs, ks) \<in> set (sy_flights s)" for xs ks
  proof -
    have "set xs \<subseteq> set (flying s)" using f by (force simp: flying_def)
    then have "ids xs \<subseteq> ids (flying s)" by (rule image_mono)
    with fresh have "fst x \<notin> ids xs" by auto
    then have "map (key_text ((sy_key s)(fst x := ln_keys L' (fst x)))) xs = map (key_text (sy_key s)) xs"
      by (intro map_cong refl) (metis fun_upd_other ids_mem key_text_def)
    with i(7) [OF f] show ?thesis by simp
  qed
  moreover have "[] \<notin> ran ((sy_key s)(fst x := ln_keys L' (fst x)))"
    using i(8) tracked_nonempty [OF wf', of "fst x"] by (auto simp: ran_def)
  moreover have "flying (s\<lparr>sy_lane := L', sy_fails := fails', sy_redis := r', sy_added := A, sy_lost := D, sy_key := M\<rparr>) = flying s"
    for A D M by (simp add: flying_def)
  ultimately show ?thesis
    using wf' i(4,5) items(2) add_round_buffered [OF a] by (auto simp: sys_inv_def)
qed

lemma sys_inv_drain:
  assumes inv: "sys_inv n s" and d: "flush_with_keys (sy_lane s) = (xs, ks, L')"
  shows "sys_inv n (s\<lparr>sy_lane := L', sy_flights := sy_flights s @ [(xs, ks)]\<rparr>)"
proof -
  note i = sys_invD [OF inv]
  have eq: "xs = ln_items (sy_lane s)" "ks = map (key_of (sy_lane s)) xs" "ln_items L' = []"
      "ln_dropped L' = ln_dropped (sy_lane s)" "ln_buffered L' = ln_buffered (sy_lane s)"
    using d flush_with_keys_spec [OF i(1)] by auto
  have "ks = map (key_text (sy_key s)) xs"
    unfolding eq(1,2) using i(6) by (intro map_cong) (auto simp: key_of_def key_text_def)
  moreover have "flying (s\<lparr>sy_lane := L', sy_flights := sy_flights s @ [(xs, ks)]\<rparr>) = flying s @ xs"
    by (simp add: flying_def)
  ultimately show ?thesis
    using i lane_wf_drained [OF i(1) d] eq by (auto simp: sys_inv_def ac_simps)
qed

lemma sys_inv_sent:
  assumes inv: "sys_inv n s" and f: "i < length (sy_flights s)" "sy_flights s ! i = (xs, ks)"
  shows "sys_inv n (s\<lparr>sy_flights := without_flight i (sy_flights s), sy_settled := sy_settled s @ xs\<rparr>)"
proof -
  note i = sys_invD [OF inv]
  note w = without_flight_flying [OF f]
  let ?fl = "concat (map fst (without_flight i (sy_flights s)))"
  have "mset (ln_items (sy_lane s) @ flying s) = mset (xs @ ln_items (sy_lane s) @ ?fl)"
    using w(1) by (simp add: flying_def)
  then have "distinct (map fst (xs @ ln_items (sy_lane s) @ ?fl))"
    using i(2) distinct_ids_mset by metis
  with i w show ?thesis by (auto simp: sys_inv_def flying_def)
qed

text \<open>The map of keys that a requeue restores agrees with the keys the objects got when they were added.\<close>

lemma restored_keys:
  assumes inv: "sys_inv n s" and f: "(xs, ks) \<in> set (sy_flights s)"
    and disj: "distinct (map fst (xs @ ln_items (sy_lane s)))"
    and x: "x \<in> set (xs @ ln_items (sy_lane s))"
  shows "add_keys xs ks (ln_keys (sy_lane s)) (fst x) = sy_key s (fst x)"
proof -
  note i = sys_invD [OF inv]
  let ?m = "ln_keys (sy_lane s)"
  have ks: "ks = map (key_text (sy_key s)) xs" by (rule i(7) [OF f])
  show ?thesis
  proof (cases "x \<in> set xs")
    case True
    have "fst x \<notin> dom ?m" using disj True lane_wfD(3) [OF i(1)] by auto
    then have "?m (fst x) = None" by (simp add: domIff)
    moreover have "\<forall>y \<in> set xs. add_keys xs (map (key_text (sy_key s)) xs) ?m (fst y)
        = (if sy_key s (fst y) = None then ?m (fst y) else sy_key s (fst y))"
      using disj
    proof (induction xs)
      case (Cons z zs)
      have z: "add_keys zs (map (key_text (sy_key s)) zs) ?m (fst z) = ?m (fst z)"
        using Cons.prems by (intro add_keys_other) auto
      have "sy_key s (fst z) \<noteq> Some []" using i(8) by (auto simp: ran_def)
      moreover have "fst z \<notin> ids zs" using Cons.prems by simp
      then have "fst y \<noteq> fst z" if "y \<in> set zs" for y using ids_mem [OF that] by metis
      ultimately show ?case
        using Cons z by (auto simp: Let_def key_text_def [of _ z] split: option.splits)
    qed simp
    ultimately show ?thesis using True ks by auto
  next
    case False
    with x have "x \<in> set (ln_items (sy_lane s))" by simp
    moreover from this disj have "fst x \<notin> ids xs" by auto
    ultimately show ?thesis using i(6) by (simp add: add_keys_other)
  qed
qed

lemma requeued_keys:
  assumes inv: "sys_inv n s" and f: "(xs, ks) \<in> set (sy_flights s)"
    and r: "requeued n xs ks (sy_lane s) L'" and x: "x \<in> set (ln_items L')"
    and disj: "distinct (map fst (xs @ ln_items (sy_lane s)))"
  shows "ln_keys L' (fst x) = sy_key s (fst x)"
proof -
  have "x \<in> set (xs @ ln_items (sy_lane s))"
    using r x by (auto simp: requeued_def dest: in_set_takeD)
  moreover have "ln_keys L' (fst x) = add_keys xs ks (ln_keys (sy_lane s)) (fst x)"
    using r x by (auto simp: requeued_def)
  ultimately show ?thesis using restored_keys [OF inv f disj] by simp
qed

lemma sys_inv_failed:
  assumes inv: "sys_inv n s" and n: "0 < n" and f: "i < length (sy_flights s)" "sy_flights s ! i = (xs, ks)"
    and r: "requeue_in_memory n xs ks (sy_lane s) = (res, L')"
  shows "sys_inv n (s\<lparr>sy_lane := L', sy_flights := without_flight i (sy_flights s),
      sy_lost := sy_lost s @ drop n (xs @ ln_items (sy_lane s))\<rparr>)"
proof -
  note i = sys_invD [OF inv]
  note w = without_flight_flying [OF f]
  let ?q = "ln_items (sy_lane s)"
  let ?fl = "concat (map fst (without_flight i (sy_flights s)))"
  have mem: "(xs, ks) \<in> set (sy_flights s)" using f nth_mem by force
  have m: "mset (?q @ flying s) = mset ((xs @ ?q) @ ?fl)"
    using w(1) by (simp add: flying_def)
  then have d: "distinct (map fst ((xs @ ?q) @ ?fl))" using i(2) distinct_ids_mset by metis
  have dq: "distinct (map fst (xs @ ?q))" using d by (metis distinct_append map_append)
  have len: "length xs = length ks" using i(7) [OF mem] by simp
  obtain L where L: "requeue_in_memory n xs ks (sy_lane s) = (Inr (evicted_keys n xs ks (sy_lane s)), L)"
      "requeued n xs ks (sy_lane s) L" "lane_wf n L"
    using requeue_in_memory_spec [OF len i(1) n] d by (auto simp: Int_Un_distrib)
  with r have eq: "L' = L" by simp
  note rq = L(2) [unfolded requeued_def]
  have split: "mset (take n (xs @ ?q)) + mset (drop n (xs @ ?q)) = mset xs + mset ?q"
    by (metis append_take_drop_id mset_append)
  have "distinct (map fst (take n (xs @ ?q) @ ?fl))"
  proof -
    have "distinct (map fst (take n (xs @ ?q)))" using d by (metis distinct_append distinct_take map_append take_map)
    moreover have "ids (take n (xs @ ?q)) \<subseteq> ids (xs @ ?q)" by (intro image_mono set_take_subset)
    moreover have "ids (xs @ ?q) \<inter> ids ?fl = {}" "distinct (map fst ?fl)"
      using d by (metis distinct_append map_append set_map)+
    ultimately show ?thesis unfolding map_append [of fst "take n (xs @ ?q)"] distinct_append set_map by blast
  qed
  moreover have "\<forall>x \<in> set (ln_items L). ln_keys L (fst x) = sy_key s (fst x)"
    using requeued_keys [OF inv mem L(2)] dq by blast
  moreover have "mset (sy_added s) = mset (ln_items L) + mset ?fl + mset (sy_settled s)
      + mset (sy_lost s @ drop n (xs @ ?q))"
    using i(3) w(1) split rq by (simp add: flying_def del: take_append drop_append)
  ultimately show ?thesis
    using i(4,5,7,8) w(2) L(3) rq eq
    by (auto simp: sys_inv_def flying_def simp del: take_append drop_append)
qed

lemma sys_inv_step: "sys_step K R policy n s s' \<Longrightarrow> 0 < n \<Longrightarrow> sys_inv n s \<Longrightarrow> sys_inv n s'"
proof (induction rule: sys_step.induct)
  case (redis s r)
  then show ?case by (simp add: sys_inv_def flying_def)
qed (blast intro: sys_inv_add sys_inv_drain sys_inv_sent sys_inv_failed)+

lemma sys_inv_reachable: "reachable K R policy n r0 s \<Longrightarrow> 0 < n \<Longrightarrow> sys_inv n s"
  by (induction rule: reachable.induct) (auto intro: sys_inv_init sys_inv_step)

section \<open>A run of three steps\<close>

text \<open>
  One object is added to a queue of one place and drained, a second is added meanwhile, and the send
  fails: the first comes back, and the second, which no longer fits, is dropped.
\<close>

definition sample_step :: "(nat, unit) sys \<Rightarrow> (nat, unit) sys \<Rightarrow> bool" where
  "sample_step = sys_step sample_kind None Drop 1"

definition sample_added :: "nat obj \<Rightarrow> (nat, unit) sys \<Rightarrow> (nat, unit) sys" where
  "sample_added x s = s\<lparr>sy_lane := (sy_lane s)\<lparr>ln_items := [x], ln_buffered := ln_buffered (sy_lane s) + 1\<rparr>,
     sy_added := sy_added s @ [x], sy_key := (sy_key s)(fst x := None)\<rparr>"

definition sample_s1 :: "(nat, unit) sys" where
  "sample_s1 = sample_added (1, 10) (sys_init ())"

definition sample_s2 :: "(nat, unit) sys" where
  "sample_s2 = sample_s1\<lparr>sy_lane := (sy_lane sample_s1)\<lparr>ln_items := [], ln_flushed := 1\<rparr>, sy_flights := [([(1, 10)], [[]])]\<rparr>"

definition sample_s3 :: "(nat, unit) sys" where
  "sample_s3 = sample_added (2, 20) sample_s2"

definition sample_s4 :: "(nat, unit) sys" where
  "sample_s4 = sample_s3\<lparr>sy_lane := (sy_lane sample_s3)\<lparr>ln_items := [(1, 10)], ln_dropped := 1\<rparr>, sy_flights := [],
     sy_lost := [(2, 20)]\<rparr>"

lemmas sample_states = sample_s4_def sample_s3_def sample_s2_def sample_s1_def sample_added_def sys_init_def empty_lane_def

lemma sample_add:
  assumes "ln_items (sy_lane s) = []" "fst x \<notin> ids (flying s)" "ln_keys (sy_lane s) = Map.empty"
  shows "sample_step s (sample_added x s)"
proof -
  have "add_round sample_kind None Drop 1 ''k'' x (sy_lane s, sy_fails s, sy_redis s)
      = (Inr True, (sy_lane s)\<lparr>ln_items := [x], ln_buffered := ln_buffered (sy_lane s) + 1\<rparr>, sy_fails s, sy_redis s)"
    using assms by (simp add: add_round_def resolve_overflow_def lane_full_def append_item_def deque_append_def)
  from sys_step.add [OF _ _ this] assms show ?thesis
    by (cases s) (simp add: sample_step_def sample_added_def lane_full_def)
qed

lemma sample_reachable: "reachable sample_kind None Drop 1 () sample_s4"
proof -
  have "sample_step (sys_init ()) sample_s1"
    unfolding sample_s1_def by (rule sample_add) (simp_all add: sys_init_def empty_lane_def flying_def)
  moreover have "sample_step sample_s1 sample_s2"
    using sys_step.drain [where s = sample_s1 and xs = "[(1, 10)]" and ks = "[[]]" and K = sample_kind and R = None
        and policy = Drop and n = 1 and L' = "(sy_lane sample_s1)\<lparr>ln_items := [], ln_flushed := 1\<rparr>"]
    by (simp add: sample_states sample_step_def flush_with_keys_def)
  moreover have "sample_step sample_s2 sample_s3"
    unfolding sample_s3_def by (rule sample_add) (simp_all add: sample_states flying_def)
  moreover have "sample_step sample_s3 sample_s4"
    using sys_step.failed [where s = sample_s3 and i = 0 and xs = "[(1, 10)]" and ks = "[[]]" and K = sample_kind
        and R = None and policy = Drop and n = 1 and res = "Inr []"
        and L' = "(sy_lane sample_s3)\<lparr>ln_items := [(1, 10)], ln_dropped := 1\<rparr>"]
    by (simp add: sample_states sample_step_def without_flight_def requeue_in_memory_def requeue_one_def lane_full_def
        forget_newest_key_def deque_appendleft_def)
  ultimately show ?thesis
    unfolding sample_step_def by (meson reachable.intros)
qed

section \<open>Properties\<close>

text \<open>
  C6: nothing vanishes. However writers and flushes interleave, the objects added are exactly those
  queued, in flight, settled, and dropped; the drops are counted one by one, and so are the adds;
  and the queue never exceeds its bound.
\<close>

theorem objects_are_conserved:
  assumes "reachable K R policy n r0 s" and "0 < n"
  shows "mset (sy_added s) = mset (ln_items (sy_lane s)) + mset (flying s) + mset (sy_settled s) + mset (sy_lost s)
    \<and> ln_buffered (sy_lane s) = int (length (sy_added s)) \<and> ln_dropped (sy_lane s) = int (length (sy_lost s))
    \<and> length (ln_items (sy_lane s)) \<le> n"
  using sys_invD(3-5) [OF sys_inv_reachable [OF assms]] lane_wfD(1) [OF sys_invD(1) [OF sys_inv_reachable [OF assms]]]
  by simp

theorem objects_are_conserved_witness:
  "mset (sy_added sample_s4) = {#(1, 10)#} + {#(2, 20)#} \<and> sy_lost sample_s4 = [(2, 20)]
    \<and> mset (sy_added sample_s4) = mset (ln_items (sy_lane sample_s4)) + mset (flying sample_s4)
        + mset (sy_settled sample_s4) + mset (sy_lost sample_s4)"
  using objects_are_conserved [OF sample_reachable] by (simp add: sample_states)

text \<open>
  C13: durability. An object that waits in the queue or in flight still has the Redis key it was
  persisted under, next to it, whatever failed or overlapped since it was added; so a
  confirmation deletes the right record, and only then. No object is queued or in flight twice.
\<close>

theorem keys_follow_objects:
  assumes "reachable K R policy n r0 s" and "0 < n"
  shows "distinct (map fst (ln_items (sy_lane s) @ flying s))
    \<and> map (key_of (sy_lane s)) (ln_items (sy_lane s)) = map (key_text (sy_key s)) (ln_items (sy_lane s))
    \<and> map snd (sy_flights s) = map (\<lambda>f. map (key_text (sy_key s)) (fst f)) (sy_flights s)
    \<and> dom (ln_keys (sy_lane s)) \<subseteq> ids (ln_items (sy_lane s))"
proof -
  note i = sys_invD [OF sys_inv_reachable [OF assms]]
  have "map (key_of (sy_lane s)) (ln_items (sy_lane s)) = map (key_text (sy_key s)) (ln_items (sy_lane s))"
    using i(6) by (intro map_cong) (auto simp: key_of_def key_text_def)
  moreover have "map snd (sy_flights s) = map (\<lambda>f. map (key_text (sy_key s)) (fst f)) (sy_flights s)"
    using i(7) by (intro map_cong) auto
  ultimately show ?thesis using i(2) lane_wfD(3) [OF i(1)] by blast
qed

theorem keys_follow_objects_witness:
  "distinct (map fst (ln_items (sy_lane sample_s4) @ flying sample_s4))
    \<and> map (key_of (sy_lane sample_s4)) (ln_items (sy_lane sample_s4)) = [[]]"
  using keys_follow_objects [OF sample_reachable] by (simp add: sample_states key_text_def)

end
