(* ===== verification/Mailbox.thy ===== *)
theory Mailbox
  imports Interleave
begin

text \<open>
  The abstract specification of a queue of the buffer: a bounded mailbox with at-least-once delivery.
  It knows which items wait, are being sent, are settled, are lost, and nothing of order, Redis keys,
  counters, policies. The queue with its interleaved writers and flushes (\<open>sys_step\<close>) refines it.
\<close>

section \<open>Simulations\<close>

text \<open>
  A step of the implementation, from a state that satisfies its invariant, is a step of the
  specification under the abstraction function.
\<close>

locale simulation =
  fixes cstep :: "'c \<Rightarrow> 'c \<Rightarrow> bool" and cinit :: "'c \<Rightarrow> bool" and inv :: "'c \<Rightarrow> bool"
    and astep :: "'s \<Rightarrow> 's \<Rightarrow> bool" and ainit :: "'s \<Rightarrow> bool" and abs :: "'c \<Rightarrow> 's"
  assumes start: "cinit c \<Longrightarrow> inv c \<and> ainit (abs c)"
    and keeps: "inv c \<Longrightarrow> cstep c c' \<Longrightarrow> inv c'"
    and simulates: "inv c \<Longrightarrow> cstep c c' \<Longrightarrow> astep (abs c) (abs c')"
begin

lemma runs:
  assumes "cinit c" and "cstep\<^sup>*\<^sup>* c c'"
  shows "inv c' \<and> (\<exists>a. ainit a \<and> astep\<^sup>*\<^sup>* a (abs c'))"
  using assms(2)
proof (induction rule: rtranclp_induct)
  case base
  with start [OF assms(1)] show ?case by blast
next
  case (step y z)
  then show ?case using keeps simulates by (meson rtranclp.rtrancl_into_rtrancl)
qed

end

section \<open>The mailbox\<close>

record 'x mailbox =
  mb_waiting :: "'x multiset"
  mb_flying :: "'x multiset"
  mb_settled :: "'x multiset"
  mb_lost :: "'x multiset"

definition mailbox_empty :: "'x mailbox" where
  "mailbox_empty = \<lparr>mb_waiting = {#}, mb_flying = {#}, mb_settled = {#}, mb_lost = {#}\<rparr>"

text \<open>
  A posted item finds room or replaces one that waits; everything that waits is taken to be sent;
  a part of what is being sent is settled, or comes back, where only what exceeds the bound is lost.
\<close>

inductive mailbox_step :: "nat \<Rightarrow> 'x mailbox \<Rightarrow> 'x mailbox \<Rightarrow> bool" for n where
  post: "size (mb_waiting m) < n \<Longrightarrow> mailbox_step n m (m\<lparr>mb_waiting := add_mset x (mb_waiting m)\<rparr>)"
| replace: "size (mb_waiting m) = n \<Longrightarrow> y \<in># mb_waiting m \<Longrightarrow>
    mailbox_step n m (m\<lparr>mb_waiting := add_mset x (mb_waiting m - {#y#}), mb_lost := add_mset y (mb_lost m)\<rparr>)"
| collect: "mailbox_step n m (m\<lparr>mb_waiting := {#}, mb_flying := mb_flying m + mb_waiting m\<rparr>)"
| settle: "X \<subseteq># mb_flying m \<Longrightarrow>
    mailbox_step n m (m\<lparr>mb_flying := mb_flying m - X, mb_settled := mb_settled m + X\<rparr>)"
| bounce: "X \<subseteq># mb_flying m \<Longrightarrow> mb_waiting m + X = W + D \<Longrightarrow> size W = min n (size (mb_waiting m + X)) \<Longrightarrow>
    mailbox_step n m (m\<lparr>mb_waiting := W, mb_flying := mb_flying m - X, mb_lost := mb_lost m + D\<rparr>)"
| stutter: "mailbox_step n m m"

text \<open>A mailbox keeps its bound, settled items stay settled, and only a full mailbox has lost something.\<close>

lemma mailbox_step_bounded: "mailbox_step n m m' \<Longrightarrow> size (mb_waiting m) \<le> n \<Longrightarrow> size (mb_waiting m') \<le> n"
  by (induction rule: mailbox_step.induct) (auto dest!: multi_member_split)

lemma mailbox_step_settled: "mailbox_step n m m' \<Longrightarrow> mb_settled m \<subseteq># mb_settled m'"
  by (induction rule: mailbox_step.induct) auto

lemma mailbox_step_lost:
  "mailbox_step n m m' \<Longrightarrow> mb_lost m' \<noteq> mb_lost m \<Longrightarrow> 0 < n \<Longrightarrow> size (mb_waiting m') = n"
proof (induction rule: mailbox_step.induct)
  case (replace m y x)
  then show ?case by (auto dest!: multi_member_split)
next
  case (bounce X m W D)
  then have "D \<noteq> {#}" by auto
  then have "0 < size D" by (simp add: nonempty_has_size)
  moreover have "size (mb_waiting m + X) = size W + size D" using bounce(2) by simp
  ultimately show ?case using bounce(3) by simp
qed auto

section \<open>The queue refines the mailbox\<close>

definition mailbox_of :: "('a, 'r) sys \<Rightarrow> 'a obj mailbox" where
  "mailbox_of s = \<lparr>mb_waiting = mset (ln_items (sy_lane s)), mb_flying = mset (flying s),
     mb_settled = mset (sy_settled s), mb_lost = mset (sy_lost s)\<rparr>"

lemma flying_without:
  assumes "i < length (sy_flights s)" "sy_flights s ! i = (xs, ks)"
  shows "mset (flying s) = mset xs + mset (concat (map fst (without_flight i (sy_flights s))))"
  using without_flight_flying(1) [OF assms] by (simp add: flying_def)

lemma queue_simulates:
  assumes inv: "sys_inv n s" and n: "0 < n" and step: "sys_step K R policy n s s'"
  shows "mailbox_step n (mailbox_of s) (mailbox_of s')"
  using step
proof cases
  case (add x key L' fails' r')
  note i = sys_invD [OF inv]
  note items = add_round_added(1) [OF i(1) n add(4)]
  have fl: "flying s' = flying s" by (simp add: add(1) flying_def)
  show ?thesis
  proof (cases "lane_full n (sy_lane s)")
    case False
    then have "size (mb_waiting (mailbox_of s)) < n" by (simp add: mailbox_of_def lane_full_def)
    from mailbox_step.post [OF this, of x] show ?thesis
      using False items fl by (simp add: add(1) mailbox_of_def)
  next
    case True
    then obtain y q where q: "ln_items (sy_lane s) = y # q" using n by (cases "ln_items (sy_lane s)") (auto simp: lane_full_def)
    have "size (mb_waiting (mailbox_of s)) = n" "y \<in># mb_waiting (mailbox_of s)"
      using True q lane_wfD(1) [OF i(1)] by (simp_all add: mailbox_of_def lane_full_def)
    from mailbox_step.replace [OF this, of x] show ?thesis
      using True items fl q by (simp add: add(1) mailbox_of_def)
  qed
next
  case (drain xs ks L')
  then have "xs = ln_items (sy_lane s)" "ln_items L' = []"
    using flush_with_keys_spec [OF sys_invD(1) [OF inv]] by auto
  with mailbox_step.collect [of n "mailbox_of s"] show ?thesis by (simp add: drain(1) mailbox_of_def flying_def)
next
  case (sent i xs ks)
  note f = flying_without [OF sent(2,3)]
  have "mset xs \<subseteq># mb_flying (mailbox_of s)" using f by (simp add: mailbox_of_def)
  from mailbox_step.settle [OF this] show ?thesis
    using f by (simp add: sent(1) mailbox_of_def) (simp add: flying_def)
next
  case (failed i xs ks res L')
  let ?q = "xs @ ln_items (sy_lane s)"
  note f = flying_without [OF failed(2,3)]
  have mem: "(xs, ks) \<in> set (sy_flights s)" using failed(2,3) nth_mem by force
  note i = sys_invD [OF inv]
  have "mset (ln_items (sy_lane s) @ flying s) = mset (?q @ concat (map fst (without_flight i (sy_flights s))))"
    using f by simp
  then have "distinct (map fst (?q @ concat (map fst (without_flight i (sy_flights s)))))"
    using i(2) distinct_ids_mset by metis
  then have "distinct (map fst xs)" "ids xs \<inter> ids (ln_items (sy_lane s)) = {}" by (auto simp: Int_Un_distrib)
  with requeue_in_memory_spec [of xs ks n "sy_lane s"] i(1) i(7) [OF mem] n failed(4)
  have items: "ln_items L' = take n ?q" by (auto simp: requeued_def)
  have "mset xs \<subseteq># mb_flying (mailbox_of s)" using f by (simp add: mailbox_of_def)
  moreover have "mb_waiting (mailbox_of s) + mset xs = mset (take n ?q) + mset (drop n ?q)"
    using mset_take_drop [of n ?q] by (simp add: mailbox_of_def del: take_append drop_append)
  moreover have "size (mset (take n ?q)) = min n (size (mb_waiting (mailbox_of s) + mset xs))"
    by (simp add: mailbox_of_def min.commute del: take_append)
  ultimately have "mailbox_step n (mailbox_of s) ((mailbox_of s)\<lparr>mb_waiting := mset (take n ?q),
      mb_flying := mb_flying (mailbox_of s) - mset xs, mb_lost := mb_lost (mailbox_of s) + mset (drop n ?q)\<rparr>)"
    by (rule mailbox_step.bounce)
  then show ?thesis
    using f items by (simp add: failed(1) mailbox_of_def del: take_append drop_append) (simp add: flying_def)
next
  case (redis r)
  then show ?thesis by (simp add: mailbox_of_def flying_def mailbox_step.stutter)
qed

text \<open>The parameters of a queue, of which its bound must be positive.\<close>

definition positive_step :: "'a lane_kind \<Rightarrow> 'r redis_handler option \<Rightarrow> overflow_policy \<Rightarrow> nat \<Rightarrow> ('a, 'r) sys \<Rightarrow> ('a, 'r) sys \<Rightarrow> bool" where
  "positive_step K R policy n s s' \<longleftrightarrow> 0 < n \<and> sys_step K R policy n s s'"

interpretation queue_sim: simulation "positive_step K R policy n" "\<lambda>s. \<exists>r. s = sys_init r" "sys_inv n"
    "mailbox_step n" "\<lambda>m. m = mailbox_empty" mailbox_of
  for K R policy n
proof
  fix s :: "('a, 'b) sys"
  assume "\<exists>r. s = sys_init r"
  then show "sys_inv n s \<and> mailbox_of s = mailbox_empty"
    using sys_inv_init by (auto simp: mailbox_of_def mailbox_empty_def sys_init_def empty_lane_def flying_def)
next
  fix s s' :: "('a, 'b) sys"
  assume "sys_inv n s" and "positive_step K R policy n s s'"
  then show "sys_inv n s'" "mailbox_step n (mailbox_of s) (mailbox_of s')"
    using sys_inv_step queue_simulates by (auto simp: positive_step_def)
qed

lemma reachable_steps: "reachable K R policy n r0 s \<Longrightarrow> 0 < n \<Longrightarrow> (positive_step K R policy n)\<^sup>*\<^sup>* (sys_init r0) s"
proof (induction rule: reachable.induct)
  case (step s s')
  then show ?case by (simp add: positive_step_def rtranclp.rtrancl_into_rtrancl)
qed simp

text \<open>
  C7: the queue of the buffer, with any interleaving of writers and flushes, refines the bounded
  mailbox. Every reachable state abstracts to a state the mailbox reaches from empty, every further
  step is a step of the mailbox (posting one item, replacing one in a full queue, collecting, settling
  or bouncing a batch, or nothing), what was settled stays settled, and a step that loses an item
  leaves the queue full.
\<close>

theorem queue_refines_mailbox:
  assumes "reachable K R policy n r0 s" and "0 < n" and "sys_step K R policy n s s'"
  shows "(mailbox_step n)\<^sup>*\<^sup>* mailbox_empty (mailbox_of s) \<and> mailbox_step n (mailbox_of s) (mailbox_of s')
    \<and> mset (sy_settled s) \<subseteq># mset (sy_settled s')
    \<and> (mset (sy_lost s') \<noteq> mset (sy_lost s) \<longrightarrow> length (ln_items (sy_lane s')) = n)"
proof -
  have "sys_inv n s \<and> (mailbox_step n)\<^sup>*\<^sup>* mailbox_empty (mailbox_of s)"
    using queue_sim.runs [OF _ reachable_steps [OF assms(1,2)]] by blast
  moreover from this have "mailbox_step n (mailbox_of s) (mailbox_of s')"
    using queue_simulates [OF _ assms(2,3)] by blast
  moreover from this have "mb_settled (mailbox_of s) \<subseteq># mb_settled (mailbox_of s')"
      "mb_lost (mailbox_of s') \<noteq> mb_lost (mailbox_of s) \<longrightarrow> size (mb_waiting (mailbox_of s')) = n"
    using mailbox_step_settled mailbox_step_lost [OF _ _ assms(2)] by blast+
  ultimately show ?thesis by (simp add: mailbox_of_def)
qed

theorem queue_refines_mailbox_witness:
  "(mailbox_step 1)\<^sup>*\<^sup>* mailbox_empty (mailbox_of sample_s4)
    \<and> mb_lost (mailbox_of sample_s4) = {#(2, 20)#} \<and> mb_waiting (mailbox_of sample_s4) = {#(1, 10)#}"
proof -
  have "sys_step sample_kind None Drop 1 sample_s4 (sample_s4\<lparr>sy_redis := ()\<rparr>)" by (rule sys_step.redis)
  from queue_refines_mailbox [OF sample_reachable _ this] show ?thesis
    by (simp add: mailbox_of_def sample_states)
qed

end
