(* ===== verification/Durability.thy ===== *)
theory Durability
  imports Interleave
begin

text \<open>
  Durability across a crash: what a new process loads from Redis covers everything that waited or
  was being sent in the old one. The queue is run with a Redis handler that works; each object gets
  a fresh key, a send that was answered has its keys confirmed later, one by one and interleaved
  with everything else. The crash may come between any two steps.
\<close>

section \<open>A Redis handler that works\<close>

text \<open>
  The documented behaviour of \<open>RedisHandlerProtocol\<close>, over an unknown state of which \<open>store\<close> reads
  the records: a set is read back, a deleted key is gone, and the listing of a namespace has each
  of its keys once, qualified by the namespace and by a prefix of the handler's own. Records are
  taken before their hour of life is over.
\<close>

definition reliable_redis :: "'r redis_handler \<Rightarrow> string \<Rightarrow> ('r \<Rightarrow> string \<times> string \<Rightarrow> string option) \<Rightarrow> bool" where
  "reliable_redis h pre store \<longleftrightarrow>
     (\<forall>ns k r. \<exists>r'. rh_get_key h ns k r = (Inr (store r (ns, k)), r') \<and> store r' = store r)
   \<and> (\<forall>ns k v ttl r. \<exists>r'. rh_set_key h ns k v ttl r = (Inr (), r') \<and> store r' = (store r)((ns, k) \<mapsto> v))
   \<and> (\<forall>ns k r. \<exists>r'. rh_delete h ns k r = (Inr (), r') \<and> store r' = (store r)((ns, k) := None))
   \<and> (\<forall>ns r. \<exists>r' ps. rh_keys h (ns @ '':*'') r = (Inr (Some (map (\<lambda>k. pre @ ns @ '':'' @ k) ps)), r')
        \<and> store r' = store r \<and> distinct ps \<and> set ps = {k. store r (ns, k) \<noteq> None})"

text \<open>What is encoded is not empty and is decoded to the same value.\<close>

definition faithful_kind :: "'a lane_kind \<Rightarrow> bool" where
  "faithful_kind K \<longleftrightarrow> (\<forall>v. \<exists>t. lk_dump K v = Inr t \<and> t \<noteq> [] \<and> lk_load K t = Inr (Some v))"

definition record_text :: "'a lane_kind \<Rightarrow> 'a \<Rightarrow> string option" where
  "record_text K v = (case lk_dump K v of Inl _ \<Rightarrow> None | Inr t \<Rightarrow> Some t)"

lemma faithful_kindD:
  assumes "faithful_kind K"
  obtains t where "lk_dump K v = Inr t" "record_text K v = Some t" "t \<noteq> []" "lk_load K t = Inr (Some v)"
  using assms by (fastforce simp: faithful_kind_def record_text_def)

lemma record_text_inj: "faithful_kind K \<Longrightarrow> record_text K v = record_text K w \<Longrightarrow> v = w"
  by (metis faithful_kindD option.inject sum.inject(2))

text \<open>The records of one namespace.\<close>

definition ns_store :: "('r \<Rightarrow> string \<times> string \<Rightarrow> string option) \<Rightarrow> 'a lane_kind \<Rightarrow> 'r \<Rightarrow> string \<Rightarrow> string option" where
  "ns_store store K r = (\<lambda>k. store r (lk_namespace K, k))"

lemma confirm_one:
  assumes "reliable_redis h pre store"
  shows "\<exists>r'. confirm_keys (Some h) (lk_namespace K) [k] r = (Inr (), r')
    \<and> ns_store store K r' = (if k = [] then ns_store store K r else (ns_store store K r)(k := None))"
proof -
  obtain r' where "rh_delete h (lk_namespace K) k r = (Inr (), r')" "store r' = (store r)((lk_namespace K, k) := None)"
    using assms unfolding reliable_redis_def by meson
  then show ?thesis by (auto simp: ns_store_def fun_eq_iff)
qed

text \<open>The confirmation of a batch is that of its keys, one after the other.\<close>

lemma confirm_keys_append:
  "confirm_keys R ns (ks @ ks') r = (case confirm_keys R ns ks r of
     (Inl e, r') \<Rightarrow> (Inl e, r') | (Inr _, r') \<Rightarrow> confirm_keys R ns ks' r')"
proof (cases R)
  case (Some h)
  show ?thesis unfolding Some
    by (induction ks arbitrary: r) (auto split: prod.split sum.split)
qed simp

section \<open>Pending objects and their records\<close>

text \<open>
  Pending objects \<open>P\<close>, the keys they were given, the keys \<open>stale\<close> of settled or dropped objects whose
  deletion is still to come, and the records: every pending object has its own key and its record
  there, and every record is that of a pending object or stale.
\<close>

definition recorded ::
  "'a lane_kind \<Rightarrow> (oid \<Rightarrow> string option) \<Rightarrow> 'a obj list \<Rightarrow> string list \<Rightarrow> (string \<Rightarrow> string option) \<Rightarrow> bool" where
  "recorded K m P stale st \<longleftrightarrow>
     distinct (map (key_text m) P @ stale)
   \<and> (\<forall>x \<in> set P. m (fst x) \<noteq> None)
   \<and> (\<forall>k \<in> set (map (key_text m) P @ stale). k \<noteq> [] \<and> CHR '':'' \<notin> set k)
   \<and> (\<forall>x \<in> set P. st (key_text m x) = record_text K (snd x))
   \<and> dom st \<subseteq> set (map (key_text m) P @ stale)
   \<and> ran st \<subseteq> {t. \<exists>v. record_text K v = Some t}"

lemma recorded_mset:
  assumes "mset P = mset P'"
  shows "recorded K m P stale st = recorded K m P' stale st"
proof -
  have "set P = set P'" using assms by (rule mset_eq_setD)
  moreover have "distinct (map (key_text m) P @ stale) = distinct (map (key_text m) P' @ stale)"
    using assms by (intro mset_eq_imp_distinct_iff) simp
  ultimately show ?thesis by (simp add: recorded_def)
qed

lemma recorded_empty: "recorded K m [] [] Map.empty"
  by (simp add: recorded_def)

lemma recorded_settle:
  "recorded K m (X @ P) stale st \<Longrightarrow> recorded K m P (stale @ map (key_text m) X) st"
  by (auto simp: recorded_def)

lemma recorded_confirm:
  assumes r: "recorded K m P (a @ k # b) st"
  shows "recorded K m P (a @ b) (st(k := None))"
proof -
  have "\<forall>x \<in> set P. key_text m x \<noteq> k" using r by (auto simp: recorded_def)
  then show ?thesis using r ran_upd_None_subset [of st k] by (auto simp: recorded_def)
qed

lemma recorded_post:
  assumes r: "recorded K m P stale st" and K: "faithful_kind K" and x: "fst x \<notin> ids P"
    and k: "k \<noteq> []" "CHR '':'' \<notin> set k" "k \<notin> set stale" "st k = None"
  shows "recorded K (m(fst x \<mapsto> k)) (P @ [x]) stale (st(k := record_text K (snd x)))"
proof -
  let ?m = "m(fst x \<mapsto> k)"
  have same: "key_text ?m y = key_text m y" "?m (fst y) = m (fst y)" if "y \<in> set P" for y
  proof -
    have "fst y \<noteq> fst x" using x ids_mem [OF that] by metis
    then show "key_text ?m y = key_text m y" "?m (fst y) = m (fst y)" by (simp_all add: key_text_def)
  qed
  have new: "key_text ?m x = k" by (simp add: key_text_def)
  have other: "key_text m y \<noteq> k" if "y \<in> set P" for y
  proof
    assume "key_text m y = k"
    then have "record_text K (snd y) = None" using r k(4) that by (auto simp: recorded_def)
    then show False using faithful_kindD [OF K, of "snd y"] by (metis option.distinct(1))
  qed
  then have img: "k \<notin> key_text m ` set P" by auto
  have keys: "map (key_text ?m) P = map (key_text m) P" using same(1) by simp
  have dom: "dom (st(k := record_text K (snd x))) \<subseteq> insert k (dom st)" by (auto split: if_splits)
  have ran: "ran (st(k := record_text K (snd x))) \<subseteq> {t. \<exists>v. record_text K v = Some t}"
    using r ran_upd_subset [of st k "record_text K (snd x)"] by (auto simp: recorded_def)
  show ?thesis
    using r k(1-3) same new other img dom ran unfolding recorded_def map_append keys
    by auto
qed

section \<open>The queue with its records\<close>

definition pending :: "('a, 'r) sys \<Rightarrow> 'a obj list" where
  "pending s = ln_items (sy_lane s) @ flying s"

text \<open>
  The steps, on a queue and the keys still to be deleted: those of \<open>sys_step\<close>, where an add gives a key
  that is new and answered or evicted objects leave their keys behind, and the deletion of one key.
\<close>

inductive durable_step ::
  "'a lane_kind \<Rightarrow> 'r redis_handler \<Rightarrow> ('r \<Rightarrow> string \<times> string \<Rightarrow> string option) \<Rightarrow> overflow_policy \<Rightarrow> nat
   \<Rightarrow> ('a, 'r) sys \<times> string list \<Rightarrow> ('a, 'r) sys \<times> string list \<Rightarrow> bool"
  for K h store policy n where
  add: "fst x \<notin> ids (pending s) \<Longrightarrow> key \<noteq> [] \<Longrightarrow> CHR '':'' \<notin> set key \<Longrightarrow>
    key \<notin> set stale \<Longrightarrow> ns_store store K (sy_redis s) key = None \<Longrightarrow>
    add_round K (Some h) policy n key x (sy_lane s, sy_fails s, sy_redis s) = (Inr True, L', fails', r') \<Longrightarrow>
    durable_step K h store policy n (s, stale) (s\<lparr>sy_lane := L', sy_fails := fails', sy_redis := r',
      sy_added := sy_added s @ [x],
      sy_lost := sy_lost s @ (if lane_full n (sy_lane s) then [hd (ln_items (sy_lane s))] else []),
      sy_key := (sy_key s)(fst x := ln_keys L' (fst x))\<rparr>, stale)"
| drain: "flush_with_keys (sy_lane s) = (xs, ks, L') \<Longrightarrow>
    durable_step K h store policy n (s, stale) (s\<lparr>sy_lane := L', sy_flights := sy_flights s @ [(xs, ks)]\<rparr>, stale)"
| sent: "i < length (sy_flights s) \<Longrightarrow> sy_flights s ! i = (xs, ks) \<Longrightarrow>
    durable_step K h store policy n (s, stale)
      (s\<lparr>sy_flights := without_flight i (sy_flights s), sy_settled := sy_settled s @ xs\<rparr>, stale @ ks)"
| failed: "i < length (sy_flights s) \<Longrightarrow> sy_flights s ! i = (xs, ks) \<Longrightarrow>
    requeue_in_memory n xs ks (sy_lane s) = (Inr evicted, L') \<Longrightarrow>
    durable_step K h store policy n (s, stale) (s\<lparr>sy_lane := L', sy_flights := without_flight i (sy_flights s),
      sy_lost := sy_lost s @ drop n (xs @ ln_items (sy_lane s))\<rparr>, stale @ evicted)"
| confirm: "confirm_keys (Some h) (lk_namespace K) [k] (sy_redis s) = (res, r') \<Longrightarrow>
    durable_step K h store policy n (s, a @ k # b) (s\<lparr>sy_redis := r'\<rparr>, a @ b)"

lemma durable_step_sys:
  "durable_step K h store policy n p p' \<Longrightarrow> sys_step K (Some h) policy n (fst p) (fst p')"
proof (induction rule: durable_step.induct)
  case (add x s key stale L' fails' r')
  show ?case unfolding fst_conv
    by (rule sys_step.add) (use add in \<open>auto simp: pending_def\<close>)
qed (auto intro: sys_step.intros simp del: drop_append)

inductive durable ::
  "'a lane_kind \<Rightarrow> 'r redis_handler \<Rightarrow> ('r \<Rightarrow> string \<times> string \<Rightarrow> string option) \<Rightarrow> overflow_policy \<Rightarrow> nat
   \<Rightarrow> ('a, 'r) sys \<times> string list \<Rightarrow> bool" for K h store policy n where
  start: "ns_store store K r0 = Map.empty \<Longrightarrow> durable K h store policy n (sys_init r0, [])"
| step: "durable K h store policy n p \<Longrightarrow> durable_step K h store policy n p p' \<Longrightarrow> durable K h store policy n p'"

lemma durable_sys_inv: "durable K h store policy n p \<Longrightarrow> 0 < n \<Longrightarrow> sys_inv n (fst p)"
  by (induction rule: durable.induct) (auto intro: sys_inv_init dest!: durable_step_sys sys_inv_step)

definition durable_inv ::
  "'a lane_kind \<Rightarrow> ('r \<Rightarrow> string \<times> string \<Rightarrow> string option) \<Rightarrow> ('a, 'r) sys \<times> string list \<Rightarrow> bool" where
  "durable_inv K store p \<longleftrightarrow>
     recorded K (sy_key (fst p)) (pending (fst p)) (snd p) (ns_store store K (sy_redis (fst p)))"

section \<open>An add\<close>

lemma append_item_stores:
  assumes red: "reliable_redis h pre store" and K: "faithful_kind K"
    and a: "append_item K (Some h) n key x (L, fails, r) = (res, L', fails', r')"
  shows "ln_keys L' (fst x) = Some key"
    and "ns_store store K r' = (ns_store store K r)(key := record_text K (snd x))"
proof -
  obtain t where t: "lk_dump K (snd x) = Inr t" "record_text K (snd x) = Some t"
    by (rule faithful_kindD [OF K])
  obtain r1 where "rh_set_key h (lk_namespace K) key t 3600 r = (Inr (), r1)"
      "store r1 = (store r)((lk_namespace K, key) \<mapsto> t)"
    using red unfolding reliable_redis_def by meson
  then show "ln_keys L' (fst x) = Some key"
    "ns_store store K r' = (ns_store store K r)(key := record_text K (snd x))"
    using a t by (auto simp: append_item_def persist_item_def Let_def ns_store_def fun_eq_iff)
qed

lemma resolve_overflow_drop_store:
  assumes red: "reliable_redis h pre store" and wf: "lane_wf n L" and n: "0 < n"
    and full: "lane_full n L"
    and o: "resolve_overflow K (Some h) policy n (L, r) = (Inr False, L', r')"
  shows "ns_store store K r' = (case ln_keys L (fst (hd (ln_items L))) of
     None \<Rightarrow> ns_store store K r | Some k \<Rightarrow> (ns_store store K r)(k := None))"
proof -
  from full n obtain z zs where z: "ln_items L = z # zs" by (cases "ln_items L") (auto simp: lane_full_def)
  show ?thesis
  proof (cases "ln_keys L (fst z)")
    case None
    then show ?thesis using o full z
      by (auto simp: resolve_overflow_def forget_oldest_key_def split: overflow_policy.splits)
  next
    case (Some k)
    moreover obtain r1 where "confirm_keys (Some h) (lk_namespace K) [k] r = (Inr (), r1)"
        "ns_store store K r1 = (if k = [] then ns_store store K r else (ns_store store K r)(k := None))"
      using confirm_one [OF red] by blast
    moreover have "k \<noteq> []" using tracked_nonempty [OF wf] Some by metis
    ultimately show ?thesis using o full z
      by (auto simp: resolve_overflow_def forget_oldest_key_def split: overflow_policy.splits)
  qed
qed

section \<open>Every step keeps the records\<close>

lemma durable_inv_add:
  assumes red: "reliable_redis h pre store" and K: "faithful_kind K" and n: "0 < n"
    and sys: "sys_inv n s" and inv: "durable_inv K store (s, stale)"
    and fresh: "fst x \<notin> ids (pending s)" and key: "key \<noteq> []" "CHR '':'' \<notin> set key" "key \<notin> set stale"
      "ns_store store K (sy_redis s) key = None"
    and a: "add_round K (Some h) policy n key x (sy_lane s, sy_fails s, sy_redis s) = (Inr True, L', fails', r')"
  shows "durable_inv K store (s\<lparr>sy_lane := L', sy_fails := fails', sy_redis := r', sy_added := A, sy_lost := D,
      sy_key := (sy_key s)(fst x := ln_keys L' (fst x))\<rparr>, stale)"
proof -
  note i = sys_invD [OF sys]
  let ?m = "sy_key s" and ?L = "sy_lane s" and ?st = "ns_store store K (sy_redis s)"
  obtain L1 r1 f1 res2 where o: "resolve_overflow K (Some h) policy n (?L, sy_redis s) = (Inr False, L1, r1)"
      and app: "append_item K (Some h) n key x (L1, sy_fails s, r1) = (res2, L', fails', r')"
    by (rule add_round_appends [OF a])
  note stored = append_item_stores [OF red K app]
  note items = add_round_added(1) [OF i(1) n a]
  have rec: "recorded K ?m (pending s) stale ?st" using inv by (simp add: durable_inv_def)
  let ?P = "(if lane_full n ?L then tl (ln_items ?L) else ln_items ?L) @ flying s"
  have old: "recorded K ?m ?P stale (ns_store store K r1)" "ns_store store K r1 key = None" "fst x \<notin> ids ?P"
  proof -
    show "recorded K ?m ?P stale (ns_store store K r1)"
    proof (cases "lane_full n ?L")
      case False
      with o rec show ?thesis by (simp add: resolve_overflow_def pending_def)
    next
      case True
      with n obtain z zs where z: "ln_items ?L = z # zs" by (cases "ln_items ?L") (auto simp: lane_full_def)
      with rec i(6) obtain k where k: "ln_keys ?L (fst z) = Some k" "key_text ?m z = k"
        by (auto simp: recorded_def pending_def key_text_def)
      have "recorded K ?m (zs @ flying s) (stale @ [k]) ?st"
        using recorded_settle [of K ?m "[z]" "zs @ flying s"] rec z k by (simp add: pending_def)
      then have "recorded K ?m (zs @ flying s) (stale @ []) (?st(k := None))" by (rule recorded_confirm)
      with resolve_overflow_drop_store [OF red i(1) n True o] k z True show ?thesis by simp
    qed
    show "ns_store store K r1 key = None"
    proof (cases "lane_full n ?L")
      case False
      with o key(4) show ?thesis by (simp add: resolve_overflow_def)
    next
      case True
      from resolve_overflow_drop_store [OF red i(1) n True o] key(4) show ?thesis
        by (simp split: option.splits)
    qed
    have "set ?P \<subseteq> set (pending s)" by (cases "ln_items ?L") (auto simp: pending_def)
    then have "ids ?P \<subseteq> ids (pending s)" by (rule image_mono)
    with fresh show "fst x \<notin> ids ?P" by blast
  qed
  have "recorded K (?m(fst x \<mapsto> key)) (?P @ [x]) stale (ns_store store K r')"
    unfolding stored(2) by (rule recorded_post [OF old(1) K old(3) key(1-3) old(2)])
  moreover have "mset (?P @ [x]) = mset (ln_items L' @ flying s)" by (simp add: items)
  ultimately have "recorded K (?m(fst x \<mapsto> key)) (ln_items L' @ flying s) stale (ns_store store K r')"
    using recorded_mset by metis
  then show ?thesis using stored(1) by (simp add: durable_inv_def pending_def flying_def)
qed

lemma durable_inv_sent:
  assumes sys: "sys_inv n s" and inv: "durable_inv K store (s, stale)"
    and f: "i < length (sy_flights s)" "sy_flights s ! i = (xs, ks)"
  shows "durable_inv K store (s\<lparr>sy_flights := without_flight i (sy_flights s), sy_settled := S\<rparr>, stale @ ks)"
proof -
  let ?fl = "concat (map fst (without_flight i (sy_flights s)))"
  have "(xs, ks) \<in> set (sy_flights s)" using f nth_mem by force
  then have ks: "ks = map (key_text (sy_key s)) xs" by (rule sys_invD(7) [OF sys])
  have m: "mset (pending s) = mset (xs @ ln_items (sy_lane s) @ ?fl)"
    using without_flight_flying(1) [OF f] by (simp add: pending_def flying_def)
  have "recorded K (sy_key s) (xs @ ln_items (sy_lane s) @ ?fl) stale (ns_store store K (sy_redis s))"
    using inv recorded_mset [OF m] by (simp add: durable_inv_def)
  from recorded_settle [OF this] ks show ?thesis by (simp add: durable_inv_def pending_def flying_def)
qed

lemma durable_inv_failed:
  assumes sys: "sys_inv n s" and n: "0 < n" and inv: "durable_inv K store (s, stale)"
    and f: "i < length (sy_flights s)" "sy_flights s ! i = (xs, ks)"
    and r: "requeue_in_memory n xs ks (sy_lane s) = (Inr evicted, L')"
  shows "durable_inv K store (s\<lparr>sy_lane := L', sy_flights := without_flight i (sy_flights s), sy_lost := D\<rparr>,
     stale @ evicted)"
proof -
  note i = sys_invD [OF sys]
  let ?q = "ln_items (sy_lane s)" and ?m = "sy_key s"
  let ?fl = "concat (map fst (without_flight i (sy_flights s)))"
  have mem: "(xs, ks) \<in> set (sy_flights s)" using f nth_mem by force
  have m: "mset (pending s) = mset ((xs @ ?q) @ ?fl)"
    using without_flight_flying(1) [OF f] by (simp add: pending_def flying_def)
  then have "distinct (map fst ((xs @ ?q) @ ?fl))"
    using i(2) distinct_ids_mset unfolding pending_def by metis
  then have d: "distinct (map fst (xs @ ?q))" "distinct (map fst xs)" "ids xs \<inter> ids ?q = {}" by auto
  have len: "length xs = length ks" using i(7) [OF mem] by simp
  obtain L where L: "requeue_in_memory n xs ks (sy_lane s) = (Inr (evicted_keys n xs ks (sy_lane s)), L)"
      "requeued n xs ks (sy_lane s) L"
    using requeue_in_memory_spec [OF len i(1) n d(2,3)] by blast
  let ?out = "rev (drop n (xs @ ?q))"
  have rec: "recorded K ?m ((xs @ ?q) @ ?fl) stale (ns_store store K (sy_redis s))"
    using inv recorded_mset [OF m] by (simp add: durable_inv_def)
  have "evicted_keys n xs ks (sy_lane s) = map (key_text ?m) ?out"
  proof -
    have "tracked_keys (add_keys xs ks (ln_keys (sy_lane s))) ys = map (key_text ?m) ys" if "set ys \<subseteq> set (xs @ ?q)" for ys
      using that
    proof (induction ys)
      case (Cons y ys)
      then have y: "y \<in> set (xs @ ?q)" by simp
      from restored_keys [OF sys mem d(1) y] have "add_keys xs ks (ln_keys (sy_lane s)) (fst y) = ?m (fst y)" .
      moreover have "?m (fst y) \<noteq> None" using rec y unfolding recorded_def set_append by blast
      ultimately show ?case using Cons by (auto simp: key_text_def)
    qed simp
    moreover have "set ?out \<subseteq> set (xs @ ?q)" by (metis set_drop_subset set_rev)
    ultimately show ?thesis by (simp add: evicted_keys_def del: drop_append)
  qed
  moreover have "mset ((xs @ ?q) @ ?fl) = mset (?out @ take n (xs @ ?q) @ ?fl)"
    using mset_take_drop [of n "xs @ ?q"] by (simp del: drop_append take_append add: ac_simps)
  then have "recorded K ?m (?out @ take n (xs @ ?q) @ ?fl) stale (ns_store store K (sy_redis s))"
    using rec recorded_mset by metis
  note recorded_settle [OF this]
  ultimately show ?thesis
    using r L by (simp add: durable_inv_def pending_def flying_def requeued_def del: drop_append take_append)
qed

lemma durable_inv_step:
  assumes red: "reliable_redis h pre store" and K: "faithful_kind K" and n: "0 < n"
    and step: "durable_step K h store policy n p p'" and sys: "sys_inv n (fst p)" and inv: "durable_inv K store p"
  shows "durable_inv K store p'"
  using step sys inv
proof (induction rule: durable_step.induct)
  case (add x s key stale L' fails' r')
  then show ?case using durable_inv_add [OF red K n] by simp
next
  case (drain s xs ks L' stale)
  then have "ln_items L' = []" "xs = ln_items (sy_lane s)"
    using flush_with_keys_spec [OF sys_invD(1), of n s] by auto
  then have "mset (pending (s\<lparr>sy_lane := L', sy_flights := sy_flights s @ [(xs, ks)]\<rparr>)) = mset (pending s)"
    by (simp add: pending_def flying_def)
  then show ?case using drain recorded_mset by (fastforce simp: durable_inv_def)
next
  case (sent i s xs ks stale)
  then show ?case using durable_inv_sent by simp
next
  case (failed i s xs ks evicted L' stale)
  then show ?case using durable_inv_failed [OF _ n] by simp
next
  case (confirm k s res r' a b)
  obtain r1 where r1: "confirm_keys (Some h) (lk_namespace K) [k] (sy_redis s) = (Inr (), r1)"
      "ns_store store K r1 = (if k = [] then ns_store store K (sy_redis s) else (ns_store store K (sy_redis s))(k := None))"
    using confirm_one [OF red] by blast
  have rec: "recorded K (sy_key s) (pending s) (a @ k # b) (ns_store store K (sy_redis s))"
    using confirm.prems by (simp add: durable_inv_def)
  then have "k \<noteq> []" by (auto simp: recorded_def)
  with recorded_confirm [OF rec] r1 confirm.hyps show ?case
    by (simp add: durable_inv_def pending_def flying_def)
qed

lemma durable_keeps_records:
  assumes "reliable_redis h pre store" and "faithful_kind K" and "0 < n"
  shows "durable K h store policy n p \<Longrightarrow> durable_inv K store p"
proof (induction rule: durable.induct)
  case (start r0)
  then show ?case by (simp add: durable_inv_def sys_init_def pending_def flying_def empty_lane_def recorded_empty)
next
  case (step p p')
  then show ?case using durable_inv_step [OF assms] durable_sys_inv assms(3) by blast
qed

section \<open>Recovery\<close>

lemma load_one_room:
  assumes red: "reliable_redis h pre store" and room: "length (ln_items L) < n"
    and rec: "ns_store store K r p = Some t" "t \<noteq> []" "lk_load K t = Inr (Some v)" and p: "CHR '':'' \<notin> set p"
  shows "\<exists>r'. load_one K h n i (pre @ lk_namespace K @ '':'' @ p) (L, r)
      = (Inr (), L\<lparr>ln_items := ln_items L @ [(i, v)], ln_buffered := ln_buffered L + 1,
                    ln_keys := (ln_keys L)(i \<mapsto> p)\<rparr>, r')
    \<and> ns_store store K r' = ns_store store K r"
proof -
  obtain r' where "rh_get_key h (lk_namespace K) p r = (Inr (store r (lk_namespace K, p)), r')" "store r' = store r"
    using red unfolding reliable_redis_def by meson
  moreover have "after_last (CHR '':'') (pre @ lk_namespace K @ '':'' @ p) = p"
    using after_last_append [OF p, of "pre @ lk_namespace K"] by simp
  moreover have "\<not> lane_full n L" using room by (simp add: lane_full_def)
  ultimately show ?thesis
    using rec room by (simp add: load_one_def Let_def ns_store_def deque_append_room fun_eq_iff)
qed

text \<open>Loading into a lane with room for all: one new object for each listed key, with its value and its key.\<close>

lemma load_all_room:
  assumes red: "reliable_redis h pre store"
    and ps: "\<forall>p \<in> set ps. CHR '':'' \<notin> set p \<and> (\<exists>t. ns_store store K r p = Some t \<and> t \<noteq> [] \<and> lk_load K t = Inr (Some (f p)))"
    and room: "length (ln_items L) + length ps \<le> n" and ids: "\<forall>j \<in> ids (ln_items L). j < i"
  shows "\<exists>L' r'. load_all K h n i (map (\<lambda>k. pre @ lk_namespace K @ '':'' @ k) ps) (L, r) = (Inr (), L', r')
    \<and> map snd (ln_items L') = map snd (ln_items L) @ map f ps
    \<and> map (\<lambda>x. ln_keys L' (fst x)) (ln_items L') = map (\<lambda>x. ln_keys L (fst x)) (ln_items L) @ map Some ps"
  using ps room ids
proof (induction ps arbitrary: i L r)
  case Nil
  then show ?case by simp
next
  case (Cons p ps)
  let ?L = "L\<lparr>ln_items := ln_items L @ [(i, f p)], ln_buffered := ln_buffered L + 1, ln_keys := (ln_keys L)(i \<mapsto> p)\<rparr>"
  obtain t where t: "ns_store store K r p = Some t" "t \<noteq> []" "lk_load K t = Inr (Some (f p))" "CHR '':'' \<notin> set p"
    using Cons.prems(1) by auto
  have "length (ln_items L) < n" using Cons.prems(2) by simp
  from load_one_room [OF red this t] obtain r1 where one:
      "load_one K h n i (pre @ lk_namespace K @ '':'' @ p) (L, r) = (Inr (), ?L, r1)"
      and same: "ns_store store K r1 = ns_store store K r" by blast
  have fresh: "\<forall>j \<in> ids (ln_items ?L). j < Suc i" using Cons.prems(3) by auto
  have "\<exists>L' r'. load_all K h n (Suc i) (map (\<lambda>k. pre @ lk_namespace K @ '':'' @ k) ps) (?L, r1) = (Inr (), L', r')
    \<and> map snd (ln_items L') = map snd (ln_items ?L) @ map f ps
    \<and> map (\<lambda>x. ln_keys L' (fst x)) (ln_items L') = map (\<lambda>x. ln_keys ?L (fst x)) (ln_items ?L) @ map Some ps"
    using Cons.prems(1,2) same by (intro Cons.IH fresh) auto
  moreover have "map (\<lambda>x. ln_keys ?L (fst x)) (ln_items ?L) = map (\<lambda>x. ln_keys L (fst x)) (ln_items L) @ [Some p]"
    using Cons.prems(3) by auto
  ultimately obtain L' r' where "load_all K h n (Suc i) (map (\<lambda>k. pre @ lk_namespace K @ '':'' @ k) ps) (?L, r1) = (Inr (), L', r')"
      "map snd (ln_items L') = map snd (ln_items L) @ map f (p # ps)"
      "map (\<lambda>x. ln_keys L' (fst x)) (ln_items L') = map (\<lambda>x. ln_keys L (fst x)) (ln_items L) @ map Some (p # ps)"
    by auto
  with one show ?case by (intro exI [of _ L'] exI [of _ r']) simp
qed

text \<open>What the listed records say of the pending objects.\<close>

lemma mset_distinct_mono: "distinct xs \<Longrightarrow> distinct ys \<Longrightarrow> set xs \<subseteq> set ys \<Longrightarrow> mset xs \<subseteq># mset ys"
  by (metis List.finite_set mset_set_set subset_imp_msubset_mset_set)

lemma map_pair_zip: "map (\<lambda>y. (f y, g y)) xs = zip (map f xs) (map g xs)"
  by (induction xs) simp_all

lemma recorded_value:
  assumes "recorded K m P stale st" and "p \<in> dom st"
  shows "\<exists>v. st p = record_text K v"
proof -
  from assms(2) obtain t where t: "st p = Some t" by blast
  then have "t \<in> ran st" by (rule ranI)
  with assms(1) obtain v where "record_text K v = Some t" unfolding recorded_def by blast
  with t show ?thesis by metis
qed

lemma recorded_pending:
  assumes rec: "recorded K m P stale st" and K: "faithful_kind K" and x: "x \<in> set P" and f: "st (key_text m x) = record_text K v"
  shows "m (fst x) = Some (key_text m x)" "key_text m x \<in> dom st" "v = snd x"
proof -
  obtain t where "record_text K (snd x) = Some t" by (rule faithful_kindD [OF K])
  moreover have "st (key_text m x) = record_text K (snd x)"
    using rec x unfolding recorded_def by blast
  ultimately show "key_text m x \<in> dom st" "v = snd x"
    using f record_text_inj [OF K, of v "snd x"] by (simp_all add: domI)
  have "m (fst x) \<noteq> None" using rec x unfolding recorded_def by blast
  then show "m (fst x) = Some (key_text m x)" by (auto simp: key_text_def)
qed

lemma recorded_listing:
  assumes rec: "recorded K m P stale st" and K: "faithful_kind K" and ps: "distinct ps" "set ps = dom st"
    and f: "\<And>p. p \<in> set ps \<Longrightarrow> st p = record_text K (f p)"
  shows "length ps \<le> length P + length stale"
    and "mset (map (\<lambda>x. (snd x, m (fst x))) P) \<subseteq># mset (map (\<lambda>p. (f p, Some p)) ps)"
    and "stale = [] \<Longrightarrow> mset (map f ps) = mset (map snd P)"
proof -
  have sub: "set ps \<subseteq> set (map (key_text m) P @ stale)" using rec ps(2) by (simp add: recorded_def)
  from card_mono [OF _ this] have "card (set ps) \<le> card (set (map (key_text m) P @ stale))" by simp
  also have "\<dots> \<le> length (map (key_text m) P @ stale)" by (rule card_length)
  finally show "length ps \<le> length P + length stale" using distinct_card [OF ps(1)] by simp
  have dP: "distinct (map (key_text m) P)" using rec by (simp add: recorded_def)
  have at: "m (fst x) = Some (key_text m x)" "key_text m x \<in> set ps" "f (key_text m x) = snd x" if x: "x \<in> set P" for x
  proof -
    obtain t where "record_text K (snd x) = Some t" by (rule faithful_kindD [OF K])
    with rec x have "key_text m x \<in> dom st" unfolding recorded_def by (metis domI)
    with ps(2) have p: "key_text m x \<in> set ps" by simp
    with recorded_pending [OF rec K x f [OF p]]
    show "m (fst x) = Some (key_text m x)" "key_text m x \<in> set ps" "f (key_text m x) = snd x" by simp_all
  qed
  have kP: "set (map (key_text m) P) \<subseteq> set ps" using at(2) by auto
  have "map (\<lambda>x. (snd x, m (fst x))) P = map (\<lambda>p. (f p, Some p)) (map (key_text m) P)"
    using at by simp
  moreover have "mset (map (\<lambda>p. (f p, Some p)) (map (key_text m) P)) \<subseteq># mset (map (\<lambda>p. (f p, Some p)) ps)"
    unfolding mset_map [of _ ps] mset_map [of _ "map (key_text m) P"]
    by (rule image_mset_subseteq_mono) (rule mset_distinct_mono [OF dP ps(1) kP])
  ultimately show "mset (map (\<lambda>x. (snd x, m (fst x))) P) \<subseteq># mset (map (\<lambda>p. (f p, Some p)) ps)"
    by metis
  assume "stale = []"
  with sub kP have "set ps = set (map (key_text m) P)" by simp
  with dP ps(1) have "mset ps = mset (map (key_text m) P)" by (metis set_eq_iff_mset_eq_distinct)
  then have "mset (map f ps) = mset (map f (map (key_text m) P))" unfolding mset_map [of f] by simp
  also have "map f (map (key_text m) P) = map snd P" using at(3) by simp
  finally show "mset (map f ps) = mset (map snd P)" .
qed


section \<open>A concrete store\<close>

text \<open>A handler over an association list, and a codec that writes a number as a run of marks.\<close>

type_synonym records = "((string \<times> string) \<times> string) list"

definition assoc_redis :: "records redis_handler" where
  "assoc_redis = \<lparr>rh_get_key = (\<lambda>ns k r. (Inr (map_of r (ns, k)), r)),
     rh_set_key = (\<lambda>ns k v ttl r. (Inr (), ((ns, k), v) # r)),
     rh_delete = (\<lambda>ns k r. (Inr (), filter (\<lambda>e. fst e \<noteq> (ns, k)) r)),
     rh_keys = (\<lambda>pat r. (Inr (Some (map (\<lambda>k. ''app:'' @ take (length pat - 2) pat @ '':'' @ k)
       (remdups (map (snd \<circ> fst) (filter (\<lambda>e. fst (fst e) = take (length pat - 2) pat) r))))), r))\<rparr>"

lemma map_of_filter_other: "map_of (filter (\<lambda>e. fst e \<noteq> k) r) = (map_of r)(k := None)"
  by (induction r) (auto simp: fun_eq_iff)

lemma assoc_redis_reliable: "reliable_redis assoc_redis ''app:'' map_of"
proof -
  have "set (map (snd \<circ> fst) (filter (\<lambda>e. fst (fst e) = ns) r)) = {k. map_of r (ns, k) \<noteq> None}" for ns and r :: records
    by (force simp: map_of_eq_None_iff)
  then have "\<exists>r' ps. rh_keys assoc_redis (ns @ '':*'') r = (Inr (Some (map (\<lambda>k. ''app:'' @ ns @ '':'' @ k) ps)), r')
      \<and> map_of r' = map_of r \<and> distinct ps \<and> set ps = {k. map_of r (ns, k) \<noteq> None}" for ns r
    by (intro exI [of _ r] exI [of _ "remdups (map (snd \<circ> fst) (filter (\<lambda>e. fst (fst e) = ns) r))"])
       (simp add: assoc_redis_def del: set_map)
  then show ?thesis
    unfolding reliable_redis_def by (simp add: assoc_redis_def map_of_filter_other)
qed

definition tally_kind :: "nat lane_kind" where
  "tally_kind = \<lparr>lk_namespace = ''agent_events'', lk_prefix = ''event'', lk_full_message = ''Event buffer full'',
     lk_dump = (\<lambda>v. Inr (replicate (Suc v) (CHR ''x''))), lk_load = (\<lambda>t. Inr (Some (length t - 1)))\<rparr>"

lemma tally_faithful: "faithful_kind tally_kind"
  by (simp add: faithful_kind_def tally_kind_def)

text \<open>Two objects are added; the first is being sent when the process dies.\<close>

definition tally_sys :: "nat obj list \<Rightarrow> (nat obj list \<times> string list) list \<Rightarrow> records \<Rightarrow> (oid \<Rightarrow> string option) \<Rightarrow> (oid \<Rightarrow> string option)
    \<Rightarrow> int \<Rightarrow> nat obj list \<Rightarrow> (nat, records) sys" where
  "tally_sys xs flights r keys m flushed added = \<lparr>sy_lane = \<lparr>ln_items = xs, ln_keys = keys, ln_buffered = int (length added),
     ln_flushed = flushed, ln_dropped = 0\<rparr>, sy_fails = 0, sy_redis = r, sy_flights = flights, sy_added = added,
     sy_settled = [], sy_lost = [], sy_key = m\<rparr>"

abbreviation tally_step :: "(nat, records) sys \<times> string list \<Rightarrow> (nat, records) sys \<times> string list \<Rightarrow> bool" where
  "tally_step \<equiv> durable_step tally_kind assoc_redis map_of Drop 3"

lemma tally_add:
  assumes "ids xs \<union> ids (concat (map fst fl)) \<subseteq> {0..<i}" "length xs < 2" "k \<noteq> []" "CHR '':'' \<notin> set k"
    "map_of r (''agent_events'', k) = None"
  shows "tally_step (tally_sys xs fl r keys m f added, [])
    (tally_sys (xs @ [(i, v)]) fl (((''agent_events'', k), replicate (Suc v) (CHR ''x'')) # r) (keys(i \<mapsto> k)) (m(i \<mapsto> k)) f
      (added @ [(i, v)]), [])"
proof -
  let ?s = "tally_sys xs fl r keys m f added"
  have "i \<notin> ids xs \<union> ids (concat (map fst fl))" using assms(1) by (meson atLeastLessThan_iff less_irrefl subsetD)
  then have "i \<notin> ids (pending ?s)" by (simp add: pending_def flying_def tally_sys_def image_Un)
  moreover have "add_round tally_kind (Some assoc_redis) Drop 3 k (i, v) (sy_lane ?s, sy_fails ?s, sy_redis ?s)
    = (Inr True, \<lparr>ln_items = xs @ [(i, v)], ln_keys = keys(i \<mapsto> k), ln_buffered = int (length added) + 1, ln_flushed = f,
        ln_dropped = 0\<rparr>, 0, ((''agent_events'', k), replicate (Suc v) (CHR ''x'')) # r)"
    using assms(2) by (simp add: add_round_def resolve_overflow_def lane_full_def append_item_def persist_item_def tally_sys_def
        tally_kind_def assoc_redis_def deque_append_def Let_def)
  moreover have "ns_store map_of tally_kind (sy_redis ?s) k = None"
    using assms(5) by (simp add: ns_store_def tally_kind_def tally_sys_def)
  ultimately show ?thesis
    using durable_step.add [of "(i, v)" ?s k "[]" map_of tally_kind assoc_redis Drop 3] assms(2-4)
    by (simp add: tally_sys_def lane_full_def ac_simps)
qed

definition crashed :: "(nat, records) sys" where
  "crashed = tally_sys [(2, 20)] [([(1, 10)], [''k1''])]
     [((''agent_events'', ''k2''), replicate 21 (CHR ''x'')), ((''agent_events'', ''k1''), replicate 11 (CHR ''x''))]
     [2 \<mapsto> ''k2''] [1 \<mapsto> ''k1'', 2 \<mapsto> ''k2''] 1 [(1, 10), (2, 20)]"

lemma crashed_durable: "durable tally_kind assoc_redis map_of Drop 3 (crashed, [])"
proof -
  let ?r1 = "[((''agent_events'', ''k1''), replicate (Suc 10) (CHR ''x''))]"
  let ?s0 = "tally_sys [] [] [] Map.empty Map.empty 0 []"
  let ?s1 = "tally_sys [(1, 10)] [] ?r1 [1 \<mapsto> ''k1''] [1 \<mapsto> ''k1''] 0 [(1, 10)]"
  let ?s2 = "tally_sys [] [([(1, 10)], [''k1''])] ?r1 Map.empty [1 \<mapsto> ''k1''] 1 [(1, 10)]"
  have "durable tally_kind assoc_redis map_of Drop 3 (?s0, [])"
    using durable.start [of map_of tally_kind "[]" assoc_redis Drop 3]
    by (simp add: ns_store_def sys_init_def empty_lane_def tally_sys_def fun_eq_iff)
  moreover have "tally_step (?s0, []) (?s1, [])"
    using tally_add [of "[]" "[]" 1 "''k1''" "[]" Map.empty Map.empty 0 "[]" 10] by simp
  moreover have "tally_step (?s1, []) (?s2, [])"
    using durable_step.drain [of ?s1 "[(1, 10)]" "[''k1'']" "sy_lane ?s2"]
    by (simp add: tally_sys_def flush_with_keys_def fun_eq_iff)
  moreover have "tally_step (?s2, []) (crashed, [])"
    using tally_add [of "[]" "[([(1, 10)], [''k1''])]" 2 "''k2''" ?r1 Map.empty "[1 \<mapsto> ''k1'']" 1 "[(1, 10)]" 20]
    by (simp add: crashed_def)
  ultimately show ?thesis by (meson durable.step)
qed


end
