(* ===== verification/Runtime.thy ===== *)
theory Runtime
  imports Utils Sanitize RateLimit Breaker
begin

text \<open>
  The world the transport runs in. A coroutine of the transport is an operation on a run: the
  state of the transport object, a counter of the interactions with the outside, and the trace of
  its effects. Everything that the outside decides (clock readings, replies of the server, random
  bytes, cancellations, what other tasks do to the transport while this one is suspended) is read
  from a record of functions of that counter, so a theorem for every such record is a theorem for
  every behaviour of the outside.
\<close>

section \<open>The outside\<close>

text \<open>A response of the server; \<open>hr_json\<close> is \<open>None\<close> when \<open>response.json()\<close> raises.\<close>

record http_response =
  hr_status :: int
  hr_json :: "pyval option"
  hr_text :: string
  hr_retry_after :: "string option"
  hr_url :: string

text \<open>How an awaited HTTP call ends: with a response, an httpx error, another error, a cancellation.\<close>

datatype net_result =
  Response http_response | NetError string | NetTimeout | NetOther string | NetCancelled

text \<open>
  The attributes of the transport object that change. \<open>tp_client\<close> is the client, with whether it
  is closed. \<open>tp_generation\<close> counts the replacements of the circuit breaker: a call that was
  admitted by a breaker settles with that one, not with its replacement.
\<close>

record transport =
  tp_client :: "bool option"
  tp_pid :: int
  tp_breaker :: circuit_breaker
  tp_limiter :: rate_limiter
  tp_requests_sent :: int
  tp_requests_failed :: int
  tp_bytes_sent :: int
  tp_generation :: nat

record world =
  wd_clock :: "nat \<Rightarrow> time"
  wd_pid :: "nat \<Rightarrow> int"
  wd_random :: "nat \<Rightarrow> string"
  wd_batch_id :: "nat \<Rightarrow> string"
  wd_timestamp :: "nat \<Rightarrow> string"
  wd_reply :: "nat \<Rightarrow> net_result"
  wd_cancel :: "nat \<Rightarrow> bool"
  wd_others :: "nat \<Rightarrow> transport \<Rightarrow> transport"

section \<open>Runs\<close>

datatype data_item = ItemEvent security_event | ItemMetric security_metric

datatype wait_reason = LimiterWait | RetryAfterWait | BackoffWait

text \<open>
  Effects. \<open>Posted\<close> has the URL, the body, the headers of the request, and the dict whose JSON text
  the body carries. \<open>Settled\<close> marks the point where the transport decides that a batch needs no
  further attempt.
\<close>

datatype effect =
    Posted string string "(string \<times> string) list" pydict
  | Got string
  | Replied net_result
  | Slept wait_reason pyfloat
  | Hooked hook_call
  | Settled "data_item list"

text \<open>\<open>rn_data\<close> is the dict of the batch being sent, an object that the redaction updates in place.\<close>

record run =
  rn_transport :: transport
  rn_data :: pydict
  rn_tick :: nat
  rn_trace :: "effect list"

type_synonym 'a op = "run \<Rightarrow> (exn + 'a) \<times> run"

section \<open>Composing operations\<close>

definition ret :: "'a \<Rightarrow> 'a op" where
  "ret x s = (Inr x, s)"

definition throw :: "exn \<Rightarrow> 'a op" where
  "throw e s = (Inl e, s)"

definition bind_op :: "'a op \<Rightarrow> ('a \<Rightarrow> 'b op) \<Rightarrow> 'b op" where
  "bind_op m f s = (case m s of (Inl e, s') \<Rightarrow> (Inl e, s') | (Inr x, s') \<Rightarrow> f x s')"

definition catch_op :: "'a op \<Rightarrow> (exn \<Rightarrow> 'a op) \<Rightarrow> 'a op" where
  "catch_op m h s = (case m s of (Inl e, s') \<Rightarrow> h e s' | (Inr x, s') \<Rightarrow> (Inr x, s'))"

definition always_op :: "'a op \<Rightarrow> (exn + 'a \<Rightarrow> 'b op) \<Rightarrow> 'b op" where
  "always_op m f s = (case m s of (r, s') \<Rightarrow> f r s')"

definition of_result :: "exn + 'a \<Rightarrow> 'a op" where
  "of_result r s = (r, s)"

definition get_transport :: "transport op" where
  "get_transport s = (Inr (rn_transport s), s)"

definition modify_transport :: "(transport \<Rightarrow> transport) \<Rightarrow> unit op" where
  "modify_transport f s = (Inr (), s\<lparr>rn_transport := f (rn_transport s)\<rparr>)"

definition get_data :: "pydict op" where
  "get_data s = (Inr (rn_data s), s)"

definition put_data :: "pydict \<Rightarrow> unit op" where
  "put_data d s = (Inr (), s\<lparr>rn_data := d\<rparr>)"

definition emit :: "effect list \<Rightarrow> unit op" where
  "emit es s = (Inr (), s\<lparr>rn_trace := rn_trace s @ es\<rparr>)"

section \<open>Interactions\<close>

text \<open>Reading a value from the outside, without giving control away.\<close>

definition ask :: "(nat \<Rightarrow> 'a) \<Rightarrow> 'a op" where
  "ask f s = (Inr (f (rn_tick s)), s\<lparr>rn_tick := Suc (rn_tick s)\<rparr>)"

text \<open>An await gives control away: other tasks act on the transport before it resumes.\<close>

definition suspend :: "world \<Rightarrow> unit op" where
  "suspend w s = (Inr (), s\<lparr>rn_transport := wd_others w (rn_tick s) (rn_transport s), rn_tick := Suc (rn_tick s)\<rparr>)"

definition sleep_op :: "world \<Rightarrow> wait_reason \<Rightarrow> pyfloat \<Rightarrow> unit op" where
  "sleep_op w reason d =
     bind_op (emit [Slept reason d]) (\<lambda>_.
     bind_op (ask (wd_cancel w)) (\<lambda>cancelled.
     bind_op (suspend w) (\<lambda>_.
     if cancelled then throw CancelledError else ret ())))"

definition net_exn :: "net_result \<Rightarrow> exn + http_response" where
  "net_exn r = (case r of Response h \<Rightarrow> Inr h | NetError m \<Rightarrow> Inl (HTTPError m) | NetTimeout \<Rightarrow> Inl TimeoutError
     | NetOther m \<Rightarrow> Inl (PlainException m) | NetCancelled \<Rightarrow> Inl CancelledError)"

definition http_op :: "world \<Rightarrow> effect \<Rightarrow> http_response op" where
  "http_op w request =
     bind_op (emit [request]) (\<lambda>_.
     bind_op (ask (wd_reply w)) (\<lambda>r.
     bind_op (suspend w) (\<lambda>_.
     bind_op (emit [Replied r]) (\<lambda>_.
     of_result (net_exn r)))))"

definition fire_hook :: "agent_config \<Rightarrow> string \<Rightarrow> exn \<Rightarrow> pydict \<Rightarrow> unit op" where
  "fire_hook c stage exc context =
     (case fire_error_hook (cf_on_error c) stage exc context of (res, calls) \<Rightarrow>
        bind_op (emit (map Hooked calls)) (\<lambda>_. of_result res))"

text \<open>The last reply of a trace.\<close>

fun reply_of :: "effect \<Rightarrow> net_result option" where
  "reply_of (Replied r) = Some r"
| "reply_of _ = None"

definition replies :: "effect list \<Rightarrow> net_result list" where
  "replies es = List.map_filter reply_of es"

definition last_reply :: "effect list \<Rightarrow> net_result option" where
  "last_reply es = (if replies es = [] then None else Some (last (replies es)))"

section \<open>Specifications\<close>

text \<open>
  \<open>emits m Q E\<close>: from any run, the operation extends the trace by some effects \<open>es\<close>, and either
  returns a value \<open>x\<close> with \<open>Q x es\<close>, or raises \<open>e\<close> with \<open>E e es\<close>.
\<close>

definition emits :: "'a op \<Rightarrow> ('a \<Rightarrow> effect list \<Rightarrow> bool) \<Rightarrow> (exn \<Rightarrow> effect list \<Rightarrow> bool) \<Rightarrow> bool" where
  "emits m Q E \<longleftrightarrow> (\<forall>s. \<exists>es. rn_trace (snd (m s)) = rn_trace s @ es
     \<and> (case fst (m s) of Inr x \<Rightarrow> Q x es | Inl e \<Rightarrow> E e es))"

lemma emitsD:
  assumes "emits m Q E" and "m s = (r, s')"
  obtains es where "rn_trace s' = rn_trace s @ es" "\<And>x. r = Inr x \<Longrightarrow> Q x es" "\<And>e. r = Inl e \<Longrightarrow> E e es"
proof -
  from assms obtain es where "rn_trace s' = rn_trace s @ es" "case r of Inr x \<Rightarrow> Q x es | Inl e \<Rightarrow> E e es"
    unfolding emits_def by (metis fst_conv snd_conv)
  then show ?thesis by (intro that) auto
qed

lemma emits_weaken:
  assumes "emits m Q E" "\<And>x es. Q x es \<Longrightarrow> Q' x es" "\<And>e es. E e es \<Longrightarrow> E' e es"
  shows "emits m Q' E'"
  unfolding emits_def
proof
  fix s
  obtain es where "rn_trace (snd (m s)) = rn_trace s @ es" "case fst (m s) of Inr x \<Rightarrow> Q x es | Inl e \<Rightarrow> E e es"
    using assms(1) unfolding emits_def by blast
  with assms(2,3) show "\<exists>es. rn_trace (snd (m s)) = rn_trace s @ es
      \<and> (case fst (m s) of Inr x \<Rightarrow> Q' x es | Inl e \<Rightarrow> E' e es)"
    by (intro exI [of _ es]) (auto split: sum.splits)
qed

lemma emits_ret: "Q x [] \<Longrightarrow> emits (ret x) Q E"
  by (simp add: emits_def ret_def)

lemma emits_throw: "E e [] \<Longrightarrow> emits (throw e) Q E"
  by (simp add: emits_def throw_def)

lemma emits_of_result: "(\<And>x. r = Inr x \<Longrightarrow> Q x []) \<Longrightarrow> (\<And>e. r = Inl e \<Longrightarrow> E e []) \<Longrightarrow> emits (of_result r) Q E"
  by (simp add: emits_def of_result_def split: sum.split)

lemma emits_get_transport: "(\<And>tp. Q tp []) \<Longrightarrow> emits get_transport Q E"
  by (simp add: emits_def get_transport_def)

lemma emits_modify_transport: "Q () [] \<Longrightarrow> emits (modify_transport f) Q E"
  by (simp add: emits_def modify_transport_def)

lemma emits_get_data: "(\<And>d. Q d []) \<Longrightarrow> emits get_data Q E"
  by (simp add: emits_def get_data_def)

lemma emits_put_data: "Q () [] \<Longrightarrow> emits (put_data d) Q E"
  by (simp add: emits_def put_data_def)

lemma emits_ask: "(\<And>k. Q (f k) []) \<Longrightarrow> emits (ask f) Q E"
  by (simp add: emits_def ask_def)

lemma emits_suspend: "Q () [] \<Longrightarrow> emits (suspend w) Q E"
  by (simp add: emits_def suspend_def)

lemma emits_emit: "Q () es \<Longrightarrow> emits (emit es) Q E"
  by (simp add: emits_def emit_def)

lemma emits_bind:
  assumes m: "emits m R E"
    and f: "\<And>x es. R x es \<Longrightarrow> emits (f x) (\<lambda>y es'. Q y (es @ es')) (\<lambda>e es'. E e (es @ es'))"
  shows "emits (bind_op m f) Q E"
  unfolding emits_def
proof
  fix s
  obtain r s' where ms: "m s = (r, s')" by (meson prod.exhaust)
  obtain es where es: "rn_trace s' = rn_trace s @ es" "\<And>x. r = Inr x \<Longrightarrow> R x es" "\<And>e. r = Inl e \<Longrightarrow> E e es"
    using emitsD [OF m ms] by metis
  show "\<exists>es. rn_trace (snd (bind_op m f s)) = rn_trace s @ es
      \<and> (case fst (bind_op m f s) of Inr x \<Rightarrow> Q x es | Inl e \<Rightarrow> E e es)"
  proof (cases r)
    case (Inl e)
    then show ?thesis using ms es by (auto simp: bind_op_def)
  next
    case (Inr x)
    obtain r2 s2 where fs: "f x s' = (r2, s2)" by (meson prod.exhaust)
    obtain es' where "rn_trace s2 = rn_trace s' @ es'" "\<And>y. r2 = Inr y \<Longrightarrow> Q y (es @ es')"
        "\<And>e. r2 = Inl e \<Longrightarrow> E e (es @ es')"
      using emitsD [OF f [OF es(2) [OF Inr]] fs] by metis
    then show ?thesis using ms fs es(1) Inr by (auto simp: bind_op_def split: sum.split)
  qed
qed

lemma emits_catch:
  assumes m: "emits m Q R"
    and h: "\<And>e es. R e es \<Longrightarrow> emits (h e) (\<lambda>y es'. Q y (es @ es')) (\<lambda>e es'. E e (es @ es'))"
  shows "emits (catch_op m h) Q E"
  unfolding emits_def
proof
  fix s
  obtain r s' where ms: "m s = (r, s')" by (meson prod.exhaust)
  obtain es where es: "rn_trace s' = rn_trace s @ es" "\<And>x. r = Inr x \<Longrightarrow> Q x es" "\<And>e. r = Inl e \<Longrightarrow> R e es"
    using emitsD [OF m ms] by metis
  show "\<exists>es. rn_trace (snd (catch_op m h s)) = rn_trace s @ es
      \<and> (case fst (catch_op m h s) of Inr x \<Rightarrow> Q x es | Inl e \<Rightarrow> E e es)"
  proof (cases r)
    case (Inr x)
    then show ?thesis using ms es by (auto simp: catch_op_def)
  next
    case (Inl e)
    obtain r2 s2 where hs: "h e s' = (r2, s2)" by (meson prod.exhaust)
    obtain es' where "rn_trace s2 = rn_trace s' @ es'" "\<And>y. r2 = Inr y \<Longrightarrow> Q y (es @ es')"
        "\<And>e. r2 = Inl e \<Longrightarrow> E e (es @ es')"
      using emitsD [OF h [OF es(3) [OF Inl]] hs] by metis
    then show ?thesis using ms hs es(1) Inl by (auto simp: catch_op_def split: sum.split)
  qed
qed

text \<open>Steps that leave no trace are passed over.\<close>

lemma emits_pass:
  assumes "emits m (\<lambda>x es. es = [] \<and> P x) (\<lambda>_ _. False)" and "\<And>x. P x \<Longrightarrow> emits (f x) Q E"
  shows "emits (bind_op m f) Q E"
  by (rule emits_bind [OF emits_weaken [OF assms(1)]]) (use assms(2) in auto)

lemma emits_silent:
  "(\<And>k. emits (f (g k)) Q E) \<Longrightarrow> emits (bind_op (ask g) f) Q E"
  "(\<And>tp. emits (f1 tp) Q E) \<Longrightarrow> emits (bind_op get_transport f1) Q E"
  "(\<And>d. emits (f2 d) Q E) \<Longrightarrow> emits (bind_op get_data f2) Q E"
  "emits (f3 ()) Q E \<Longrightarrow> emits (bind_op (modify_transport h) f3) Q E"
  "emits (f3 ()) Q E \<Longrightarrow> emits (bind_op (put_data d) f3) Q E"
  "emits (f3 ()) Q E \<Longrightarrow> emits (bind_op (suspend w) f3) Q E"
       apply (rule emits_pass [where P = "\<lambda>x. \<exists>k. x = g k"], rule emits_ask, blast, blast)
      apply (rule emits_pass [where P = "\<lambda>_. True"], rule emits_get_transport, simp, simp)
     apply (rule emits_pass [where P = "\<lambda>_. True"], rule emits_get_data, simp, simp)
    apply (rule emits_pass [where P = "\<lambda>_. True"], rule emits_modify_transport, simp, simp)
   apply (rule emits_pass [where P = "\<lambda>_. True"], rule emits_put_data, simp, simp)
  apply (rule emits_pass [where P = "\<lambda>_. True"], rule emits_suspend, simp, simp)
  done

lemma emits_emit_bind:
  "emits (f ()) (\<lambda>y es'. Q y (es @ es')) (\<lambda>e es'. E e (es @ es')) \<Longrightarrow> emits (bind_op (emit es) f) Q E"
  by (rule emits_bind [where R = "\<lambda>_ es'. es' = es"]) (auto intro: emits_emit)

text \<open>Continuing with whatever the operation did, a value or an exception.\<close>

lemma emits_always:
  assumes m: "emits m (\<lambda>x. R (Inr x)) (\<lambda>e. R (Inl e))"
    and f: "\<And>r es. R r es \<Longrightarrow> emits (f r) (\<lambda>y es'. Q y (es @ es')) (\<lambda>e es'. E e (es @ es'))"
  shows "emits (always_op m f) Q E"
  unfolding emits_def
proof
  fix s
  obtain r s' where ms: "m s = (r, s')" by (meson prod.exhaust)
  obtain es where es: "rn_trace s' = rn_trace s @ es" "R r es"
    using emitsD [OF m ms] by (metis sum.exhaust)
  obtain r2 s2 where fs: "f r s' = (r2, s2)" by (meson prod.exhaust)
  obtain es' where "rn_trace s2 = rn_trace s' @ es'" "\<And>y. r2 = Inr y \<Longrightarrow> Q y (es @ es')"
      "\<And>e. r2 = Inl e \<Longrightarrow> E e (es @ es')"
    using emitsD [OF f [OF es(2)] fs] by metis
  then show "\<exists>es. rn_trace (snd (always_op m f s)) = rn_trace s @ es
      \<and> (case fst (always_op m f s) of Inr x \<Rightarrow> Q x es | Inl e \<Rightarrow> E e es)"
    using ms fs es(1) by (auto simp: always_op_def split: sum.split)
qed

end
