(* ===== verification/Encryption.thy ===== *)
theory Encryption
  imports PyVal
begin

text \<open>
  The payload encryption (\<open>encryption.py\<close>): the URL-safe Base64 of the standard library, and
  \<open>PayloadEncryptor\<close> around AES-256-GCM. The cipher (the \<open>cryptography\<close> package), the random
  nonces and the JSON text of a payload are arguments. Bytes are characters below 256, as in
  \<open>string\<close>; a Python string is its UTF-8 encoding.
\<close>

section \<open>Base64\<close>

definition sextet_char :: "nat \<Rightarrow> char" where
  "sextet_char v = char_of
     (if v < 26 then 65 + v else if v < 52 then 97 + (v - 26) else if v < 62 then 48 + (v - 52)
      else if v = 62 then 45 else (95 :: nat))"

text \<open>
  The decoder translates the URL-safe characters to the standard ones first, so it takes both; a
  character outside the alphabet has no value.
\<close>

definition sextet :: "char \<Rightarrow> nat option" where
  "sextet ch = (let n = of_char ch in
     if 65 \<le> n \<and> n \<le> 90 then Some (n - 65)
     else if 97 \<le> n \<and> n \<le> 122 then Some (n - 97 + 26)
     else if 48 \<le> n \<and> n \<le> 57 then Some (n - 48 + 52)
     else if n = 45 \<or> n = 43 then Some 62
     else if n = 95 \<or> n = 47 then Some (63 :: nat) else None)"

fun b64_encode :: "string \<Rightarrow> string" where
  "b64_encode [] = []"
| "b64_encode [x] = (let a = of_char x in
     [sextet_char (a div 4), sextet_char ((a mod 4) * 16), CHR ''='', CHR ''=''])"
| "b64_encode [x, y] = (let a = of_char x; b = of_char y in
     [sextet_char (a div 4), sextet_char ((a mod 4) * 16 + b div 16), sextet_char ((b mod 16) * 4), CHR ''=''])"
| "b64_encode (x # y # z # bs) = (let a = of_char x; b = of_char y; c = of_char z in
     [sextet_char (a div 4), sextet_char ((a mod 4) * 16 + b div 16),
      sextet_char ((b mod 16) * 4 + c div 64), sextet_char (c mod 64)] @ b64_encode bs)"

text \<open>
  The loop of \<open>binascii.a2b_base64\<close> in its default, lenient mode: the position in the group of
  four, the bits left over, the number of padding characters just seen. Characters outside the
  alphabet are skipped, a completed padding ends the input.
\<close>

fun b64_loop :: "nat \<Rightarrow> nat \<Rightarrow> nat \<Rightarrow> string \<Rightarrow> exn + string" where
  "b64_loop q l pads [] =
     (if q = 0 then Inr []
      else if q = 1 then Inl (ValueError ''Invalid base64-encoded string'')
      else Inl (ValueError ''Incorrect padding''))"
| "b64_loop q l pads (ch # cs) =
     (if ch = CHR ''='' then
        (if 2 \<le> q then (if 4 \<le> q + Suc pads then Inr [] else b64_loop q l (Suc pads) cs)
         else b64_loop q l pads cs)
      else case sextet ch of
        None \<Rightarrow> b64_loop q l pads cs
      | Some v \<Rightarrow>
          (if q = 0 then b64_loop 1 v 0 cs
           else if q = 1 then map_sum id ((#) (char_of (l * 4 + v div 16))) (b64_loop 2 (v mod 16) 0 cs)
           else if q = 2 then map_sum id ((#) (char_of (l * 16 + v div 4))) (b64_loop 3 (v mod 4) 0 cs)
           else map_sum id ((#) (char_of (l * 64 + v))) (b64_loop 0 0 0 cs)))"

definition urlsafe_b64decode :: "string \<Rightarrow> exn + string" where
  "urlsafe_b64decode s = b64_loop 0 0 0 s"

section \<open>The encryptor\<close>

text \<open>
  \<open>_default_json_handler\<close>, which \<open>cr_dumps\<close> below applies to what JSON cannot hold: a datetime is given by
  its \<open>isoformat()\<close>, a UUID by its text, any other object by the name of its class.
\<close>

datatype json_foreign = DatetimeObject string | UuidObject string | OtherObject string

fun default_json_handler :: "json_foreign \<Rightarrow> exn + string" where
  "default_json_handler (DatetimeObject text) = Inr text"
| "default_json_handler (UuidObject text) = Inr text"
| "default_json_handler (OtherObject class_name) =
     Inl (TypeError (''Object of type '' @ class_name @ '' is not JSON serializable''))"

text \<open>
  The cipher takes key, nonce, data and associated data; \<open>cr_dumps\<close> is the JSON encoder with the
  sorted keys and the default handler of \<open>encrypt\<close>, \<open>cr_loads\<close> the decoder.
\<close>

record crypt =
  cr_encrypt :: "string \<Rightarrow> string \<Rightarrow> string \<Rightarrow> string option \<Rightarrow> exn + string"
  cr_decrypt :: "string \<Rightarrow> string \<Rightarrow> string \<Rightarrow> string option \<Rightarrow> exn + string"
  cr_dumps :: "pyval \<Rightarrow> exn + string"
  cr_loads :: "string \<Rightarrow> exn + pyval"

definition key_size :: nat where
  "key_size = 32"

definition nonce_size :: nat where
  "nonce_size = 12"

text \<open>The text of the exceptions that the codecs and the cipher raise.\<close>

fun error_text :: "exn \<Rightarrow> string" where
  "error_text (ValueError m) = m"
| "error_text (TypeError m) = m"
| "error_text (EncryptionError m) = m"
| "error_text (PlainException m) = m"
| "error_text _ = []"

text \<open>\<open>PayloadEncryptor.__init__\<close>: the encryptor is its key, 32 bytes.\<close>

definition encryptor_init :: "string \<Rightarrow> exn + string" where
  "encryptor_init project_key =
     (if project_key = [] then Inl (EncryptionError ''Project key cannot be empty'')
      else case urlsafe_b64decode project_key of
        Inl e \<Rightarrow> Inl (EncryptionError (''Invalid project key format: '' @ error_text e))
      | Inr key \<Rightarrow>
          if length key \<noteq> key_size
          then Inl (EncryptionError (''Invalid key size: '' @ show_nat (length key) @ '' bytes, expected ''
                     @ show_nat key_size))
          else Inr key)"

text \<open>An empty associated data counts as none.\<close>

definition aad_bytes :: "string option \<Rightarrow> string option" where
  "aad_bytes associated_data = (case associated_data of None \<Rightarrow> None | Some a \<Rightarrow> if a = [] then None else Some a)"

text \<open>The nonce is what \<open>os.urandom(12)\<close> returned.\<close>

definition encrypt_payload :: "crypt \<Rightarrow> string \<Rightarrow> string \<Rightarrow> pyval \<Rightarrow> string option \<Rightarrow> exn + string" where
  "encrypt_payload C key nonce data associated_data =
     (case (case cr_dumps C data of Inl e \<Rightarrow> Inl e
            | Inr json_data \<Rightarrow> cr_encrypt C key nonce json_data (aad_bytes associated_data)) of
        Inl e \<Rightarrow> if catchable e then Inl (EncryptionError (''Failed to encrypt payload: '' @ error_text e)) else Inl e
      | Inr encrypted \<Rightarrow> Inr (b64_encode (nonce @ encrypted)))"

definition decrypt_payload :: "crypt \<Rightarrow> string \<Rightarrow> string \<Rightarrow> string option \<Rightarrow> exn + pyval" where
  "decrypt_payload C key encrypted_data associated_data =
     (case (case urlsafe_b64decode encrypted_data of Inl e \<Rightarrow> Inl e
            | Inr combined \<Rightarrow>
                (case cr_decrypt C key (take nonce_size combined) (drop nonce_size combined)
                        (aad_bytes associated_data) of
                   Inl e \<Rightarrow> Inl e
                 | Inr decrypted \<Rightarrow>
                     if utf8_valid decrypted then cr_loads C decrypted else Inl (ValueError ''invalid utf-8''))) of
        Inl e \<Rightarrow> if catchable e then Inl (EncryptionError ''Invalid or tampered payload'') else Inl e
      | Inr v \<Rightarrow> Inr v)"

definition test_data :: pyval where
  "test_data = PDict [(PStr ''test'', PStr ''verification'')]"

definition verify_key :: "crypt \<Rightarrow> string \<Rightarrow> string \<Rightarrow> exn + bool" where
  "verify_key C key nonce =
     (case (case encrypt_payload C key nonce test_data None of Inl e \<Rightarrow> Inl e
            | Inr encrypted \<Rightarrow> decrypt_payload C key encrypted None) of
        Inr decrypted \<Rightarrow> Inr (decrypted = test_data)
      | Inl (EncryptionError m) \<Rightarrow> Inr False
      | Inl e \<Rightarrow> Inl e)"

definition create_encryptor :: "string option \<Rightarrow> exn + string option" where
  "create_encryptor project_key =
     (case project_key of None \<Rightarrow> Inr None
      | Some k \<Rightarrow> if k = [] then Inr None else map_sum id Some (encryptor_init k))"

section \<open>Facts\<close>

lemma sextet_pad [simp]: "sextet (CHR ''='') = None"
  by (simp add: sextet_def)

lemma sextet_sextet_char [simp]: "v < 64 \<Longrightarrow> sextet (sextet_char v) = Some v"
proof -
  assume "v < 64"
  then consider "v < 26" | "26 \<le> v" "v < 52" | "52 \<le> v" "v < 62" | "v = 62" | "v = 63" by linarith
  then show ?thesis by cases (auto simp: sextet_def sextet_char_def Let_def)
qed

lemma sextet_char_pad [simp]: "v < 64 \<Longrightarrow> sextet_char v \<noteq> CHR ''=''"
  by (metis option.distinct(1) sextet_pad sextet_sextet_char)

text \<open>The bit arithmetic of a group of three bytes.\<close>

lemma byte_bits:
  fixes b :: nat
  assumes "b < 256"
  shows "b div 4 < 64" "b div 16 < 16" "b div 64 < 4"
  using assms by (simp_all add: less_mult_imp_div_less)

lemma low_bits:
  fixes a :: nat
  shows "a mod 4 * 16 < 64" "a mod 16 * 4 < 64" "a mod 64 < 64"
proof -
  have "a mod 4 < 4" "a mod 16 < 16" by simp_all
  then show "a mod 4 * 16 < 64" "a mod 16 * 4 < 64" by linarith+
qed simp

lemma high_low_bits:
  fixes a b :: nat
  assumes "b < 256"
  shows "a mod 4 * 16 + b div 16 < 64" "a mod 16 * 4 + b div 64 < 64"
    "(a mod 4 * 16 + b div 16) div 16 = a mod 4" "(a mod 4 * 16 + b div 16) mod 16 = b div 16"
    "(a mod 16 * 4 + b div 64) div 4 = a mod 16" "(a mod 16 * 4 + b div 64) mod 4 = b div 64"
    "b div 16 div 16 = 0" "b div 16 mod 16 = b div 16" "b div 64 div 4 = 0" "b div 64 mod 4 = b div 64"
proof -
  note b = byte_bits [OF assms]
  have "a mod 4 < 4" "a mod 16 < 16" by simp_all
  with b show "a mod 4 * 16 + b div 16 < 64" "a mod 16 * 4 + b div 64 < 64" by linarith+
qed (use byte_bits [OF assms] in simp_all)

lemma b64_loop_char:
  "v < 64 \<Longrightarrow> b64_loop 0 l p (sextet_char v # cs) = b64_loop 1 v 0 cs"
  "v < 64 \<Longrightarrow> b64_loop (Suc 0) l p (sextet_char v # cs)
     = map_sum id ((#) (char_of (l * 4 + v div 16))) (b64_loop 2 (v mod 16) 0 cs)"
  "v < 64 \<Longrightarrow> b64_loop 2 l p (sextet_char v # cs)
     = map_sum id ((#) (char_of (l * 16 + v div 4))) (b64_loop 3 (v mod 4) 0 cs)"
  "v < 64 \<Longrightarrow> b64_loop 3 l p (sextet_char v # cs) = map_sum id ((#) (char_of (l * 64 + v))) (b64_loop 0 0 0 cs)"
  by simp_all

lemma b64_loop_pad:
  "b64_loop 2 l 0 ''=='' = Inr []" "b64_loop 3 l 0 ''='' = Inr []"
  by simp_all

lemma mult_div_mod_nat: "(a::nat) div 4 * 4 + a mod 4 = a" "(a::nat) div 16 * 16 + a mod 16 = a"
    "(a::nat) div 64 * 64 + a mod 64 = a"
  by simp_all

text \<open>
  Decoding undoes encoding, for any bytes: the lenient decoder skips nothing and stops at the
  padding.
\<close>

lemma b64_decode_encode: "urlsafe_b64decode (b64_encode bs) = Inr bs"
  unfolding urlsafe_b64decode_def
  by (induction bs rule: b64_encode.induct)
     (simp_all add: Let_def b64_loop_char b64_loop_pad byte_bits low_bits high_low_bits mult_div_mod_nat del: b64_loop.simps(2))

text \<open>
  What the model relies on: the cipher is total on proper keys and nonces, adds its tag, and
  decrypts what it encrypted under the same key, nonce and associated data; JSON texts are ASCII
  (the encoder escapes the rest), hence valid UTF-8, and decode to the value they encode.
\<close>

definition crypt_laws :: "crypt \<Rightarrow> bool" where
  "crypt_laws C \<longleftrightarrow>
     (\<forall>key nonce text aad. length key = key_size \<longrightarrow> length nonce = nonce_size \<longrightarrow>
        (\<exists>ct. cr_encrypt C key nonce text aad = Inr ct \<and> cr_decrypt C key nonce ct aad = Inr text))
     \<and> (\<forall>v text. cr_dumps C v = Inr text \<longrightarrow> utf8_valid text)"

text \<open>A payload that JSON carries faithfully.\<close>

definition json_faithful :: "crypt \<Rightarrow> pyval \<Rightarrow> bool" where
  "json_faithful C v \<longleftrightarrow> (\<exists>text. cr_dumps C v = Inr text \<and> cr_loads C text = Inr v)"

lemma b64_encode_empty [simp]: "b64_encode bs = [] \<longleftrightarrow> bs = []"
  by (cases bs rule: b64_encode.cases) (simp_all add: Let_def)

lemma encryptor_init_key: "encryptor_init k = Inr key \<Longrightarrow> length key = key_size"
  by (auto simp: encryptor_init_def split: if_splits sum.splits)

lemma encrypt_decrypt:
  assumes laws: "crypt_laws C" and key: "encryptor_init project_key = Inr key"
    and nonce: "length nonce = nonce_size" and data: "json_faithful C data"
  shows "\<exists>wire. encrypt_payload C key nonce data aad = Inr wire \<and> decrypt_payload C key wire aad = Inr data"
proof -
  obtain js where js: "cr_dumps C data = Inr js" "cr_loads C js = Inr data"
    using data by (auto simp: json_faithful_def)
  obtain ct where ct: "cr_encrypt C key nonce js (aad_bytes aad) = Inr ct"
      "cr_decrypt C key nonce ct (aad_bytes aad) = Inr js"
    using laws encryptor_init_key [OF key] nonce unfolding crypt_laws_def by blast
  have "utf8_valid js" using laws js(1) unfolding crypt_laws_def by blast
  with js ct nonce show ?thesis
    by (simp add: encrypt_payload_def decrypt_payload_def b64_decode_encode)
qed


text \<open>So a proper key passes the check at startup.\<close>

lemma verify_key_ok:
  assumes "crypt_laws C" "encryptor_init project_key = Inr key" "length nonce = nonce_size" "json_faithful C test_data"
  shows "verify_key C key nonce = Inr True"
proof -
  obtain wire where "encrypt_payload C key nonce test_data None = Inr wire"
      "decrypt_payload C key wire None = Inr test_data"
    using encrypt_decrypt [OF assms] by blast
  then show ?thesis by (simp add: verify_key_def)
qed

text \<open>
  Every failure of encryption and decryption is an \<open>EncryptionError\<close>, so callers and \<open>verify_key\<close>
  see no other ordinary exception.
\<close>

lemma encrypt_payload_error:
  "encrypt_payload C key nonce data aad = Inl e \<Longrightarrow> (\<exists>m. e = EncryptionError m) \<or> e = CancelledError"
  by (auto simp: encrypt_payload_def not_catchable split: sum.splits if_splits)

lemma decrypt_payload_error:
  "decrypt_payload C key s aad = Inl e \<Longrightarrow> (\<exists>m. e = EncryptionError m) \<or> e = CancelledError"
  by (auto simp: decrypt_payload_def not_catchable split: sum.splits if_splits)

lemma verify_key_error: "verify_key C key nonce = Inl e \<Longrightarrow> e = CancelledError"
  by (auto simp: verify_key_def split: sum.splits exn.splits
      dest: encrypt_payload_error decrypt_payload_error)

text \<open>A toy cipher for concrete runs: it appends a one-byte tag.\<close>

definition sample_crypt :: crypt where
  "sample_crypt = \<lparr>cr_encrypt = (\<lambda>k n t a. Inr (t @ ''!'')), cr_decrypt = (\<lambda>k n t a. Inr (butlast t)),
     cr_dumps = (\<lambda>v. if v = PInt 7 then Inr ''7'' else Inr ''{}''),
     cr_loads = (\<lambda>s. if s = ''7'' then Inr (PInt 7) else Inr test_data)\<rparr>"

lemma sample_crypt_laws: "crypt_laws sample_crypt"
  by (auto simp: crypt_laws_def sample_crypt_def byte_in_def)


end
