(* ===== verification/Dispatch.thy ===== *)
theory Dispatch
  imports Runtime Encryption
begin

text \<open>
  One request of the transport: the process check and the client, the redaction of the payload,
  the choice between the plain and the encrypted endpoint, signature and compression of the body,
  and the classification of the response (\<open>_transport_dispatch.py\<close>, \<open>_transport_lifecycle.py\<close>,
  \<open>transport.py\<close>, \<open>signing.py\<close>).

  A payload is the dict that the code builds with \<open>model_dump\<close>. What pydantic, httpx, gzip, HMAC
  and the JSON encoder compute is collected in a record, an argument of the operations.
\<close>

section \<open>The library functions and the constant attributes\<close>

record kit =
  kt_values :: codec
  kt_dumps :: "pydict \<Rightarrow> exn + string"
  kt_crypt :: crypt
  kt_hmac_hex :: "string \<Rightarrow> string \<Rightarrow> string"
  kt_gzip :: "string \<Rightarrow> string"
  kt_open_client :: "(string \<times> string) list \<Rightarrow> exn option"
  kt_parse_rules :: "pydict \<Rightarrow> exn + dynamic_rules"
  kt_dump_batch :: "event_batch \<Rightarrow> pydict"
  kt_dump_status :: "agent_status \<Rightarrow> pydict"

text \<open>The attributes that are set when the transport is created and never again.\<close>

record agent_env =
  ae_config :: agent_config
  ae_install_id :: string
  ae_encryptor :: "string option"
  ae_encryption_enabled :: bool

definition agent_version :: string where
  "agent_version = ''3.2.2''"

section \<open>Creation, clients, forks\<close>

definition startup_refused :: exn where
  "startup_refused = EncryptionConfigError ''Encryption round-trip failed at startup; refusing plaintext fallback''"

text \<open>
  \<open>_init_encryption\<close>; the nonce is the one \<open>verify_key\<close> draws. An ordinary exception other than an
  \<open>EncryptionConfigError\<close> becomes one.
\<close>

definition init_encryption :: "crypt \<Rightarrow> agent_config \<Rightarrow> string \<Rightarrow> exn + string option \<times> bool" where
  "init_encryption C c nonce =
     (let give_up = (\<lambda>e. case e of EncryptionConfigError m \<Rightarrow> Inl e
                       | _ \<Rightarrow> if catchable e then Inl startup_refused else Inl e)
      in case cf_encryption_key c of None \<Rightarrow> Inr (None, False)
         | Some project_key \<Rightarrow>
             if project_key = [] then Inr (None, False)
             else (case create_encryptor (Some project_key) of
                 Inl e \<Rightarrow> give_up e
               | Inr None \<Rightarrow> Inl startup_refused
               | Inr (Some key) \<Rightarrow>
                   (case verify_key C key nonce of
                      Inl e \<Rightarrow> give_up e
                    | Inr ok \<Rightarrow> if ok then Inr (Some key, True) else Inl startup_refused)))"

definition transport_init ::
  "crypt \<Rightarrow> agent_config \<Rightarrow> string \<Rightarrow> int \<Rightarrow> string \<Rightarrow> exn + agent_env \<times> transport" where
  "transport_init C c install_id pid nonce =
     (case init_encryption C c nonce of Inl e \<Rightarrow> Inl e
      | Inr (encryptor, enabled) \<Rightarrow> Inr
          (\<lparr>ae_config = c, ae_install_id = install_id, ae_encryptor = encryptor, ae_encryption_enabled = enabled\<rparr>,
           \<lparr>tp_client = None, tp_pid = pid, tp_breaker = circuit_breaker_init 5 60,
            tp_limiter = rate_limiter_init 100 60, tp_requests_sent = 0, tp_requests_failed = 0,
            tp_bytes_sent = 0, tp_generation = 0\<rparr>))"

definition reset_after_fork :: "int \<Rightarrow> transport \<Rightarrow> transport" where
  "reset_after_fork pid tp =
     tp\<lparr>tp_client := None, tp_pid := pid, tp_breaker := circuit_breaker_init 5 60,
        tp_limiter := rate_limiter_init 100 60, tp_requests_sent := 0, tp_requests_failed := 0,
        tp_bytes_sent := 0, tp_generation := Suc (tp_generation tp)\<rparr>"

definition client_headers :: "agent_env \<Rightarrow> (string \<times> string) list" where
  "client_headers env =
     [(''User-Agent'', ''guard-agent/'' @ agent_version), (''Content-Type'', ''application/json''),
      (''X-API-Key'', cf_api_key (ae_config env)), (''X-Agent-Install-Id'', ae_install_id env)]
     @ (case cf_project_id (ae_config env) of None \<Rightarrow> []
        | Some p \<Rightarrow> if p = [] then [] else [(''X-Project-ID'', p)])"

definition initialize :: "kit \<Rightarrow> agent_env \<Rightarrow> unit op" where
  "initialize K env =
     bind_op get_transport (\<lambda>tp.
     if tp_client tp = Some False then ret ()
     else case kt_open_client K (client_headers env) of
       Some e \<Rightarrow> throw e
     | None \<Rightarrow> modify_transport (\<lambda>tp. tp\<lparr>tp_client := Some False\<rparr>))"

definition close_client :: "transport \<Rightarrow> transport" where
  "close_client tp = (if tp_client tp = Some False then tp\<lparr>tp_client := Some True\<rparr> else tp)"

definition ensure_client :: "kit \<Rightarrow> agent_env \<Rightarrow> world \<Rightarrow> unit op" where
  "ensure_client K env w =
     bind_op (ask (wd_pid w)) (\<lambda>pid.
     bind_op (modify_transport (\<lambda>tp. if pid \<noteq> tp_pid tp then reset_after_fork pid tp else tp)) (\<lambda>_.
     bind_op get_transport (\<lambda>tp.
     if tp_client tp = None \<or> tp_client tp = Some True then initialize K env else ret ())))"

section \<open>Responses\<close>

text \<open>A dict or a bool, as the value it is in Python.\<close>

definition handle_200 :: "http_response \<Rightarrow> pyval" where
  "handle_200 response =
     (case hr_json response of None \<Rightarrow> PBool False
      | Some json_data \<Rightarrow> if is_dict json_data then json_data else PBool True)"

definition raise_for_permanent_error :: "int \<Rightarrow> string \<Rightarrow> exn" where
  "raise_for_permanent_error status_code detail =
     (if status_code = 413 then PayloadTooLargeError detail
      else PermanentClientError status_code detail)"

definition non_retryable_status_codes :: "int list" where
  "non_retryable_status_codes = [400, 404, 413, 422]"

definition handle_response :: "http_response \<Rightarrow> exn + pyval" where
  "handle_response response =
     (let status = hr_status response; summary = summarize_response_body (hr_text response) 300
      in if status = 200 then Inr (handle_200 response)
         else if status = 201 then Inr (PBool True)
         else if status = 429 then
           Inl (RateLimitedError (parse_retry_after_seconds (hr_retry_after response) (Fin 60)))
         else if status = 401 \<or> status = 403 then
           Inl (PlainException (''Authentication failed: '' @ show_int status))
         else if status \<in> set non_retryable_status_codes then
           Inl (raise_for_permanent_error status summary)
         else if 500 \<le> status then
           Inl (PlainException (''Server error '' @ show_int status @ '' for '' @ hr_url response @ '': '' @ summary))
         else Inr (PBool False))"

section \<open>Bodies\<close>

definition safe_json_serialize :: "kit \<Rightarrow> pydict \<Rightarrow> exn + string" where
  "safe_json_serialize K d =
     (case kt_dumps K d of
        Inl e \<Rightarrow> if is_type_or_value_error e then Inl (SerializationError (error_text e)) else Inl e
      | Inr json_text \<Rightarrow> Inr json_text)"

definition sign_payload :: "kit \<Rightarrow> string \<Rightarrow> string option \<Rightarrow> string option" where
  "sign_payload K body secret =
     (case secret of None \<Rightarrow> None
      | Some s \<Rightarrow> if s = [] then None else Some (''v1='' @ kt_hmac_hex K s body))"

definition build_post_body :: "kit \<Rightarrow> agent_config \<Rightarrow> string \<Rightarrow> string \<times> (string \<times> string) list" where
  "build_post_body K c json_text =
     (let headers = (case sign_payload K json_text (cf_signing_secret c) of None \<Rightarrow> []
                     | Some signature \<Rightarrow> [(''X-Payload-Signature'', signature)])
      in if cf_compression_enabled c \<and> int (length json_text) \<ge> cf_compression_threshold c
         then (kt_gzip K json_text, headers @ [(''Content-Encoding'', ''gzip'')])
         else (json_text, headers))"

section \<open>Redaction of the payload\<close>

fun map_result :: "('a \<Rightarrow> exn + 'b) \<Rightarrow> 'a list \<Rightarrow> exn + 'b list" where
  "map_result f [] = Inr []"
| "map_result f (x # xs) =
     (case f x of Inl e \<Rightarrow> Inl e
      | Inr y \<Rightarrow> (case map_result f xs of Inl e \<Rightarrow> Inl e | Inr ys \<Rightarrow> Inr (y # ys)))"

definition no_get :: exn where
  "no_get = PlainException ''object has no attribute get''"

definition redact_entry :: "kit \<Rightarrow> agent_config \<Rightarrow> string \<Rightarrow> pyval \<Rightarrow> exn + pyval" where
  "redact_entry K c field entry =
     (case entry of
        PDict d \<Rightarrow>
          Inr (PDict (if is_dict (dict_get field d)
                      then dict_set field (sanitize_headers (kt_values K) (dict_get field d) (cf_sensitive_headers c)) d
                      else d))
      | _ \<Rightarrow> Inl no_get)"

text \<open>
  The loop over \<open>data.get(name, [])\<close>, which updates the entries in place. Iterating over something
  else than a sequence cannot yield a dict, so the first element fails.
\<close>

definition redact_field :: "kit \<Rightarrow> agent_config \<Rightarrow> string \<Rightarrow> string \<Rightarrow> pydict \<Rightarrow> exn + pydict" where
  "redact_field K c name field data =
     (case map_of data (PStr name) of
        None \<Rightarrow> Inr data
      | Some (PSeq k entries) \<Rightarrow>
          (case map_result (redact_entry K c field) entries of
             Inl e \<Rightarrow> Inl e | Inr entries' \<Rightarrow> Inr (dict_set name (PSeq k entries') data))
      | Some v \<Rightarrow> (case iterated v of Inl e \<Rightarrow> Inl e | Inr n \<Rightarrow> if n = 0 then Inr data else Inl no_get))"

definition redact_sensitive_headers :: "kit \<Rightarrow> agent_config \<Rightarrow> pydict \<Rightarrow> exn + pydict" where
  "redact_sensitive_headers K c data =
     (case redact_field K c ''events'' ''metadata'' data of Inl e \<Rightarrow> Inl e
      | Inr data' \<Rightarrow> redact_field K c ''metrics'' ''tags'' data')"

section \<open>Requests\<close>

definition encrypted_endpoints :: "string list" where
  "encrypted_endpoints = [''/api/v1/events'', ''/api/v1/metrics'']"

definition is_encrypted_target :: "agent_env \<Rightarrow> string \<Rightarrow> string \<Rightarrow> pydict \<Rightarrow> bool" where
  "is_encrypted_target env meth endpoint data \<longleftrightarrow>
     meth = ''POST'' \<and> data \<noteq> [] \<and> ae_encryption_enabled env \<and> endpoint \<in> set encrypted_endpoints"

definition endpoint_base :: "agent_env \<Rightarrow> string" where
  "endpoint_base env = rstrip_char (CHR ''/'') (cf_endpoint (ae_config env))"

definition encrypted_url :: "agent_env \<Rightarrow> string" where
  "encrypted_url env = endpoint_base env @ ''/api/v1/events/encrypted''"

definition opt_str :: "string option \<Rightarrow> pyval" where
  "opt_str s = (case s of None \<Rightarrow> PNone | Some t \<Rightarrow> PStr t)"

text \<open>The entries of \<open>data.get(name, [])\<close>; a model object is dumped to its dict.\<close>

definition dumped_entries :: "string \<Rightarrow> pydict \<Rightarrow> exn + pyval" where
  "dumped_entries name data =
     (case map_of data (PStr name) of
        None \<Rightarrow> Inr (PList [])
      | Some (PSeq k xs) \<Rightarrow> Inr (PList (map (\<lambda>x. case x of PModel d \<Rightarrow> PDict d | _ \<Rightarrow> x) xs))
      | Some v \<Rightarrow> (case iterated v of Inl e \<Rightarrow> Inl e | Inr n \<Rightarrow> if n = 0 then Inr (PList []) else Inl no_get))"

definition build_encrypted_payload :: "pydict \<Rightarrow> exn + pydict" where
  "build_encrypted_payload data =
     (case dumped_entries ''events'' data of Inl e \<Rightarrow> Inl e
      | Inr es \<Rightarrow> (case dumped_entries ''metrics'' data of Inl e \<Rightarrow> Inl e
          | Inr ms \<Rightarrow> Inr [(PStr ''events'', es), (PStr ''metrics'', ms)]))"

text \<open>Serialize, sign, compress and post a dict; a serialization error ends in \<open>False\<close> and the error hook.\<close>

definition post_json :: "kit \<Rightarrow> agent_env \<Rightarrow> world \<Rightarrow> string \<Rightarrow> string \<Rightarrow> pydict \<Rightarrow> pyval op" where
  "post_json K env w stage url d =
     (case safe_json_serialize K d of
        Inl (SerializationError m) \<Rightarrow>
          bind_op (fire_hook (ae_config env) stage (SerializationError m) [(PStr ''endpoint'', PStr url)]) (\<lambda>_.
          ret (PBool False))
      | Inl e \<Rightarrow> throw e
      | Inr json_data \<Rightarrow>
          (case build_post_body K (ae_config env) json_data of (body, headers) \<Rightarrow>
             bind_op (modify_transport (\<lambda>tp. tp\<lparr>tp_bytes_sent := tp_bytes_sent tp + int (length body)\<rparr>)) (\<lambda>_.
             bind_op (http_op w (Posted url body headers d)) (\<lambda>response.
             of_result (handle_response response)))))"

definition encrypted_data :: "agent_env \<Rightarrow> string \<Rightarrow> pydict \<Rightarrow> pydict" where
  "encrypted_data env ciphertext data =
     [(PStr ''encrypted_payload'', PStr ciphertext),
      (PStr ''batch_id'', dict_get ''batch_id'' data),
      (PStr ''agent_version'', PStr agent_version),
      (PStr ''guard_version'', opt_str (cf_guard_version (ae_config env))),
      (PStr ''guard_core_version'', opt_str (cf_guard_core_version (ae_config env)))]"

definition post_encrypted :: "kit \<Rightarrow> agent_env \<Rightarrow> world \<Rightarrow> pydict \<Rightarrow> pyval op" where
  "post_encrypted K env w data =
     (case ae_encryptor env of
        None \<Rightarrow> throw (EncryptionError ''Encryptor not initialized'')
      | Some key \<Rightarrow>
          bind_op (of_result (build_encrypted_payload data)) (\<lambda>payload.
          bind_op (ask (wd_random w)) (\<lambda>nonce.
          bind_op (of_result (encrypt_payload (kt_crypt K) key nonce (PDict payload) None)) (\<lambda>ciphertext.
          post_json K env w ''encryption'' (encrypted_url env) (encrypted_data env ciphertext data)))))"

definition post_unencrypted :: "kit \<Rightarrow> agent_env \<Rightarrow> world \<Rightarrow> string \<Rightarrow> pydict \<Rightarrow> pyval op" where
  "post_unencrypted K env w url data = post_json K env w ''transport_send'' url data"

definition dispatch_request :: "kit \<Rightarrow> agent_env \<Rightarrow> world \<Rightarrow> string \<Rightarrow> string \<Rightarrow> string \<Rightarrow> pydict \<Rightarrow> pyval op" where
  "dispatch_request K env w meth endpoint url data =
     (if meth = ''POST'' \<and> data \<noteq> [] then
        (if is_encrypted_target env meth endpoint data then post_encrypted K env w data
         else post_unencrypted K env w url data)
      else if meth = ''GET'' then
        bind_op (http_op w (Got url)) (\<lambda>response. of_result (handle_response response))
      else throw (ValueError (''Unsupported method: '' @ meth)))"

text \<open>
  \<open>_make_request\<close>. The dict of a POST is the one the caller keeps for its retries; the redaction
  updates it in place. A missing dict (\<open>None\<close>) and an empty one are the empty list. Logging and
  re-raising an exception leave it as it is. After \<open>initialize\<close> there is a client, so the code's
  check for a missing one never fires.
\<close>

definition make_request :: "kit \<Rightarrow> agent_env \<Rightarrow> world \<Rightarrow> string \<Rightarrow> string \<Rightarrow> pyval op" where
  "make_request K env w meth endpoint =
     bind_op (ensure_client K env w) (\<lambda>_.
     bind_op get_data (\<lambda>data.
     bind_op (if data = [] then ret [] else of_result (redact_sensitive_headers K (ae_config env) data)) (\<lambda>data'.
     bind_op (put_data data') (\<lambda>_.
     dispatch_request K env w meth endpoint (endpoint_base env @ endpoint) data'))))"

section \<open>The circuit breaker around a request\<close>

text \<open>
  \<open>CircuitBreaker.call\<close> on the breaker the transport has now. When a fork hook replaces the breaker
  during the call, the settlement goes to the abandoned object.
\<close>

definition breaker_call :: "world \<Rightarrow> 'a op \<Rightarrow> 'a op" where
  "breaker_call w func =
     bind_op (ask (wd_clock w)) (\<lambda>now.
     bind_op get_transport (\<lambda>tp.
     case cb_admit now (tp_breaker tp) of
       (Inl e, _) \<Rightarrow> throw e
     | (Inr _, cb) \<Rightarrow>
         bind_op (modify_transport (\<lambda>tp. tp\<lparr>tp_breaker := cb\<rparr>)) (\<lambda>_.
         always_op func (\<lambda>result.
         bind_op (ask (wd_clock w)) (\<lambda>now'.
         bind_op (modify_transport (\<lambda>tp'. if tp_generation tp' = tp_generation tp
                    then tp'\<lparr>tp_breaker := cb_settle now' result (tp_breaker tp')\<rparr> else tp')) (\<lambda>_.
         of_result result))))))"

section \<open>Statistics\<close>

record transport_stats =
  tt_requests_sent :: int
  tt_requests_failed :: int
  tt_bytes_sent :: int
  tt_circuit_breaker_state :: cb_state
  tt_failure_count :: int
  tt_session_closed :: bool

definition get_transport_stats :: "transport \<Rightarrow> transport_stats" where
  "get_transport_stats tp = \<lparr>
     tt_requests_sent = tp_requests_sent tp,
     tt_requests_failed = tp_requests_failed tp,
     tt_bytes_sent = tp_bytes_sent tp,
     tt_circuit_breaker_state = cb_state (tp_breaker tp),
     tt_failure_count = cb_failure_count (tp_breaker tp),
     tt_session_closed = (case tp_client tp of None \<Rightarrow> True | Some is_closed \<Rightarrow> is_closed)\<rparr>"

end
