(* ===== verification/Send.thy ===== *)
theory Send
  imports Dispatch
begin

text \<open>
  Sending with retries (\<open>_transport_send.py\<close>): rate limiting, the circuit breaker, backoff, the
  verdict on a reply, the splitting of batches that are too large, the dropping of batches the
  server rejects for good, and the polling of rules.

  The loops over \<open>range(retry_attempts + 1)\<close> are recursions over the list of attempt numbers, and
  the recursion of \<open>send_events\<close> on the halves of a batch decreases its length, so every operation
  here is total: it returns or raises.
\<close>

definition max_retry_after_seconds :: real where
  "max_retry_after_seconds = 300"

section \<open>Helpers\<close>

definition count_sent :: "unit op" where
  "count_sent = modify_transport (\<lambda>tp. tp\<lparr>tp_requests_sent := tp_requests_sent tp + 1\<rparr>)"

definition count_failed :: "unit op" where
  "count_failed = modify_transport (\<lambda>tp. tp\<lparr>tp_requests_failed := tp_requests_failed tp + 1\<rparr>)"

definition limiter_acquire :: "world \<Rightarrow> bool op" where
  "limiter_acquire w =
     bind_op (ask (wd_clock w)) (\<lambda>now.
     bind_op get_transport (\<lambda>tp.
     case rl_acquire now (tp_limiter tp) of (ok, rl) \<Rightarrow>
       bind_op (modify_transport (\<lambda>tp. tp\<lparr>tp_limiter := rl\<rparr>)) (\<lambda>_. ret ok)))"

definition limiter_retry_after :: "world \<Rightarrow> time op" where
  "limiter_retry_after w =
     bind_op (ask (wd_clock w)) (\<lambda>now.
     bind_op get_transport (\<lambda>tp. ret (rl_get_retry_after now (tp_limiter tp))))"

text \<open>The server took the request but reports that part of the batch failed.\<close>

definition partial_failure :: "pyval \<Rightarrow> bool" where
  "partial_failure result = (case result of
     PDict d \<Rightarrow> dict_get ''success'' d = PBool False \<or> truthy (dict_get ''errors'' d)
   | _ \<Rightarrow> False)"

definition evaluate_send_result :: "pyval \<Rightarrow> bool option op" where
  "evaluate_send_result result =
     (if partial_failure result then bind_op count_failed (\<lambda>_. ret (Some False))
      else if truthy result then bind_op count_sent (\<lambda>_. ret (Some True))
      else bind_op count_failed (\<lambda>_. ret None))"

definition sleep_or_record_giveup :: "agent_env \<Rightarrow> world \<Rightarrow> nat \<Rightarrow> wait_reason \<Rightarrow> pyfloat \<Rightarrow> bool op" where
  "sleep_or_record_giveup env w attempt reason delay =
     (if int attempt < cf_retry_attempts (ae_config env)
      then bind_op (sleep_op w reason delay) (\<lambda>_. ret True)
      else bind_op count_failed (\<lambda>_. ret False))"

section \<open>Sending with retries\<close>

text \<open>
  One iteration of the loop of \<open>_send_with_retry\<close>: the value to return, or \<open>None\<close> to go on with
  the next attempt.
\<close>

definition send_attempt :: "kit \<Rightarrow> agent_env \<Rightarrow> world \<Rightarrow> string \<Rightarrow> string \<Rightarrow> nat \<Rightarrow> bool option op" where
  "send_attempt K env w endpoint data_type attempt =
     catch_op
       (bind_op (limiter_acquire w) (\<lambda>ok.
        if \<not> ok then
          bind_op (limiter_retry_after w) (\<lambda>retry_after.
          bind_op (sleep_op w LimiterWait (Fin retry_after)) (\<lambda>_.
          ret None))
        else
          bind_op (breaker_call w (make_request K env w ''POST'' endpoint)) (\<lambda>result.
          evaluate_send_result result)))
       (\<lambda>e. case e of
          RateLimitedError retry_after \<Rightarrow>
            bind_op (sleep_or_record_giveup env w attempt RetryAfterWait
                       (pf_min retry_after (Fin max_retry_after_seconds))) (\<lambda>_. ret None)
        | _ \<Rightarrow>
            if is_permanent e \<or> \<not> catchable e then throw e
            else
              bind_op (of_result (calculate_backoff_delay attempt (cf_backoff_factor (ae_config env)) 60)) (\<lambda>delay.
              bind_op (sleep_or_record_giveup env w attempt BackoffWait (Fin delay)) (\<lambda>slept.
              if slept then ret None
              else bind_op (fire_hook (ae_config env) ''transport_send'' e
                     [(PStr ''endpoint'', PStr endpoint), (PStr ''data_type'', PStr data_type)]) (\<lambda>_.
                   ret None))))"

fun send_attempts :: "kit \<Rightarrow> agent_env \<Rightarrow> world \<Rightarrow> string \<Rightarrow> string \<Rightarrow> nat list \<Rightarrow> bool op" where
  "send_attempts K env w endpoint data_type [] = ret False"
| "send_attempts K env w endpoint data_type (attempt # attempts) =
     bind_op (send_attempt K env w endpoint data_type attempt) (\<lambda>outcome.
     case outcome of Some b \<Rightarrow> ret b | None \<Rightarrow> send_attempts K env w endpoint data_type attempts)"

definition attempt_numbers :: "agent_env \<Rightarrow> nat list" where
  "attempt_numbers env = [0..<nat (cf_retry_attempts (ae_config env) + 1)]"

definition send_with_retry :: "kit \<Rightarrow> agent_env \<Rightarrow> world \<Rightarrow> string \<Rightarrow> pydict \<Rightarrow> string \<Rightarrow> bool op" where
  "send_with_retry K env w endpoint data data_type =
     bind_op (put_data data) (\<lambda>_. send_attempts K env w endpoint data_type (attempt_numbers env))"

section \<open>Batches\<close>

definition project_name :: "agent_config \<Rightarrow> string" where
  "project_name c = (case cf_project_id c of None \<Rightarrow> ''default'' | Some p \<Rightarrow> if p = [] then ''default'' else p)"

definition new_batch ::
  "agent_config \<Rightarrow> security_event list \<Rightarrow> security_metric list \<Rightarrow> string \<Rightarrow> string \<Rightarrow> event_batch" where
  "new_batch c events metrics batch_id created_at = \<lparr>
     eb_project_id = project_name c, eb_events = events, eb_metrics = metrics, eb_batch_id = batch_id,
     eb_created_at = created_at, eb_compressed = False, eb_agent_version = Some agent_version,
     eb_guard_version = cf_guard_version c, eb_guard_core_version = cf_guard_core_version c\<rparr>"

text \<open>
  \<open>send_events\<close> and \<open>send_metrics\<close> are the same function but for the endpoint, the name of the data
  and the field of the batch; so are their arguments here.
\<close>

record 'a send_kind =
  sk_endpoint :: string
  sk_data_type :: string
  sk_batch :: "agent_config \<Rightarrow> 'a list \<Rightarrow> string \<Rightarrow> string \<Rightarrow> event_batch"
  sk_item :: "'a \<Rightarrow> data_item"

definition drop_context :: "string \<Rightarrow> nat \<Rightarrow> pydict" where
  "drop_context data_type n = [(PStr ''data_type'', PStr data_type), (PStr ''item_count'', PInt (int n))]"

text \<open>The items are dropped for good: counted, and reported to the error hook.\<close>

definition drop_permanent_rejection :: "agent_env \<Rightarrow> 'a send_kind \<Rightarrow> 'a list \<Rightarrow> exn \<Rightarrow> unit op" where
  "drop_permanent_rejection env k items e =
     bind_op (emit [Settled (map (sk_item k) items)]) (\<lambda>_.
     bind_op count_failed (\<lambda>_.
     fire_hook (ae_config env) ''transport_send'' e (drop_context (sk_data_type k) (length items))))"

function send_items :: "kit \<Rightarrow> agent_env \<Rightarrow> world \<Rightarrow> 'a send_kind \<Rightarrow> 'a list \<Rightarrow> bool op" where
  "send_items K env w k items =
     (if items = [] then ret True
      else catch_op
        (bind_op (ask (wd_batch_id w)) (\<lambda>batch_id.
         bind_op (ask (wd_timestamp w)) (\<lambda>created_at.
         bind_op (send_with_retry K env w (sk_endpoint k)
                    (kt_dump_batch K (sk_batch k (ae_config env) items batch_id created_at)) (sk_data_type k)) (\<lambda>ok.
         bind_op (emit (if ok then [Settled (map (sk_item k) items)] else [])) (\<lambda>_.
         ret ok)))))
        (\<lambda>e. case e of
           PayloadTooLargeError detail \<Rightarrow>
             if length items \<le> 1 then
               bind_op (drop_permanent_rejection env k items e) (\<lambda>_. ret True)
             else
               bind_op (send_items K env w k (take (length items div 2) items)) (\<lambda>left.
               bind_op (send_items K env w k (drop (length items div 2) items)) (\<lambda>right.
               ret (left \<and> right)))
         | _ \<Rightarrow>
             if is_permanent e then bind_op (drop_permanent_rejection env k items e) (\<lambda>_. ret True)
             else if catchable e then bind_op count_failed (\<lambda>_. ret False)
             else throw e))"
  by pat_completeness auto
termination
  by (relation "measure (\<lambda>(K, env, w, k, items). length items)") auto

declare send_items.simps [simp del]

definition events_kind :: "security_event send_kind" where
  "events_kind = \<lparr>sk_endpoint = ''/api/v1/events'', sk_data_type = ''events'',
     sk_batch = (\<lambda>c events. new_batch c events []), sk_item = ItemEvent\<rparr>"

definition metrics_kind :: "security_metric send_kind" where
  "metrics_kind = \<lparr>sk_endpoint = ''/api/v1/metrics'', sk_data_type = ''metrics'',
     sk_batch = (\<lambda>c metrics. new_batch c [] metrics), sk_item = ItemMetric\<rparr>"

definition send_events :: "kit \<Rightarrow> agent_env \<Rightarrow> world \<Rightarrow> security_event list \<Rightarrow> bool op" where
  "send_events K env w events = send_items K env w events_kind events"

definition send_metrics :: "kit \<Rightarrow> agent_env \<Rightarrow> world \<Rightarrow> security_metric list \<Rightarrow> bool op" where
  "send_metrics K env w metrics = send_items K env w metrics_kind metrics"

definition send_status :: "kit \<Rightarrow> agent_env \<Rightarrow> world \<Rightarrow> agent_status \<Rightarrow> bool op" where
  "send_status K env w status =
     catch_op (send_with_retry K env w ''/api/v1/status'' (kt_dump_status K status) ''status'')
       (\<lambda>e. if catchable e then ret False else throw e)"

section \<open>Fetching\<close>

definition get_attempt :: "kit \<Rightarrow> agent_env \<Rightarrow> world \<Rightarrow> string \<Rightarrow> nat \<Rightarrow> pydict option op" where
  "get_attempt K env w endpoint attempt =
     catch_op
       (bind_op (limiter_acquire w) (\<lambda>ok.
        if \<not> ok then
          bind_op (limiter_retry_after w) (\<lambda>retry_after.
          bind_op (sleep_op w LimiterWait (Fin retry_after)) (\<lambda>_.
          ret None))
        else
          bind_op (breaker_call w (make_request K env w ''GET'' endpoint)) (\<lambda>response_data.
          case response_data of
            PDict d \<Rightarrow> bind_op count_sent (\<lambda>_. ret (Some d))
          | _ \<Rightarrow> bind_op count_failed (\<lambda>_. ret None))))
       (\<lambda>e. case e of
          RateLimitedError retry_after \<Rightarrow>
            if int attempt < cf_retry_attempts (ae_config env) then
              bind_op (sleep_op w RetryAfterWait (pf_min retry_after (Fin max_retry_after_seconds))) (\<lambda>_. ret None)
            else bind_op count_failed (\<lambda>_. ret None)
        | _ \<Rightarrow>
            if \<not> catchable e then throw e
            else if int attempt < cf_retry_attempts (ae_config env) then
              bind_op (of_result (calculate_backoff_delay attempt (cf_backoff_factor (ae_config env)) 60)) (\<lambda>delay.
              bind_op (sleep_op w BackoffWait (Fin delay)) (\<lambda>_. ret None))
            else bind_op count_failed (\<lambda>_. ret None))"

fun get_attempts :: "kit \<Rightarrow> agent_env \<Rightarrow> world \<Rightarrow> string \<Rightarrow> nat list \<Rightarrow> pydict option op" where
  "get_attempts K env w endpoint [] = ret None"
| "get_attempts K env w endpoint (attempt # attempts) =
     bind_op (get_attempt K env w endpoint attempt) (\<lambda>outcome.
     case outcome of Some d \<Rightarrow> ret (Some d) | None \<Rightarrow> get_attempts K env w endpoint attempts)"

definition get_with_retry :: "kit \<Rightarrow> agent_env \<Rightarrow> world \<Rightarrow> string \<Rightarrow> pydict option op" where
  "get_with_retry K env w endpoint =
     bind_op (put_data []) (\<lambda>_. get_attempts K env w endpoint (attempt_numbers env))"

definition fetch_dynamic_rules :: "kit \<Rightarrow> agent_env \<Rightarrow> world \<Rightarrow> dynamic_rules option op" where
  "fetch_dynamic_rules K env w =
     catch_op
       (bind_op (get_with_retry K env w ''/api/v1/rules'') (\<lambda>response_data.
        case response_data of
          None \<Rightarrow> ret None
        | Some d \<Rightarrow>
            if d = [] then ret None
            else bind_op (of_result (kt_parse_rules K d)) (\<lambda>rules. ret (Some rules))))
       (\<lambda>e. if catchable e then ret None else throw e)"

end
