(* ===== verification/DispatchFacts.thy ===== *)
theory DispatchFacts
  imports Dispatch
begin

text \<open>
  What one request does: at most one HTTP call, whose body carries a redacted payload, encrypted
  whenever the endpoint is one of the encrypted ones, and signed over the uncompressed text; and
  which exceptions it can raise.
\<close>

section \<open>What the library functions are relied on for\<close>

text \<open>The exceptions that mean something else than a reply of the server.\<close>

definition plain_error :: "exn \<Rightarrow> bool" where
  "plain_error e \<longleftrightarrow> \<not> is_permanent e \<and> (\<forall>f. e \<noteq> RateLimitedError f)"

lemma plain_error_simps [simp]:
  "plain_error (PlainException s)" "plain_error (EncryptionError s)" "plain_error (SerializationError s)"
  "plain_error (ValueError s)" "plain_error (TypeError s)" "plain_error (HTTPError s)"
  "plain_error CancelledError" "plain_error TimeoutError" "plain_error OverflowError"
  "\<not> plain_error (RateLimitedError f)" "\<not> plain_error (PermanentClientError c s)" "\<not> plain_error (PayloadTooLargeError s)"
  by (simp_all add: plain_error_def)

definition kit_laws :: "kit \<Rightarrow> bool" where
  "kit_laws K \<longleftrightarrow> json_laws (kt_values K)
     \<and> (\<forall>d e. kt_dumps K d = Inl e \<longrightarrow> plain_error e)
     \<and> (\<forall>hs e. kt_open_client K hs = Some e \<longrightarrow> plain_error e)"

section \<open>Redacted payloads\<close>

definition redacted_field :: "kit \<Rightarrow> agent_config \<Rightarrow> string \<Rightarrow> string \<Rightarrow> pydict \<Rightarrow> bool" where
  "redacted_field K c name field data \<longleftrightarrow>
     (\<forall>k xs. map_of data (PStr name) = Some (PSeq k xs) \<longrightarrow>
        (\<forall>v \<in> set xs. \<exists>d. v = PDict d \<and> (\<forall>m. dict_get field d = PDict m \<longrightarrow>
           clean (kt_values K) (map (\<lambda>h. lower (strip h)) (cf_sensitive_headers c)) (PDict m))))"

text \<open>No event's metadata and no metric's tags hold a value under a sensitive key.\<close>

definition redacted :: "kit \<Rightarrow> agent_config \<Rightarrow> pydict \<Rightarrow> bool" where
  "redacted K c data \<longleftrightarrow> redacted_field K c ''events'' ''metadata'' data \<and> redacted_field K c ''metrics'' ''tags'' data"

lemma map_result_set:
  "map_result f xs = Inr ys \<Longrightarrow> y \<in> set ys \<Longrightarrow> \<exists>x \<in> set xs. f x = Inr y"
  by (induction xs arbitrary: ys) (auto split: sum.splits)

lemma map_result_error: "map_result f xs = Inl e \<Longrightarrow> \<exists>x \<in> set xs. f x = Inl e"
  by (induction xs) (auto split: sum.splits)

lemma is_dict_iff: "is_dict v \<longleftrightarrow> (\<exists>d. v = PDict d)"
  by (cases v) auto

lemma redact_entry_clean:
  assumes laws: "kit_laws K" and e: "redact_entry K c field v = Inr (PDict d)" and m: "dict_get field d = PDict m"
  shows "clean (kt_values K) (map (\<lambda>h. lower (strip h)) (cf_sensitive_headers c)) (PDict m)"
proof -
  obtain d0 where d0: "v = PDict d0" using e by (cases v) (auto simp: redact_entry_def)
  show ?thesis
  proof (cases "is_dict (dict_get field d0)")
    case True
    with e d0 have "d = dict_set field (sanitize_headers (kt_values K) (dict_get field d0) (cf_sensitive_headers c)) d0"
      by (simp add: redact_entry_def)
    then have "PDict m = sanitize_headers (kt_values K) (dict_get field d0) (cf_sensitive_headers c)"
      using m by (simp add: dict_get_def)
    with laws show ?thesis by (simp add: sanitize_value_clean sanitize_headers_def kit_laws_def)
  next
    case False
    with e d0 m show ?thesis by (simp add: redact_entry_def)
  qed
qed

lemma redact_field_redacted:
  assumes "kit_laws K" and "redact_field K c name field data = Inr data'"
  shows "redacted_field K c name field data'"
  unfolding redacted_field_def
proof (intro allI impI ballI)
  fix k xs v
  assume xs: "map_of data' (PStr name) = Some (PSeq k xs)" and v: "v \<in> set xs"
  obtain k' ys where ys: "map_of data (PStr name) = Some (PSeq k' ys)" "map_result (redact_entry K c field) ys = Inr xs"
    using assms(2) xs v
    by (auto simp: redact_field_def split: option.splits pyval.splits sum.splits if_splits)
  from map_result_set [OF ys(2) v] obtain v0 where v0: "redact_entry K c field v0 = Inr v" by blast
  then obtain d where d: "v = PDict d" by (auto simp: redact_entry_def split: pyval.splits)
  with redact_entry_clean [OF assms(1)] v0
  show "\<exists>d. v = PDict d \<and> (\<forall>m. dict_get field d = PDict m \<longrightarrow>
      clean (kt_values K) (map (\<lambda>h. lower (strip h)) (cf_sensitive_headers c)) (PDict m))" by blast
qed

lemma redact_field_other:
  "redact_field K c name field data = Inr data' \<Longrightarrow> name' \<noteq> name \<Longrightarrow>
    map_of data' (PStr name') = map_of data (PStr name')"
  by (auto simp: redact_field_def split: option.splits pyval.splits sum.splits if_splits)

lemma redact_redacted:
  assumes laws: "kit_laws K" and r: "redact_sensitive_headers K c data = Inr data'"
  shows "redacted K c data'"
proof -
  obtain data1 where 1: "redact_field K c ''events'' ''metadata'' data = Inr data1"
    and 2: "redact_field K c ''metrics'' ''tags'' data1 = Inr data'"
    using r by (auto simp: redact_sensitive_headers_def split: sum.splits)
  have "map_of data' (PStr ''events'') = map_of data1 (PStr ''events'')"
    by (rule redact_field_other [OF 2]) simp
  with redact_field_redacted [OF laws 1] have "redacted_field K c ''events'' ''metadata'' data'"
    by (simp add: redacted_field_def)
  with redact_field_redacted [OF laws 2] show ?thesis by (simp add: redacted_def)
qed

lemma redact_error: "redact_sensitive_headers K c data = Inl e \<Longrightarrow> plain_error e"
proof -
  have entry: "redact_entry K c field v = Inl e \<Longrightarrow> plain_error e" for field v e
    by (cases v) (auto simp: redact_entry_def no_get_def)
  have iter: "iterated v = Inl e \<Longrightarrow> plain_error e" for v e by (cases v) auto
  have "redact_field K c name field data = Inl e \<Longrightarrow> plain_error e" for name field data
    by (auto simp: redact_field_def no_get_def entry iter split: option.splits pyval.splits sum.splits if_splits
        dest!: map_result_error intro: iter entry)
  then show "redact_sensitive_headers K c data = Inl e \<Longrightarrow> plain_error e"
    by (auto simp: redact_sensitive_headers_def split: sum.splits)
qed

section \<open>One request\<close>

text \<open>
  What the agent may put on the wire. The body and the headers are those of the JSON text of a dict.
  At the encrypted URL the dict carries the ciphertext of a redacted payload; at any other URL the
  dict itself is redacted, and it is none of the endpoints that must be encrypted.
\<close>

definition targets_encrypted :: "agent_env \<Rightarrow> string \<Rightarrow> bool" where
  "targets_encrypted env url \<longleftrightarrow>
     ae_encryption_enabled env \<and> (\<exists>ep \<in> set encrypted_endpoints. url = endpoint_base env @ ep)"

definition wire_plain :: "kit \<Rightarrow> agent_env \<Rightarrow> string \<Rightarrow> pydict \<Rightarrow> bool" where
  "wire_plain K env url d \<longleftrightarrow> redacted K (ae_config env) d \<and> \<not> targets_encrypted env url"

definition wire_encrypted :: "kit \<Rightarrow> agent_env \<Rightarrow> string \<Rightarrow> pydict \<Rightarrow> bool" where
  "wire_encrypted K env url d \<longleftrightarrow> url = encrypted_url env \<and>
     (\<exists>key nonce payload ct. ae_encryptor env = Some key \<and> redacted K (ae_config env) payload
        \<and> encrypt_payload (kt_crypt K) key nonce (PDict payload) None = Inr ct
        \<and> dict_get ''encrypted_payload'' d = PStr ct)"

fun request_ok :: "kit \<Rightarrow> agent_env \<Rightarrow> effect \<Rightarrow> bool" where
  "request_ok K env (Posted url body headers d) =
     ((wire_plain K env url d \<or> wire_encrypted K env url d)
      \<and> (\<exists>js. kt_dumps K d = Inr js \<and> (body, headers) = build_post_body K (ae_config env) js))"
| "request_ok K env (Got url) = True"
| "request_ok K env _ = False"

text \<open>
  How a request ends: with a response, which decides the result; with a network error; or without
  a call, \<open>False\<close> when the payload cannot be serialized, else an exception of another kind.
\<close>

definition request_outcome :: "kit \<Rightarrow> agent_env \<Rightarrow> exn + pyval \<Rightarrow> effect list \<Rightarrow> bool" where
  "request_outcome K env res es \<longleftrightarrow>
     (\<exists>req r. es = [req, Replied (Response r)] \<and> request_ok K env req \<and> handle_response r = res)
   \<or> (\<exists>req nr e. es = [req, Replied nr] \<and> request_ok K env req \<and> net_exn nr = Inl e \<and> res = Inl e)
   \<or> (\<exists>calls. es = map Hooked calls \<and> (case res of Inr v \<Rightarrow> v = PBool False | Inl e \<Rightarrow> plain_error e))"

lemma request_outcome_plain: "plain_error e \<Longrightarrow> request_outcome K env (Inl e) []"
  unfolding request_outcome_def by (intro disjI2 exI [of _ "[]"]) simp

lemma net_exn_error: "net_exn nr = Inl e \<Longrightarrow> plain_error e"
  by (auto simp: net_exn_def split: net_result.splits)

lemma emits_http:
  assumes "\<And>r. Q r [request, Replied (Response r)]"
    and "\<And>nr e. net_exn nr = Inl e \<Longrightarrow> E e [request, Replied nr]"
  shows "emits (http_op w request) Q E"
  unfolding http_op_def
  by (intro emits_emit_bind emits_silent emits_of_result)
     (use assms in \<open>auto simp: net_exn_def split: net_result.splits\<close>)

lemma emits_request:
  assumes "request_ok K env request"
  shows "emits (bind_op (http_op w request) (\<lambda>r. of_result (handle_response r)))
    (\<lambda>v. request_outcome K env (Inr v)) (\<lambda>e. request_outcome K env (Inl e))"
  apply (rule emits_bind [where R = "\<lambda>r es. es = [request, Replied (Response r)]"])
   apply (rule emits_http)
    apply simp
   apply (use assms in \<open>auto simp: request_outcome_def\<close>) [1]
  apply (rule emits_of_result)
   apply (use assms in \<open>auto simp: request_outcome_def\<close>)
  done

lemma emits_fire_hook:
  assumes "\<And>calls. Q () (map Hooked calls)" and "\<And>calls. E CancelledError (map Hooked calls)"
  shows "emits (fire_hook c stage e ctx) Q E"
proof -
  obtain res calls where h: "fire_error_hook (cf_on_error c) stage e ctx = (res, calls)" by fastforce
  have "res = Inl x \<Longrightarrow> x = CancelledError" for x using fire_error_hook_error h by blast
  then show ?thesis
    unfolding fire_hook_def h prod.case using assms
    by (intro emits_bind [where R = "\<lambda>_ es. es = map Hooked calls"] emits_emit emits_of_result) auto
qed

lemma safe_json_error: "kit_laws K \<Longrightarrow> safe_json_serialize K d = Inl e \<Longrightarrow> plain_error e"
  by (auto simp: safe_json_serialize_def kit_laws_def split: sum.splits if_splits)

lemma safe_json_ok: "safe_json_serialize K d = Inr js \<longleftrightarrow> kt_dumps K d = Inr js"
  by (auto simp: safe_json_serialize_def split: sum.splits)

lemma emits_post_json:
  assumes laws: "kit_laws K" and wire: "wire_plain K env url d \<or> wire_encrypted K env url d"
  shows "emits (post_json K env w stage url d) (\<lambda>v. request_outcome K env (Inr v)) (\<lambda>e. request_outcome K env (Inl e))"
proof (cases "safe_json_serialize K d")
  case (Inl e)
  note plain = safe_json_error [OF laws Inl]
  have hook: "emits (bind_op (fire_hook (ae_config env) stage (SerializationError m) [(PStr ''endpoint'', PStr url)])
      (\<lambda>_. ret (PBool False))) (\<lambda>v. request_outcome K env (Inr v)) (\<lambda>e. request_outcome K env (Inl e))" for m
    apply (rule emits_bind [where R = "\<lambda>_ es. \<exists>calls. es = map Hooked calls"])
     apply (rule emits_fire_hook)
      apply blast
     apply (simp add: request_outcome_def) 
     apply blast
    apply (rule emits_ret)
    apply (auto simp: request_outcome_def)
    done
  show ?thesis
    using hook emits_throw [of "\<lambda>e. request_outcome K env (Inl e)" e] plain
    by (auto simp: post_json_def Inl request_outcome_plain split: exn.splits)
next
  case (Inr js)
  obtain body headers where b: "build_post_body K (ae_config env) js = (body, headers)" by fastforce
  have "request_ok K env (Posted url body headers d)"
    using wire Inr b by (simp add: safe_json_ok)
  note request = emits_request [OF this, of w]
  show ?thesis
    unfolding post_json_def Inr sum.case b prod.case
    by (rule emits_silent) (rule request)
qed

lemma encrypted_data_payload: "dict_get ''encrypted_payload'' (encrypted_data env ct data) = PStr ct"
  by (simp add: encrypted_data_def dict_get_def)

lemma dumped_entries_error: "dumped_entries name data = Inl e \<Longrightarrow> plain_error e"
proof -
  have iter: "iterated v = Inl e \<Longrightarrow> plain_error e" for v by (cases v) auto
  show "dumped_entries name data = Inl e \<Longrightarrow> plain_error e"
    by (auto simp: dumped_entries_def no_get_def split: option.splits pyval.splits sum.splits if_splits dest: iter)
qed

lemma dumped_entries_dicts:
  assumes "redacted_field K c name field data" and "dumped_entries name data = Inr v"
  shows "\<exists>xs. v = PList xs \<and> (\<forall>v \<in> set xs. \<exists>d. v = PDict d \<and> (\<forall>m. dict_get field d = PDict m \<longrightarrow>
      clean (kt_values K) (map (\<lambda>h. lower (strip h)) (cf_sensitive_headers c)) (PDict m)))"
proof (cases "\<exists>k xs. map_of data (PStr name) = Some (PSeq k xs)")
  case True
  then obtain k xs where xs: "map_of data (PStr name) = Some (PSeq k xs)" by blast
  from assms(1) xs have dicts: "\<forall>v \<in> set xs. \<exists>d. v = PDict d \<and> (\<forall>m. dict_get field d = PDict m \<longrightarrow>
      clean (kt_values K) (map (\<lambda>h. lower (strip h)) (cf_sensitive_headers c)) (PDict m))"
    by (auto simp: redacted_field_def)
  then have "map (\<lambda>x. case x of PModel d \<Rightarrow> PDict d | _ \<Rightarrow> x) xs = xs"
    by (intro map_idI) auto
  with assms(2) xs have "v = PList xs" by (simp add: dumped_entries_def)
  with dicts show ?thesis by blast
next
  case False
  with assms(2) have "v = PList []"
    by (auto simp: dumped_entries_def split: option.splits pyval.splits sum.splits if_splits)
  then show ?thesis by simp
qed

lemma build_encrypted_payload_redacted:
  assumes "redacted K c data" and "build_encrypted_payload data = Inr payload"
  shows "redacted K c payload"
proof -
  obtain es ms where e: "dumped_entries ''events'' data = Inr es" and m: "dumped_entries ''metrics'' data = Inr ms"
    and p: "payload = [(PStr ''events'', es), (PStr ''metrics'', ms)]"
    using assms(2) by (auto simp: build_encrypted_payload_def split: sum.splits)
  have "redacted_field K c ''events'' ''metadata'' data" "redacted_field K c ''metrics'' ''tags'' data"
    using assms(1) by (simp_all add: redacted_def)
  from dumped_entries_dicts [OF this(1) e] dumped_entries_dicts [OF this(2) m] p show ?thesis
    by (auto simp: redacted_def redacted_field_def)
qed

lemma emits_post_encrypted:
  assumes laws: "kit_laws K" and data: "redacted K (ae_config env) data"
  shows "emits (post_encrypted K env w data) (\<lambda>v. request_outcome K env (Inr v)) (\<lambda>e. request_outcome K env (Inl e))"
proof (cases "ae_encryptor env")
  case None
  then show ?thesis by (simp add: post_encrypted_def emits_throw request_outcome_plain)
next
  case (Some key)
  have build: "build_encrypted_payload data = Inl e \<Longrightarrow> plain_error e" for e
    by (auto simp: build_encrypted_payload_def split: sum.splits dest: dumped_entries_error)
  have crypt: "encrypt_payload C key nonce v aad = Inl e \<Longrightarrow> plain_error e" for C nonce v aad e
    by (auto dest: encrypt_payload_error)
  show ?thesis
    unfolding post_encrypted_def Some option.case
    apply (rule emits_bind [where R = "\<lambda>p es. es = [] \<and> build_encrypted_payload data = Inr p"])
     apply (rule emits_of_result, simp, simp add: request_outcome_plain build)
    apply (rule emits_silent)
    apply (rule emits_bind [where R = "\<lambda>ct es. es = [] \<and> encrypt_payload (kt_crypt K) key nonce (PDict p) None = Inr ct"
          for nonce p])
     apply (rule emits_of_result, simp, simp add: request_outcome_plain crypt)
    apply simp
    apply (rule emits_post_json [OF laws])
    using Some build_encrypted_payload_redacted [OF data]
    apply (auto simp: wire_encrypted_def encrypted_data_payload)
    done
qed

lemma targets_encrypted_iff: "targets_encrypted env (endpoint_base env @ ep)
    \<longleftrightarrow> ae_encryption_enabled env \<and> ep \<in> set encrypted_endpoints"
  by (auto simp: targets_encrypted_def)

lemma emits_dispatch_request:
  assumes laws: "kit_laws K" and data: "data \<noteq> [] \<Longrightarrow> redacted K (ae_config env) data"
  shows "emits (dispatch_request K env w meth ep (endpoint_base env @ ep) data)
     (\<lambda>v. request_outcome K env (Inr v)) (\<lambda>e. request_outcome K env (Inl e))"
proof -
  have "wire_plain K env (endpoint_base env @ ep) data" if "meth = ''POST''" "data \<noteq> []" "\<not> is_encrypted_target env meth ep data"
    using that data by (auto simp: wire_plain_def targets_encrypted_iff is_encrypted_target_def)
  then show ?thesis
    using data emits_request [of K env "Got (endpoint_base env @ ep)" w]
    by (auto simp: dispatch_request_def post_unencrypted_def
        intro!: emits_post_encrypted emits_post_json laws emits_throw request_outcome_plain)
qed

lemma emits_initialize:
  assumes "kit_laws K" "Q () []" "\<And>e. plain_error e \<Longrightarrow> E e []"
  shows "emits (initialize K env) Q E"
  unfolding initialize_def
  apply (rule emits_silent)
  using assms
  by (auto simp: kit_laws_def intro!: emits_ret emits_throw emits_modify_transport split: option.split)

lemma emits_ensure_client:
  assumes "kit_laws K" "Q () []" "\<And>e. plain_error e \<Longrightarrow> E e []"
  shows "emits (ensure_client K env w) Q E"
  unfolding ensure_client_def
  apply (rule emits_silent)+
  using assms by (auto intro!: emits_initialize emits_ret)

text \<open>A request through the client: every effect on the wire is one the rules allow.\<close>

lemma emits_make_request:
  assumes laws: "kit_laws K"
  shows "emits (make_request K env w meth ep) (\<lambda>v. request_outcome K env (Inr v)) (\<lambda>e. request_outcome K env (Inl e))"
  unfolding make_request_def
  apply (rule emits_bind [where R = "\<lambda>_ es. es = []"])
   apply (rule emits_ensure_client [OF laws], simp, simp add: request_outcome_plain)
  apply simp
  apply (rule emits_silent)
  apply (rule emits_bind [where R = "\<lambda>d es. es = [] \<and> (d \<noteq> [] \<longrightarrow> redacted K (ae_config env) d)"])
   apply (simp add: emits_ret)
   apply (intro impI emits_of_result)
    apply (use redact_redacted [OF laws] redact_error in \<open>auto simp: request_outcome_plain\<close>) [2]
  apply (simp, rule emits_silent)
  apply (simp add: emits_dispatch_request [OF laws])
  done

lemma emits_breaker_call:
  assumes "emits m Q E" and "\<And>e. plain_error e \<Longrightarrow> E e []"
  shows "emits (breaker_call w m) Q E"
proof -
  have admit: "cb_admit now cb = (Inl e, cb') \<Longrightarrow> plain_error e" for now cb e cb'
    by (auto simp: cb_admit_def split: if_splits)
  show ?thesis
    unfolding breaker_call_def
    apply (rule emits_silent)+
    apply (simp split: prod.split sum.split, intro conjI allI impI)
     apply (rule emits_throw, rule assms(2), erule admit)
    apply (rule emits_silent)
    apply (rule emits_always [where R = "\<lambda>r es. case r of Inr x \<Rightarrow> Q x es | Inl e \<Rightarrow> E e es"])
     apply (simp add: assms(1))
    apply (rule emits_silent)+
    apply (rule emits_of_result, auto)
    done
qed

end
