(* ===== verification/SendFacts.thy ===== *)
theory SendFacts
  imports Send DispatchFacts
begin

text \<open>
  Retries and batches: one attempt makes one request and one pause at most; a send makes at most
  \<open>retry_attempts + 1\<close> requests per batch; a batch is reported as sent only on the server's word;
  splitting loses and repeats nothing; and nothing but a cancellation escapes.
\<close>

section \<open>Counting effects\<close>

fun is_request :: "effect \<Rightarrow> bool" where
  "is_request (Posted _ _ _ _) = True" | "is_request (Got _) = True" | "is_request _ = False"

fun is_sleep :: "effect \<Rightarrow> bool" where
  "is_sleep (Slept _ _) = True" | "is_sleep _ = False"

fun is_settled :: "effect \<Rightarrow> bool" where
  "is_settled (Settled _) = True" | "is_settled _ = False"

definition requests :: "effect list \<Rightarrow> nat" where
  "requests es = length (filter is_request es)"

definition sleeps :: "effect list \<Rightarrow> nat" where
  "sleeps es = length (filter is_sleep es)"

lemma count_append [simp]:
  "requests (es @ es') = requests es + requests es'" "sleeps (es @ es') = sleeps es + sleeps es'"
  "replies (es @ es') = replies es @ replies es'"
  by (simp_all add: requests_def sleeps_def replies_def map_filter_def)

lemma count_simps [simp]:
  "requests [] = 0" "sleeps [] = 0" "replies [] = []"
  "requests (e # es) = (if is_request e then Suc (requests es) else requests es)"
  "sleeps (e # es) = (if is_sleep e then Suc (sleeps es) else sleeps es)"
  "replies (Replied r # es) = r # replies es"
  by (simp_all add: requests_def sleeps_def replies_def map_filter_def)

lemma count_hooks [simp]:
  "requests (map Hooked cs) = 0" "sleeps (map Hooked cs) = 0" "replies (map Hooked cs) = []"
  by (induction cs) (simp_all add: replies_def map_filter_def)

lemma replies_other [simp]: "reply_of e = None \<Longrightarrow> replies (e # es) = replies es"
  by (simp add: replies_def map_filter_def)

lemma last_reply_append:
  "last_reply (es @ es') = (if replies es' = [] then last_reply es else last_reply es')"
  by (simp add: last_reply_def)

lemma last_reply_simps [simp]:
  "last_reply [] = None" "last_reply [Replied r] = Some r"
  "reply_of e = None \<Longrightarrow> last_reply (e # es) = last_reply es"
  by (simp_all add: last_reply_def)

section \<open>What an attempt may do\<close>

text \<open>
  Delays: a pause for the client's own limiter is not negative, a pause the server asks for is
  capped at 300 seconds, and a backoff at 60.
\<close>

definition delay_ok :: "agent_env \<Rightarrow> wait_reason \<Rightarrow> pyfloat \<Rightarrow> bool" where
  "delay_ok env reason d \<longleftrightarrow> (\<exists>x. d = Fin x \<and>
     (case reason of LimiterWait \<Rightarrow> 0 \<le> x
      | RetryAfterWait \<Rightarrow> 0 \<le> x \<and> x \<le> 300
      | BackoffWait \<Rightarrow> x \<le> 60 \<and> (0 \<le> cf_backoff_factor (ae_config env) \<longrightarrow> 0 \<le> x)))"

fun effect_ok :: "kit \<Rightarrow> agent_env \<Rightarrow> effect \<Rightarrow> bool" where
  "effect_ok K env (Slept reason d) = delay_ok env reason d"
| "effect_ok K env (Replied r) = True"
| "effect_ok K env (Hooked c) = True"
| "effect_ok K env (Settled xs) = True"
| "effect_ok K env req = request_ok K env req"

lemma request_ok_request: "request_ok K env req \<Longrightarrow> is_request req \<and> effect_ok K env req \<and> reply_of req = None
    \<and> \<not> is_sleep req \<and> \<not> is_settled req"
  by (cases req) auto

definition accepted :: "http_response \<Rightarrow> bool" where
  "accepted r \<longleftrightarrow> (\<exists>v. handle_response r = Inr v \<and> truthy v \<and> \<not> partial_failure v)"

definition attempt_frame :: "kit \<Rightarrow> agent_env \<Rightarrow> effect list \<Rightarrow> bool" where
  "attempt_frame K env es \<longleftrightarrow> (\<forall>x \<in> set es. effect_ok K env x \<and> \<not> is_settled x) \<and> requests es \<le> 1"

lemma attempt_frame_simps [simp]:
  "attempt_frame K env []"
  "attempt_frame K env (map Hooked cs)"
  "attempt_frame K env (es @ map Hooked cs) \<longleftrightarrow> attempt_frame K env es"
  "attempt_frame K env (es @ [Slept reason d]) \<longleftrightarrow> attempt_frame K env es \<and> delay_ok env reason d"
  by (auto simp: attempt_frame_def)

lemma request_frame:
  "request_ok K env req \<Longrightarrow> attempt_frame K env [req, Replied nr] \<and> sleeps [req, Replied nr] = 0
     \<and> last_reply [req, Replied nr] = Some nr"
  by (simp add: attempt_frame_def request_ok_request)

text \<open>How a request through limiter and breaker ends, before the exception handlers look at it.\<close>

definition tried :: "kit \<Rightarrow> agent_env \<Rightarrow> exn + pyval \<Rightarrow> effect list \<Rightarrow> bool" where
  "tried K env res es \<longleftrightarrow> attempt_frame K env es \<and> sleeps es = 0 \<and>
     ((\<exists>r. last_reply es = Some (Response r) \<and> handle_response r = res)
      \<or> (case res of Inr v \<Rightarrow> v = PBool False | Inl e \<Rightarrow> plain_error e))"

lemma request_outcome_tried: "request_outcome K env res es \<Longrightarrow> tried K env res es"
  unfolding request_outcome_def tried_def
  using request_frame [of K env] net_exn_error by (fastforce split: sum.splits)

lemma emits_guarded_request:
  assumes "kit_laws K"
  shows "emits (breaker_call w (make_request K env w meth ep)) (\<lambda>v. tried K env (Inr v)) (\<lambda>e. tried K env (Inl e))"
  by (rule emits_breaker_call, rule emits_weaken, rule emits_make_request [OF assms])
     (auto intro: request_outcome_tried request_outcome_plain)

lemma emits_sleep:
  assumes "Q () [Slept reason d]" and "E CancelledError [Slept reason d]"
  shows "emits (sleep_op w reason d) Q E"
  unfolding sleep_op_def
  by (intro emits_emit_bind emits_silent) (use assms in \<open>auto intro: emits_ret emits_throw\<close>)

lemma emits_limiter_acquire: "(\<And>b. Q b []) \<Longrightarrow> emits (limiter_acquire w) Q E"
  unfolding limiter_acquire_def
  by (intro emits_silent) (auto intro!: emits_silent emits_ret split: prod.split)

lemma emits_limiter_retry_after: "(\<And>t. 0 \<le> t \<Longrightarrow> Q t []) \<Longrightarrow> emits (limiter_retry_after w) Q E"
  unfolding limiter_retry_after_def
  by (intro emits_silent emits_ret) (simp add: rl_get_retry_after_def)

lemma emits_evaluate:
  assumes "\<And>b. (b = Some True \<longleftrightarrow> truthy v \<and> \<not> partial_failure v) \<Longrightarrow> Q b []"
  shows "emits (evaluate_send_result v) Q E"
  unfolding evaluate_send_result_def count_failed_def count_sent_def
  using assms
  by (auto intro!: emits_silent emits_ret)

lemma emits_giveup:
  assumes "Q True [Slept reason d]" and "Q False []" and "E CancelledError [Slept reason d]"
  shows "emits (sleep_or_record_giveup env w attempt reason d) Q E"
  unfolding sleep_or_record_giveup_def count_failed_def
  using assms
  by (auto intro!: emits_silent emits_ret emits_bind [where R = "\<lambda>_ es. es = [Slept reason d]"] emits_sleep)

lemma handle_response_delay: "handle_response r = Inl (RateLimitedError f) \<Longrightarrow> retry_delay f"
  by (auto simp: handle_response_def Let_def raise_for_permanent_error_def intro!: parse_retry_after_delay
      split: if_splits)

text \<open>The outcome of one iteration of the send loop.\<close>

definition attempt_outcome :: "kit \<Rightarrow> agent_env \<Rightarrow> nat \<Rightarrow> exn + bool option \<Rightarrow> effect list \<Rightarrow> bool" where
  "attempt_outcome K env attempt res es \<longleftrightarrow> attempt_frame K env es \<and> sleeps es \<le> 1 \<and>
     (case res of
        Inr b \<Rightarrow> b = Some True \<longrightarrow> (\<exists>r. last_reply es = Some (Response r) \<and> accepted r)
      | Inl e \<Rightarrow> if is_permanent e then \<exists>r. last_reply es = Some (Response r) \<and> handle_response r = Inl e
               else e = CancelledError \<or> e = OverflowError \<and> 1024 \<le> attempt)"

definition raw_outcome :: "kit \<Rightarrow> agent_env \<Rightarrow> exn + bool option \<Rightarrow> effect list \<Rightarrow> bool" where
  "raw_outcome K env res es \<longleftrightarrow> attempt_frame K env es \<and> sleeps es \<le> 1 \<and>
     (case res of
        Inr b \<Rightarrow> b = Some True \<longrightarrow> (\<exists>r. last_reply es = Some (Response r) \<and> accepted r)
      | Inl e \<Rightarrow> (sleeps es = 0 \<or> e = CancelledError)
          \<and> (plain_error e \<or> (\<exists>r. last_reply es = Some (Response r) \<and> handle_response r = Inl e)))"

lemma emits_raw_attempt:
  assumes "kit_laws K"
  shows "emits (bind_op (limiter_acquire w) (\<lambda>ok.
        if \<not> ok then bind_op (limiter_retry_after w) (\<lambda>t. bind_op (sleep_op w LimiterWait (Fin t)) (\<lambda>_. ret None))
        else bind_op (breaker_call w (make_request K env w ''POST'' ep)) (\<lambda>v. evaluate_send_result v)))
     (\<lambda>b. raw_outcome K env (Inr b)) (\<lambda>e. raw_outcome K env (Inl e))"
  apply (rule emits_bind [where R = "\<lambda>_ es. es = []"], rule emits_limiter_acquire, simp)
  apply (simp, intro conjI impI)
   apply (rule emits_bind [where R = "\<lambda>t es. es = [] \<and> 0 \<le> t"], rule emits_limiter_retry_after, simp)
   apply (rule emits_bind [where R = "\<lambda>_ es. es = [Slept LimiterWait (Fin t)]" for t], rule emits_sleep, rule refl)
    apply (auto simp: raw_outcome_def attempt_frame_def delay_ok_def intro!: emits_ret) [2]
  apply (rule emits_bind [where R = "\<lambda>v es. tried K env (Inr v) es"])
   apply (rule emits_weaken, rule emits_guarded_request [OF assms], assumption)
   apply (auto simp: tried_def raw_outcome_def) [1]
  apply (rule emits_evaluate)
  apply (auto simp: tried_def raw_outcome_def accepted_def) [1]
  done

lemma backoff_delay_ok:
  "calculate_backoff_delay attempt (cf_backoff_factor (ae_config env)) 60 = Inr d \<Longrightarrow> delay_ok env BackoffWait (Fin d)"
  by (auto simp: calculate_backoff_delay_def delay_ok_def split: if_splits)

lemma emits_send_attempt:
  assumes "kit_laws K"
  shows "emits (send_attempt K env w ep dt attempt)
    (\<lambda>b. attempt_outcome K env attempt (Inr b)) (\<lambda>e. attempt_outcome K env attempt (Inl e))"
proof -
  let ?Q = "\<lambda>b. attempt_outcome K env attempt (Inr b)"
  let ?E = "\<lambda>e. attempt_outcome K env attempt (Inl e)"
  have limited: "emits (bind_op (sleep_or_record_giveup env w attempt RetryAfterWait (pf_min f (Fin max_retry_after_seconds)))
       (\<lambda>_. ret None)) (\<lambda>y es'. ?Q y (es @ es')) (\<lambda>e es'. ?E e (es @ es'))"
    if raw: "raw_outcome K env (Inl (RateLimitedError f)) es" for f es
  proof -
    from raw obtain r where "handle_response r = Inl (RateLimitedError f)" by (auto simp: raw_outcome_def)
    then have "retry_delay f" by (rule handle_response_delay)
    from pf_min_delay [OF this] have d: "delay_ok env RetryAfterWait (pf_min f (Fin max_retry_after_seconds))"
      by (auto simp: delay_ok_def max_retry_after_seconds_def)
    show ?thesis
      using raw d
      by (intro emits_bind [where R = "\<lambda>_ es. es = [] \<or> es = [Slept RetryAfterWait (pf_min f (Fin max_retry_after_seconds))]"]
           emits_giveup emits_ret)
         (auto simp: raw_outcome_def attempt_outcome_def)
  qed
  have failed: "emits (bind_op (of_result (calculate_backoff_delay attempt (cf_backoff_factor (ae_config env)) 60)) (\<lambda>delay.
         bind_op (sleep_or_record_giveup env w attempt BackoffWait (Fin delay)) (\<lambda>slept.
         if slept then ret None else bind_op (fire_hook (ae_config env) ''transport_send'' e ctx) (\<lambda>_. ret None))))
       (\<lambda>y es'. ?Q y (es @ es')) (\<lambda>e es'. ?E e (es @ es'))"
    if raw: "raw_outcome K env (Inl e) es" and e: "catchable e" for e es ctx
  proof -
    from raw e have s: "attempt_frame K env es" "sleeps es = 0" by (auto simp: raw_outcome_def)
    show ?thesis
      apply (rule emits_bind [where R = "\<lambda>d es. es = [] \<and> delay_ok env BackoffWait (Fin d)"])
       apply (rule emits_of_result, simp add: backoff_delay_ok)
       apply (use s in \<open>auto simp: attempt_outcome_def dest: calculate_backoff_delay_error\<close>) [1]
      apply (rule emits_bind [where R = "\<lambda>b es. es = (if b then [Slept BackoffWait (Fin d)] else [])" for d])
       apply (rule emits_giveup)
         apply simp
        apply simp
       apply (use s in \<open>auto simp: attempt_outcome_def\<close>) [1]
      apply (simp, intro conjI impI)
       apply (rule emits_ret)
       apply (use s in \<open>auto simp: attempt_outcome_def\<close>) [1]
      apply (rule emits_bind [where R = "\<lambda>_ es. \<exists>cs. es = map Hooked cs"])
       apply (rule emits_fire_hook)
        apply blast
       apply (use s in \<open>auto simp: attempt_outcome_def\<close>) [1]
      apply (rule emits_ret)
      apply (use s in \<open>auto simp: attempt_outcome_def\<close>) [1]
      done
  qed
  have rethrow: "?E e es" if "raw_outcome K env (Inl e) es" "is_permanent e \<or> \<not> catchable e" for e es
    using that by (auto simp: raw_outcome_def attempt_outcome_def plain_error_def not_catchable)
  show ?thesis
    unfolding send_attempt_def
    apply (rule emits_catch [where R = "\<lambda>e es. raw_outcome K env (Inl e) es"])
     apply (rule emits_weaken, rule emits_raw_attempt [OF assms])
      apply (simp add: raw_outcome_def attempt_outcome_def)
     apply assumption
    subgoal for e es
      by (cases e) (auto intro!: limited failed emits_throw rethrow)
    done
qed

section \<open>All attempts\<close>

text \<open>
  The outcome of a whole send of one batch: at most \<open>n\<close> requests and pauses, every effect allowed,
  and a verdict that is the server's.
\<close>

definition sent_outcome :: "kit \<Rightarrow> agent_env \<Rightarrow> nat \<Rightarrow> exn + bool \<Rightarrow> effect list \<Rightarrow> bool" where
  "sent_outcome K env n res es \<longleftrightarrow>
     (\<forall>x \<in> set es. effect_ok K env x \<and> \<not> is_settled x) \<and> requests es \<le> n \<and> sleeps es \<le> n \<and>
     (case res of
        Inr b \<Rightarrow> b \<longrightarrow> (\<exists>r. last_reply es = Some (Response r) \<and> accepted r)
      | Inl e \<Rightarrow> if is_permanent e then \<exists>r. last_reply es = Some (Response r) \<and> handle_response r = Inl e
               else e = CancelledError \<or> e = OverflowError)"

lemma last_reply_append_Some [simp]: "last_reply es' = Some r \<Longrightarrow> last_reply (es @ es') = Some r"
  by (auto simp: last_reply_append last_reply_def split: if_splits)

lemma sent_outcome_Cons:
  "attempt_outcome K env a (Inr None) es \<Longrightarrow> sent_outcome K env n res es' \<Longrightarrow> sent_outcome K env (Suc n) res (es @ es')"
  by (auto simp: attempt_outcome_def attempt_frame_def sent_outcome_def split: sum.splits if_splits)

lemma sent_outcome_first:
  "attempt_outcome K env a (Inl e) es \<Longrightarrow> sent_outcome K env (Suc n) (Inl e) es"
  "attempt_outcome K env a (Inr (Some b)) es \<Longrightarrow> sent_outcome K env (Suc n) (Inr b) es"
  by (auto simp: attempt_outcome_def attempt_frame_def sent_outcome_def)

lemma emits_send_attempts:
  assumes laws: "kit_laws K"
  shows "emits (send_attempts K env w ep dt attempts)
    (\<lambda>b. sent_outcome K env (length attempts) (Inr b)) (\<lambda>e. sent_outcome K env (length attempts) (Inl e))"
proof (induction attempts)
  case Nil
  show ?case by (auto simp: sent_outcome_def intro!: emits_ret)
next
  case (Cons a attempts)
  show ?case
    unfolding send_attempts.simps
  proof (rule emits_bind [OF emits_weaken [OF emits_send_attempt [OF laws]]])
    show "attempt_outcome K env a (Inr b) es \<Longrightarrow> attempt_outcome K env a (Inr b) es" for b es .
    show "attempt_outcome K env a (Inl e) es \<Longrightarrow> sent_outcome K env (length (a # attempts)) (Inl e) es" for e es
      by (simp add: sent_outcome_first)
    fix b es assume b: "attempt_outcome K env a (Inr b) es"
    show "emits (case b of None \<Rightarrow> send_attempts K env w ep dt attempts | Some b \<Rightarrow> ret b)
        (\<lambda>y es'. sent_outcome K env (length (a # attempts)) (Inr y) (es @ es'))
        (\<lambda>e es'. sent_outcome K env (length (a # attempts)) (Inl e) (es @ es'))"
    proof (cases b)
      case None
      with b sent_outcome_Cons show ?thesis by (auto intro: emits_weaken [OF Cons.IH])
    next
      case (Some c)
      with b show ?thesis by (auto intro!: emits_ret sent_outcome_first(2))
    qed
  qed
qed

lemma length_attempt_numbers: "length (attempt_numbers env) = nat (cf_retry_attempts (ae_config env) + 1)"
  by (simp add: attempt_numbers_def)

lemma emits_send_with_retry:
  assumes "kit_laws K"
  shows "emits (send_with_retry K env w ep d dt)
    (\<lambda>b. sent_outcome K env (length (attempt_numbers env)) (Inr b))
    (\<lambda>e. sent_outcome K env (length (attempt_numbers env)) (Inl e))"
  unfolding send_with_retry_def by (intro emits_silent emits_send_attempts assms)

end
