(* ===== verification/BatchFacts.thy ===== *)
theory BatchFacts
  imports SendFacts "HOL-Library.Sublist"
begin

text \<open>
  Batches: what it means that a send reports success. The trace marks the points where the transport
  settles a part of a batch; \<open>settlements\<close> pairs each part with the last reply received before it.
\<close>

section \<open>Settlements\<close>

fun settlements :: "net_result option \<Rightarrow> effect list \<Rightarrow> (data_item list \<times> net_result option) list" where
  "settlements r [] = []"
| "settlements r (Replied x # es) = settlements (Some x) es"
| "settlements r (Settled xs # es) = (xs, r) # settlements r es"
| "settlements r (_ # es) = settlements r es"

definition settled_items :: "effect list \<Rightarrow> data_item list" where
  "settled_items es = concat (map fst (settlements None es))"

text \<open>
  The server's word that a part is done with: a reply that accepts it, or one that rejects it for
  good; a part rejected as too large has a single item.
\<close>

definition backed :: "data_item list \<Rightarrow> net_result option \<Rightarrow> bool" where
  "backed xs r \<longleftrightarrow> (\<exists>resp. r = Some (Response resp) \<and>
     (accepted resp
      \<or> (\<exists>e. handle_response resp = Inl e \<and> is_permanent e \<and> (hr_status resp = 413 \<longrightarrow> length xs = 1))))"

lemma last_reply_Replied [simp]: "last_reply (Replied r # es) = (if last_reply es = None then Some r else last_reply es)"
  by (simp add: last_reply_def)

lemma settlements_append:
  "settlements r (es @ es') = settlements r es @ settlements (if last_reply es = None then r else last_reply es) es'"
proof (induction r es rule: settlements.induct)
  case (2 r x es)
  show ?case unfolding append_Cons settlements.simps 2 by (cases "last_reply es") simp_all
qed simp_all

lemma settlements_none [simp]: "\<forall>x \<in> set es. \<not> is_settled x \<Longrightarrow> settlements r es = []"
  by (induction r es rule: settlements.induct) auto

lemma settlements_hooks [simp]: "settlements r (map Hooked cs) = []"
  by (rule settlements_none) auto

lemma fst_settlements: "map fst (settlements r es) = map fst (settlements r' es)"
  by (induction r es arbitrary: r' rule: settlements.induct) auto

lemma settled_items_eq: "concat (map fst (settlements r es)) = settled_items es"
  unfolding settled_items_def using fst_settlements [of r es None] by simp

lemma settled_items_append [simp]: "settled_items (es @ es') = settled_items es @ settled_items es'"
  by (subst settled_items_def) (simp add: settlements_append settled_items_eq)

lemma settled_items_simps [simp]:
  "settled_items [] = []" "settled_items [Settled xs] = xs"
  "settled_items (map Hooked cs) = []" "settled_items (Settled xs # map Hooked cs) = xs"
  by (simp_all add: settled_items_def)

lemma settled_items_none [simp]: "\<forall>x \<in> set es. \<not> is_settled x \<Longrightarrow> settled_items es = []"
  by (simp add: settled_items_def)

text \<open>Every settlement of a stretch of the trace is backed, whatever reply came before the stretch.\<close>

definition all_backed :: "effect list \<Rightarrow> bool" where
  "all_backed es \<longleftrightarrow> (\<forall>r. \<forall>(xs, s) \<in> set (settlements r es). backed xs s)"

lemma all_backed_append: "all_backed es \<Longrightarrow> all_backed es' \<Longrightarrow> all_backed (es @ es')"
  by (auto simp: all_backed_def settlements_append)

lemma all_backed_none: "\<forall>x \<in> set es. \<not> is_settled x \<Longrightarrow> all_backed es"
  by (simp add: all_backed_def)

lemma all_backed_settle:
  assumes "\<forall>x \<in> set es. \<not> is_settled x" and "last_reply es = Some s" and "backed xs (Some s)"
  shows "all_backed (es @ Settled xs # map Hooked cs)" "all_backed (es @ [Settled xs])"
  using assms by (auto simp: all_backed_def settlements_append)

section \<open>Sending a batch\<close>

definition batch_outcome ::
  "kit \<Rightarrow> agent_env \<Rightarrow> data_item list \<Rightarrow> exn + bool \<Rightarrow> effect list \<Rightarrow> bool" where
  "batch_outcome K env items res es \<longleftrightarrow>
     (\<forall>x \<in> set es. effect_ok K env x) \<and> requests es \<le> (2 * length items - 1) * length (attempt_numbers env) \<and>
     all_backed es \<and> subseq (settled_items es) items \<and>
     (case res of Inr b \<Rightarrow> b \<longrightarrow> settled_items es = items | Inl e \<Rightarrow> e = CancelledError)"

lemma handle_response_413:
  "handle_response r = Inl (PayloadTooLargeError d) \<Longrightarrow> hr_status r = 413"
  "handle_response r = Inl e \<Longrightarrow> is_permanent e \<Longrightarrow> hr_status r = 413 \<Longrightarrow> \<exists>d. e = PayloadTooLargeError d"
  by (auto simp: handle_response_def Let_def raise_for_permanent_error_def non_retryable_status_codes_def
      split: if_splits)

lemma split_bound:
  fixes n N :: nat
  assumes "2 \<le> n" and "r \<le> N" and "a \<le> (2 * (n div 2) - 1) * N" and "b \<le> (2 * (n - n div 2) - 1) * N"
  shows "r + (a + b) \<le> (2 * n - 1) * N"
proof -
  have "1 + ((2 * (n div 2) - 1) + (2 * (n - n div 2) - 1)) = 2 * n - 1" using assms(1) by linarith
  then have "N + ((2 * (n div 2) - 1) * N + (2 * (n - n div 2) - 1) * N) = (2 * n - 1) * N"
    by (metis add_mult_distrib mult_1)
  with assms(2-4) show ?thesis by linarith
qed

lemma one_batch_bound: "r \<le> N \<Longrightarrow> 0 < n \<Longrightarrow> r \<le> (2 * n - Suc 0) * (N::nat)"
  by (cases n) simp_all

lemma emits_drop:
  assumes laws: "kit_laws K" and items: "items \<noteq> []"
    and e: "is_permanent e" "(\<exists>d. e = PayloadTooLargeError d) \<Longrightarrow> length items = 1"
    and sent: "sent_outcome K env (length (attempt_numbers env)) (Inl e) es"
  shows "emits (bind_op (drop_permanent_rejection env k items e) (\<lambda>_. ret True))
    (\<lambda>b es'. batch_outcome K env (map (sk_item k) items) (Inr b) (es @ es'))
    (\<lambda>x es'. batch_outcome K env (map (sk_item k) items) (Inl x) (es @ es'))"
proof -
  let ?items = "map (sk_item k) items"
  obtain r where r: "last_reply es = Some (Response r)" "handle_response r = Inl e"
    using sent e(1) by (auto simp: sent_outcome_def)
  have "hr_status r = 413 \<longrightarrow> length items = 1" using handle_response_413(2) [OF r(2) e(1)] e(2) by blast
  then have b: "backed ?items (Some (Response r))" using r(2) e(1) by (auto simp: backed_def)
  have "requests es \<le> (2 * length items - Suc 0) * length (attempt_numbers env)"
    using sent items by (intro one_batch_bound) (simp_all add: sent_outcome_def)
  then have out: "batch_outcome K env ?items res (es @ Settled ?items # map Hooked cs)"
    if "res = Inr True \<or> res = Inl CancelledError" for res cs
    using that sent items all_backed_settle(1) [OF _ r(1) b]
    by (auto simp: batch_outcome_def sent_outcome_def)
  show ?thesis
    unfolding drop_permanent_rejection_def count_failed_def
    apply (rule emits_bind [where R = "\<lambda>_ es. \<exists>cs. es = Settled ?items # map Hooked cs"])
     apply (intro emits_emit_bind emits_silent emits_fire_hook)
      apply auto [1]
     apply (use out in auto) [1]
    apply (rule emits_ret)
    apply (use out in auto)
    done
qed

lemma batch_outcome_split:
  assumes sent: "sent_outcome K env (length (attempt_numbers env)) (Inl e) es" and n: "2 \<le> length items"
    and l: "batch_outcome K env (take (length items div 2) items) (Inr x) es1"
    and r: "batch_outcome K env (drop (length items div 2) items) res es2"
    and res': "case res of Inr y \<Rightarrow> res' = Inr (x \<and> y) | Inl e \<Rightarrow> res' = Inl e"
  shows "batch_outcome K env items res' (es @ es1 @ es2)"
proof -
  let ?h = "length items div 2"
  have h: "length (take ?h items) = ?h" "length (drop ?h items) = length items - ?h" by simp_all
  have none: "\<forall>x \<in> set es. \<not> is_settled x" using sent by (simp add: sent_outcome_def)
  have "requests (es @ es1 @ es2) \<le> (2 * length items - 1) * length (attempt_numbers env)"
    using split_bound [OF n, of "requests es" "length (attempt_numbers env)" "requests es1" "requests es2"]
      sent l r by (simp add: sent_outcome_def batch_outcome_def h)
  moreover have "all_backed (es @ es1 @ es2)"
    using l r by (intro all_backed_append all_backed_none [OF none]) (simp_all add: batch_outcome_def)
  moreover have "subseq (settled_items (es @ es1 @ es2)) items"
    using l r none list_emb_append_mono [of "(=)" "settled_items es1" "take ?h items" "settled_items es2" "drop ?h items"]
    by (simp add: batch_outcome_def)
  moreover have "case res' of Inr b \<Rightarrow> b \<longrightarrow> settled_items (es @ es1 @ es2) = items | Inl e \<Rightarrow> e = CancelledError"
    using l r none res' by (auto simp: batch_outcome_def split: sum.splits)
  moreover have "\<forall>x \<in> set (es @ es1 @ es2). effect_ok K env x"
    using sent l r by (auto simp: batch_outcome_def sent_outcome_def)
  ultimately show ?thesis unfolding batch_outcome_def by blast
qed

lemma batch_outcome_left_error:
  assumes sent: "sent_outcome K env (length (attempt_numbers env)) (Inl e) es" and n: "2 \<le> length items"
    and l: "batch_outcome K env (take (length items div 2) items) (Inl e') es1"
  shows "batch_outcome K env items (Inl e') (es @ es1)"
proof -
  have "batch_outcome K env (drop (length items div 2) items) (Inl CancelledError) []"
    by (auto simp: batch_outcome_def all_backed_def)
  moreover have "batch_outcome K env (take (length items div 2) items) (Inr False) es1" "e' = CancelledError"
    using l by (auto simp: batch_outcome_def)
  ultimately show ?thesis using batch_outcome_split [OF sent n, of False es1 "Inl CancelledError" "[]"] by simp
qed

lemma emits_send_items:
  assumes laws: "kit_laws K"
  shows "emits (send_items K env w k items)
    (\<lambda>b. batch_outcome K env (map (sk_item k) items) (Inr b))
    (\<lambda>e. batch_outcome K env (map (sk_item k) items) (Inl e))"
proof (induction items rule: length_induct)
  case (1 items)
  let ?items = "map (sk_item k) items"
  let ?N = "length (attempt_numbers env)"
  let ?h = "length items div 2"
  show ?case
  proof (cases "items = []")
    case True
    then show ?thesis
      by (auto simp: send_items.simps batch_outcome_def all_backed_def intro!: emits_ret)
  next
    case False
    have caught: "batch_outcome K env ?items (Inr False) es" "e = CancelledError \<Longrightarrow> batch_outcome K env ?items (Inl e) es"
      if "sent_outcome K env ?N res es" for res es e
    proof -
      have "requests es \<le> (2 * length items - Suc 0) * ?N"
        using that False by (intro one_batch_bound) (simp_all add: sent_outcome_def)
      with that show "batch_outcome K env ?items (Inr False) es"
          "e = CancelledError \<Longrightarrow> batch_outcome K env ?items (Inl e) es"
        by (auto simp: batch_outcome_def sent_outcome_def all_backed_none)
    qed
    have done_ok: "batch_outcome K env ?items (Inr True) (es @ [Settled ?items])"
      if s: "sent_outcome K env ?N (Inr True) es" for es
    proof -
      from s obtain r where r: "last_reply es = Some (Response r)" "accepted r" by (auto simp: sent_outcome_def)
      then have "backed ?items (Some (Response r))" by (auto simp: backed_def)
      with all_backed_settle(2) [OF _ r(1) this] s caught(1) [OF s] show ?thesis
        by (auto simp: batch_outcome_def sent_outcome_def)
    qed
    have split: "emits (bind_op (send_items K env w k (take ?h items)) (\<lambda>left.
          bind_op (send_items K env w k (drop ?h items)) (\<lambda>right. ret (left \<and> right))))
        (\<lambda>b es'. batch_outcome K env ?items (Inr b) (es @ es'))
        (\<lambda>e es'. batch_outcome K env ?items (Inl e) (es @ es'))"
      if sent: "sent_outcome K env ?N (Inl e) es" and n: "2 \<le> length items" for e es
    proof -
      have l: "emits (send_items K env w k (take ?h items))
          (\<lambda>b. batch_outcome K env (take ?h ?items) (Inr b)) (\<lambda>e. batch_outcome K env (take ?h ?items) (Inl e))"
        using 1 n by (auto simp: take_map)
      have r: "emits (send_items K env w k (drop ?h items))
          (\<lambda>b. batch_outcome K env (drop ?h ?items) (Inr b)) (\<lambda>e. batch_outcome K env (drop ?h ?items) (Inl e))"
        using 1 n by (auto simp: drop_map)
      note whole = batch_outcome_split [OF sent, of ?items, simplified length_map, OF n]
      note left_error = batch_outcome_left_error [OF sent, of ?items, simplified length_map, OF n]
      have both: "emits (bind_op (send_items K env w k (drop ?h items)) (\<lambda>right. ret (left \<and> right)))
          (\<lambda>y es2. batch_outcome K env ?items (Inr y) (es @ es1 @ es2))
          (\<lambda>e es2. batch_outcome K env ?items (Inl e) (es @ es1 @ es2))"
        if "batch_outcome K env (take ?h ?items) (Inr left) es1" for left es1
      proof (rule emits_bind [OF emits_weaken [OF r]])
        show "batch_outcome K env (drop ?h ?items) (Inr b) es2 \<Longrightarrow> batch_outcome K env (drop ?h ?items) (Inr b) es2"
          for b es2 .
        show "batch_outcome K env (drop ?h ?items) (Inl e) es2 \<Longrightarrow> batch_outcome K env ?items (Inl e) (es @ es1 @ es2)"
          for e es2 by (rule whole [OF that], assumption, simp)
        show "batch_outcome K env (drop ?h ?items) (Inr b) es2 \<Longrightarrow>
            emits (ret (left \<and> b)) (\<lambda>y es'. batch_outcome K env ?items (Inr y) (es @ es1 @ es2 @ es'))
              (\<lambda>e es'. batch_outcome K env ?items (Inl e) (es @ es1 @ es2 @ es'))" for b es2
          by (rule emits_ret, simp, rule whole [OF that], assumption, simp)
      qed
      show ?thesis
      proof (rule emits_bind [OF emits_weaken [OF l]])
        show "batch_outcome K env (take ?h ?items) (Inr b) es1 \<Longrightarrow> batch_outcome K env (take ?h ?items) (Inr b) es1"
          for b es1 .
      qed (simp_all add: left_error both)
    qed
    have drop: "emits (bind_op (drop_permanent_rejection env k items e) (\<lambda>_. ret True))
        (\<lambda>b es'. batch_outcome K env ?items (Inr b) (es @ es')) (\<lambda>x es'. batch_outcome K env ?items (Inl x) (es @ es'))"
      if "is_permanent e" "(\<exists>d. e = PayloadTooLargeError d) \<Longrightarrow> length items \<le> 1" "sent_outcome K env ?N (Inl e) es"
      for e es
      by (rule emits_drop [OF laws False that(1) _ that(3)]) (use that(2) False in \<open>cases items; auto\<close>)
    show ?thesis
      apply (subst send_items.simps, subst if_not_P, rule False)
      apply (rule emits_catch [where R = "\<lambda>e. sent_outcome K env ?N (Inl e)"])
       apply (intro emits_silent)
       apply (rule emits_bind, rule emits_weaken, rule emits_send_with_retry [OF laws], assumption, assumption)
       apply (intro emits_emit_bind emits_ret)
       apply (use caught(1) done_ok in auto) [1]
      subgoal for e es
        using caught(1) [of "Inl e" es] caught(2) [of "Inl e" es e]
        by (cases e) (auto simp: count_failed_def intro!: split drop emits_silent emits_ret emits_throw)
      done
  qed
qed

end
