(* ===== verification/Transport.thy ===== *)
theory Transport
  imports BatchFacts
begin

text \<open>
  The transport as its clients see it: the four calls of \<open>TransportProtocol\<close>, and what holds of each
  of them whatever the server answers, the clock reads, and other tasks do meanwhile.
\<close>

section \<open>Fetching\<close>

lemma emits_raw_get:
  assumes "kit_laws K"
  shows "emits (bind_op (limiter_acquire w) (\<lambda>ok.
        if \<not> ok then bind_op (limiter_retry_after w) (\<lambda>t. bind_op (sleep_op w LimiterWait (Fin t)) (\<lambda>_. ret None))
        else bind_op (breaker_call w (make_request K env w ''GET'' ep)) (\<lambda>v. case v of
            PDict d \<Rightarrow> bind_op count_sent (\<lambda>_. ret (Some d)) | _ \<Rightarrow> bind_op count_failed (\<lambda>_. ret None))))
     (\<lambda>b es. attempt_frame K env es \<and> sleeps es \<le> 1) (\<lambda>e. raw_outcome K env (Inl e))"
  apply (rule emits_bind [where R = "\<lambda>_ es. es = []"], rule emits_limiter_acquire, simp)
  apply (simp, intro conjI impI)
   apply (rule emits_bind [where R = "\<lambda>t es. es = [] \<and> 0 \<le> t"], rule emits_limiter_retry_after, simp)
   apply (rule emits_bind [where R = "\<lambda>_ es. es = [Slept LimiterWait (Fin t)]" for t], rule emits_sleep, rule refl)
    apply (auto simp: raw_outcome_def attempt_frame_def delay_ok_def intro!: emits_ret) [2]
  apply (rule emits_bind [where R = "\<lambda>v es. tried K env (Inr v) es"])
   apply (rule emits_weaken, rule emits_guarded_request [OF assms], assumption)
   apply (auto simp: tried_def raw_outcome_def) [1]
  apply (auto simp: tried_def count_sent_def count_failed_def split: pyval.split intro!: emits_silent emits_ret)
  done

lemma emits_get_attempt:
  assumes "kit_laws K"
  shows "emits (get_attempt K env w ep attempt) (\<lambda>_ es. attempt_frame K env es \<and> sleeps es \<le> 1)
    (\<lambda>e es. attempt_frame K env es \<and> sleeps es \<le> 1 \<and> (e = CancelledError \<or> e = OverflowError))"
proof -
  let ?Q = "\<lambda>_ es. attempt_frame K env es \<and> sleeps es \<le> 1"
  let ?E = "\<lambda>e es. attempt_frame K env es \<and> sleeps es \<le> 1 \<and> (e = CancelledError \<or> e = OverflowError)"
  have pause: "emits (bind_op (sleep_op w reason d) (\<lambda>_. ret (None :: pydict option))) (\<lambda>y es'. ?Q y (es @ es')) (\<lambda>e es'. ?E e (es @ es'))"
    if "attempt_frame K env es" "sleeps es = 0" "delay_ok env reason d" for reason d es
    using that by (intro emits_bind [where R = "\<lambda>_ es. es = [Slept reason d]"] emits_sleep emits_ret) auto
  have limited: "delay_ok env RetryAfterWait (pf_min f (Fin max_retry_after_seconds))"
    if raw: "raw_outcome K env (Inl (RateLimitedError f)) es" for f es
  proof -
    from raw obtain r where "handle_response r = Inl (RateLimitedError f)" by (auto simp: raw_outcome_def)
    then have "retry_delay f" by (rule handle_response_delay)
    from pf_min_delay [OF this] show ?thesis by (auto simp: delay_ok_def max_retry_after_seconds_def)
  qed
  have failed: "emits (bind_op (of_result (calculate_backoff_delay attempt (cf_backoff_factor (ae_config env)) 60)) (\<lambda>delay.
         bind_op (sleep_op w BackoffWait (Fin delay)) (\<lambda>_. ret (None :: pydict option))))
       (\<lambda>y es'. ?Q y (es @ es')) (\<lambda>e es'. ?E e (es @ es'))"
    if s: "attempt_frame K env es" "sleeps es = 0" for es
    apply (rule emits_bind [where R = "\<lambda>d es. es = [] \<and> delay_ok env BackoffWait (Fin d)"])
     apply (rule emits_of_result, simp add: backoff_delay_ok)
     apply (use s in \<open>auto dest: calculate_backoff_delay_error\<close>) [1]
    apply (use pause [OF s] in auto)
    done
  let ?retry = "int attempt < cf_retry_attempts (ae_config env)"
  have give_up: "emits (bind_op count_failed (\<lambda>_. ret (None :: pydict option))) (\<lambda>y es'. ?Q y (es @ es')) (\<lambda>e es'. ?E e (es @ es'))"
    if "raw_outcome K env (Inl e) es" for e es
    using that by (auto simp: count_failed_def raw_outcome_def intro!: emits_silent emits_ret)
  have rate: "emits (if ?retry
        then bind_op (sleep_op w RetryAfterWait (pf_min f (Fin max_retry_after_seconds))) (\<lambda>_. ret (None :: pydict option))
        else bind_op count_failed (\<lambda>_. ret (None :: pydict option))) (\<lambda>y es'. ?Q y (es @ es')) (\<lambda>e es'. ?E e (es @ es'))"
    if raw: "raw_outcome K env (Inl (RateLimitedError f)) es" for f es
    using pause [OF _ _ limited [OF raw], of es] give_up [OF raw] raw
    by (auto simp: raw_outcome_def)
  have other: "emits (if \<not> catchable e then throw e
        else if ?retry then bind_op (of_result (calculate_backoff_delay attempt (cf_backoff_factor (ae_config env)) 60)) (\<lambda>delay.
           bind_op (sleep_op w BackoffWait (Fin delay)) (\<lambda>_. ret (None :: pydict option)))
        else bind_op count_failed (\<lambda>_. ret (None :: pydict option))) (\<lambda>y es'. ?Q y (es @ es')) (\<lambda>e es'. ?E e (es @ es'))"
    if raw: "raw_outcome K env (Inl e) es" for e es
  proof (cases "catchable e")
    case True
    with raw have "attempt_frame K env es" "sleeps es = 0" by (auto simp: raw_outcome_def)
    from failed [OF this] give_up [OF raw] True show ?thesis by simp
  next
    case False
    with raw show ?thesis by (auto simp: raw_outcome_def not_catchable intro!: emits_throw)
  qed
  show ?thesis
    unfolding get_attempt_def
    apply (rule emits_catch [where R = "\<lambda>e es. raw_outcome K env (Inl e) es"])
     apply (rule emits_raw_get [OF assms])
    subgoal for e es by (cases e) (simp_all only: exn.case rate other)
    done
qed

text \<open>A call that settles nothing: effects, numbers of requests and pauses, exceptions.\<close>

definition call_outcome :: "kit \<Rightarrow> agent_env \<Rightarrow> nat \<Rightarrow> exn option \<Rightarrow> effect list \<Rightarrow> bool" where
  "call_outcome K env n e es \<longleftrightarrow> (\<forall>x \<in> set es. effect_ok K env x \<and> \<not> is_settled x)
     \<and> requests es \<le> n \<and> sleeps es \<le> n \<and> (e = None \<or> e = Some CancelledError \<or> e = Some OverflowError)"

lemma call_outcome_append:
  "attempt_frame K env es \<Longrightarrow> sleeps es \<le> 1 \<Longrightarrow> call_outcome K env n e es' \<Longrightarrow> call_outcome K env (Suc n) e (es @ es')"
  by (auto simp: call_outcome_def attempt_frame_def)

lemma emits_get_attempts:
  assumes laws: "kit_laws K"
  shows "emits (get_attempts K env w ep attempts)
    (\<lambda>_. call_outcome K env (length attempts) None) (\<lambda>e. call_outcome K env (length attempts) (Some e))"
proof (induction attempts)
  case Nil
  show ?case by (auto simp: call_outcome_def intro!: emits_ret)
next
  case (Cons a attempts)
  have stop: "attempt_frame K env es \<Longrightarrow> sleeps es \<le> 1 \<Longrightarrow> e = None \<or> e = Some CancelledError \<or> e = Some OverflowError
      \<Longrightarrow> call_outcome K env (Suc n) e es" for n e es
    by (auto simp: call_outcome_def attempt_frame_def)
  show ?case
    unfolding get_attempts.simps
    apply (rule emits_bind, rule emits_weaken, rule emits_get_attempt [OF laws], assumption)
     apply (simp add: stop)
    subgoal for x es
      by (cases x) (auto intro!: emits_weaken [OF Cons.IH] emits_ret intro: stop call_outcome_append)
    done
qed

lemma emits_get_with_retry:
  assumes "kit_laws K"
  shows "emits (get_with_retry K env w ep)
    (\<lambda>_. call_outcome K env (length (attempt_numbers env)) None)
    (\<lambda>e. call_outcome K env (length (attempt_numbers env)) (Some e))"
  unfolding get_with_retry_def by (intro emits_silent emits_get_attempts assms)

section \<open>The calls\<close>

datatype call =
  SendEvents "security_event list" | SendMetrics "security_metric list" | SendStatus agent_status | FetchRules

text \<open>The call, with the kind of its result forgotten.\<close>

definition discard :: "'a op \<Rightarrow> unit op" where
  "discard m = bind_op m (\<lambda>_. ret ())"

fun transport_call :: "kit \<Rightarrow> agent_env \<Rightarrow> world \<Rightarrow> call \<Rightarrow> unit op" where
  "transport_call K env w (SendEvents events) = discard (send_events K env w events)"
| "transport_call K env w (SendMetrics metrics) = discard (send_metrics K env w metrics)"
| "transport_call K env w (SendStatus status) = discard (send_status K env w status)"
| "transport_call K env w FetchRules = discard (fetch_dynamic_rules K env w)"

text \<open>The most requests a call may make.\<close>

fun call_requests :: "agent_env \<Rightarrow> call \<Rightarrow> nat" where
  "call_requests env (SendEvents events) = (2 * length events - 1) * length (attempt_numbers env)"
| "call_requests env (SendMetrics metrics) = (2 * length metrics - 1) * length (attempt_numbers env)"
| "call_requests env _ = length (attempt_numbers env)"

lemma emits_discard:
  "emits m (\<lambda>_. Q) E \<Longrightarrow> emits (discard m) (\<lambda>_. Q) E"
  unfolding discard_def by (erule emits_bind) (auto intro: emits_ret)

lemma emits_send_events:
  "kit_laws K \<Longrightarrow> emits (send_events K env w events)
     (\<lambda>b. batch_outcome K env (map ItemEvent events) (Inr b)) (\<lambda>e. batch_outcome K env (map ItemEvent events) (Inl e))"
  using emits_send_items [of K env w events_kind events] by (simp add: send_events_def events_kind_def)

lemma emits_send_metrics:
  "kit_laws K \<Longrightarrow> emits (send_metrics K env w metrics)
     (\<lambda>b. batch_outcome K env (map ItemMetric metrics) (Inr b)) (\<lambda>e. batch_outcome K env (map ItemMetric metrics) (Inl e))"
  using emits_send_items [of K env w metrics_kind metrics] by (simp add: send_metrics_def metrics_kind_def)

lemma emits_send_status:
  assumes "kit_laws K"
  shows "emits (send_status K env w status)
    (\<lambda>_ es. (\<forall>x \<in> set es. effect_ok K env x \<and> \<not> is_settled x) \<and> requests es \<le> length (attempt_numbers env))
    (\<lambda>e es. e = CancelledError \<and> (\<forall>x \<in> set es. effect_ok K env x \<and> \<not> is_settled x) \<and> requests es \<le> length (attempt_numbers env))"
  unfolding send_status_def
  apply (rule emits_catch [OF emits_weaken [OF emits_send_with_retry [OF assms]]])
    apply (simp add: sent_outcome_def)
   apply assumption
  apply (auto simp: sent_outcome_def not_catchable intro!: emits_ret emits_throw)
  done

lemma emits_fetch_dynamic_rules:
  assumes "kit_laws K"
  shows "emits (fetch_dynamic_rules K env w)
    (\<lambda>_ es. (\<forall>x \<in> set es. effect_ok K env x \<and> \<not> is_settled x) \<and> requests es \<le> length (attempt_numbers env))
    (\<lambda>e es. e = CancelledError \<and> (\<forall>x \<in> set es. effect_ok K env x \<and> \<not> is_settled x) \<and> requests es \<le> length (attempt_numbers env))"
  unfolding fetch_dynamic_rules_def
  apply (rule emits_catch [where R = "\<lambda>e es. (\<forall>x \<in> set es. effect_ok K env x \<and> \<not> is_settled x) \<and> requests es \<le> length (attempt_numbers env)"])
   apply (rule emits_bind [OF emits_weaken [OF emits_get_with_retry [OF assms]]], assumption)
    apply (simp add: call_outcome_def)
   apply (auto simp: call_outcome_def not_catchable split: option.split
       intro!: emits_ret emits_throw emits_bind [where R = "\<lambda>_ es. es = []"] emits_of_result)
  done

lemma emits_transport_call:
  assumes "kit_laws K"
  shows "emits (transport_call K env w call)
    (\<lambda>_ es. (\<forall>x \<in> set es. effect_ok K env x) \<and> requests es \<le> call_requests env call)
    (\<lambda>e es. e = CancelledError \<and> (\<forall>x \<in> set es. effect_ok K env x) \<and> requests es \<le> call_requests env call)"
  by (cases call)
     (auto intro!: emits_discard emits_weaken [OF emits_send_status [OF assms]]
        emits_weaken [OF emits_fetch_dynamic_rules [OF assms]]
        emits_weaken [OF emits_send_events [OF assms]] emits_weaken [OF emits_send_metrics [OF assms]]
        simp: batch_outcome_def)

section \<open>What the calls guarantee\<close>

lemma map_sum_Some: "map_sum id Some x = Inr (Some y) \<longleftrightarrow> x = Inr y"
  by (cases x) simp_all

text \<open>
  C1: a batch is reported as sent only on the server's word. When \<open>send_events\<close> or \<open>send_metrics\<close>
  returns True, the parts the transport settled, in order, are exactly the batch: no item is lost
  or settled twice, however often it was split. Each part was settled right after a reply that
  accepts it (200 or 201, with no failure reported in the body) or rejects it for good, and only
  a single item is ever given up as too large.
\<close>

theorem sent_means_settled:
  assumes laws: "kit_laws K" and sent: "send_items K env w k items s = (Inr True, s')"
  shows "\<exists>es. rn_trace s' = rn_trace s @ es \<and> settled_items es = map (sk_item k) items \<and> all_backed es"
proof -
  obtain es where "rn_trace s' = rn_trace s @ es" "batch_outcome K env (map (sk_item k) items) (Inr True) es"
    using emitsD [OF emits_send_items [OF laws] sent] by metis
  then show ?thesis by (auto simp: batch_outcome_def)
qed

text \<open>
  C16: sending a batch always comes to an end with True, False or a cancellation, after at most
  \<open>2n - 1\<close> times \<open>retry_attempts + 1\<close> requests for \<open>n\<close> items, and whatever it settled on the way is
  a part of the batch, each item once.
\<close>

theorem sending_is_bounded:
  assumes laws: "kit_laws K" and sent: "send_items K env w k items s = (res, s')"
  shows "(res = Inr True \<or> res = Inr False \<or> res = Inl CancelledError) \<and>
    (\<exists>es. rn_trace s' = rn_trace s @ es \<and> subseq (settled_items es) (map (sk_item k) items) \<and> all_backed es
      \<and> requests es \<le> (2 * length items - 1) * nat (cf_retry_attempts (ae_config env) + 1))"
proof -
  obtain es where es: "rn_trace s' = rn_trace s @ es" "batch_outcome K env (map (sk_item k) items) res es"
    using emitsD [OF emits_send_items [OF laws] sent] by (metis sum.exhaust)
  then have "res = Inr True \<or> res = Inr False \<or> res = Inl CancelledError"
    by (cases res) (auto simp: batch_outcome_def)
  with es show ?thesis by (auto simp: batch_outcome_def length_attempt_numbers)
qed

text \<open>
  C14: whatever is called, every request carries a redacted payload: the body is the JSON text of a
  dict (compressed or not) in which no metadata and no tags hold a value under a sensitive key, or
  it carries the encryption of such a dict; and while encryption is on, the plain event and metric
  endpoints are never posted to.
\<close>

theorem requests_are_safe:
  assumes laws: "kit_laws K" and call: "transport_call K env w call s = (res, s')"
  shows "\<exists>es. rn_trace s' = rn_trace s @ es \<and> (\<forall>req \<in> set es. is_request req \<longrightarrow> request_ok K env req)"
proof -
  obtain es where es: "rn_trace s' = rn_trace s @ es" "\<forall>x \<in> set es. effect_ok K env x"
    using emitsD [OF emits_transport_call [OF laws] call] by (metis sum.exhaust)
  have "effect_ok K env x \<Longrightarrow> is_request x \<Longrightarrow> request_ok K env x" for x by (cases x) auto
  with es show ?thesis by blast
qed

text \<open>
  C17: no call of the transport raises anything but a cancellation, none makes more requests than
  its attempts allow, and no pause is longer than 300 seconds on the server's demand or 60 seconds
  of backoff.
\<close>

theorem calls_are_bounded:
  assumes laws: "kit_laws K" and call: "transport_call K env w call s = (res, s')"
  shows "(res = Inr () \<or> res = Inl CancelledError) \<and>
    (\<exists>es. rn_trace s' = rn_trace s @ es \<and> requests es \<le> call_requests env call
      \<and> (\<forall>reason d. Slept reason d \<in> set es \<longrightarrow> delay_ok env reason d))"
proof -
  obtain es where es: "rn_trace s' = rn_trace s @ es" "\<forall>x \<in> set es. effect_ok K env x"
      "requests es \<le> call_requests env call" "\<And>e. res = Inl e \<Longrightarrow> e = CancelledError"
    using emitsD [OF emits_transport_call [OF laws] call] by (metis sum.exhaust)
  then have "res = Inr () \<or> res = Inl CancelledError" by (cases res) auto
  with es show ?thesis by fastforce
qed

text \<open>
  C15: no fallback to plaintext. A transport configured with an encryption key is created only with
  an encryptor that passed its round trip, and no call of it ever posts to a plain event or metric
  endpoint.
\<close>

theorem no_plaintext_fallback:
  assumes laws: "kit_laws K"
    and key: "cf_encryption_key c = Some project_key" "project_key \<noteq> []"
    and init: "transport_init (kt_crypt K) c install_id pid nonce = Inr (env, tp)"
    and call: "transport_call K env w call s = (res, s')"
  shows "(\<exists>key. ae_encryptor env = Some key \<and> length key = 32 \<and> verify_key (kt_crypt K) key nonce = Inr True)
    \<and> (\<exists>es. rn_trace s' = rn_trace s @ es \<and> (\<forall>url body hs d. Posted url body hs d \<in> set es \<longrightarrow>
          url \<noteq> endpoint_base env @ ''/api/v1/events'' \<and> url \<noteq> endpoint_base env @ ''/api/v1/metrics''))"
proof -
  obtain k where k: "ae_encryptor env = Some k" "verify_key (kt_crypt K) k nonce = Inr True"
      "encryptor_init project_key = Inr k" "ae_encryption_enabled env"
    using init key
    by (auto simp: transport_init_def init_encryption_def create_encryptor_def startup_refused_def Let_def
        map_sum_Some split: sum.splits option.splits if_splits exn.splits)
  obtain es where es: "rn_trace s' = rn_trace s @ es" "\<forall>x \<in> set es. effect_ok K env x"
    using emitsD [OF emits_transport_call [OF laws] call] by (metis sum.exhaust)
  have "url \<noteq> endpoint_base env @ ''/api/v1/events'' \<and> url \<noteq> endpoint_base env @ ''/api/v1/metrics''"
    if "Posted url body hs d \<in> set es" for url body hs d
  proof -
    from es(2) that have "wire_plain K env url d \<or> wire_encrypted K env url d" by fastforce
    with k(4) show ?thesis
      by (auto simp: wire_plain_def targets_encrypted_def wire_encrypted_def encrypted_url_def encrypted_endpoints_def)
  qed
  then have "\<forall>url body hs d. Posted url body hs d \<in> set es \<longrightarrow>
      url \<noteq> endpoint_base env @ ''/api/v1/events'' \<and> url \<noteq> endpoint_base env @ ''/api/v1/metrics''" by blast
  moreover have "length k = 32" using encryptor_init_key [OF k(3)] by (simp add: key_size_def)
  ultimately show ?thesis using es(1) k(1,2) by blast
qed

text \<open>
  What the server verifies. It undoes the compression that the headers announce and gets the
  JSON text; when a signing secret is configured, the signature header is the HMAC of that text,
  not of the compressed bytes.
\<close>

definition server_text :: "(string \<Rightarrow> string) \<Rightarrow> string \<times> (string \<times> string) list \<Rightarrow> string" where
  "server_text gunzip = (\<lambda>(body, headers).
     if map_of headers ''Content-Encoding'' = Some ''gzip'' then gunzip body else body)"

theorem signature_covers_text:
  assumes "\<And>x. gunzip (kt_gzip K x) = x"
  shows "server_text gunzip (build_post_body K c js) = js
    \<and> map_of (snd (build_post_body K c js)) ''X-Payload-Signature''
        = (case cf_signing_secret c of None \<Rightarrow> None
           | Some secret \<Rightarrow> if secret = [] then None else Some (''v1='' @ kt_hmac_hex K secret js))"
  using assms by (auto simp: build_post_body_def server_text_def sign_payload_def Let_def split: option.split)

text \<open>
  C20: a request made in a forked child starts afresh. \<open>ensure_client\<close> leaves an open client that
  belongs to the current process; when the process is another one than before, breaker, limiter
  and counters are new, otherwise nothing but the client is touched.
\<close>

theorem forked_child_starts_fresh:
  assumes "ensure_client K env w s = (Inr (), s')"
  shows "tp_client (rn_transport s') = Some False \<and> tp_pid (rn_transport s') = wd_pid w (rn_tick s) \<and>
    (if wd_pid w (rn_tick s) = tp_pid (rn_transport s)
     then rn_transport s' = (rn_transport s)\<lparr>tp_client := Some False\<rparr>
     else cb_state (tp_breaker (rn_transport s')) = Closed \<and> cb_failure_count (tp_breaker (rn_transport s')) = 0
        \<and> rl_calls (tp_limiter (rn_transport s')) = [] \<and> tp_requests_sent (rn_transport s') = 0
        \<and> tp_requests_failed (rn_transport s') = 0 \<and> tp_bytes_sent (rn_transport s') = 0
        \<and> tp_generation (rn_transport s') = Suc (tp_generation (rn_transport s)))"
  using assms
  by (auto simp: ensure_client_def initialize_def bind_op_def ask_def modify_transport_def get_transport_def
      ret_def throw_def reset_after_fork_def circuit_breaker_init_def rate_limiter_init_def
      split: option.splits if_splits)

section \<open>Concrete runs\<close>

text \<open>A kit whose JSON texts are constant, and a server that answers every request in the same way.\<close>

definition sample_kit :: kit where
  "sample_kit = \<lparr>kt_values = sample_codec, kt_dumps = (\<lambda>d. Inr ''{}''), kt_crypt = sample_crypt,
     kt_hmac_hex = (\<lambda>secret body. secret @ body), kt_gzip = (@) ''z'', kt_open_client = (\<lambda>hs. None),
     kt_parse_rules = (\<lambda>d. Inl (ValueError [])),
     kt_dump_batch = (\<lambda>b. [(PStr ''events'', PList [PDict [(PStr ''metadata'', PDict [])]])]),
     kt_dump_status = (\<lambda>s. [(PStr ''status'', PStr ''healthy'')])\<rparr>"

lemma sample_kit_laws: "kit_laws sample_kit"
  using sample_codec_laws by (simp add: kit_laws_def sample_kit_def)

definition sample_env :: agent_env where
  "sample_env = \<lparr>ae_config = (default_config ''0123456789'')\<lparr>cf_endpoint := ''https://h'', cf_retry_attempts := 1\<rparr>,
     ae_install_id = ''i'', ae_encryptor = None, ae_encryption_enabled = False\<rparr>"

definition sample_world :: "net_result \<Rightarrow> world" where
  "sample_world reply = \<lparr>wd_clock = (\<lambda>k. 1000), wd_pid = (\<lambda>k. 7), wd_random = (\<lambda>k. ''abcdefghijkl''),
     wd_batch_id = (\<lambda>k. ''b''), wd_timestamp = (\<lambda>k. ''t''), wd_reply = (\<lambda>k. reply), wd_cancel = (\<lambda>k. False),
     wd_others = (\<lambda>k tp. tp)\<rparr>"

definition status_reply :: "int \<Rightarrow> net_result" where
  "status_reply code = Response \<lparr>hr_status = code, hr_json = None, hr_text = [], hr_retry_after = None, hr_url = []\<rparr>"

definition sample_run :: run where
  "sample_run = \<lparr>rn_transport = \<lparr>tp_client = None, tp_pid = 3, tp_breaker = circuit_breaker_init 5 60,
      tp_limiter = rate_limiter_init 100 60, tp_requests_sent = 4, tp_requests_failed = 0, tp_bytes_sent = 0,
      tp_generation = 0\<rparr>, rn_data = [], rn_tick = 0, rn_trace = []\<rparr>"

lemmas op_simps = bind_op_def ask_def modify_transport_def get_transport_def ret_def throw_def emit_def
  of_result_def catch_op_def always_op_def suspend_def put_data_def get_data_def

lemmas request_simps = breaker_call_def make_request_def ensure_client_def initialize_def cb_admit_def
  redact_sensitive_headers_def redact_field_def redact_entry_def dict_get_def dispatch_request_def
  is_encrypted_target_def post_unencrypted_def post_json_def safe_json_serialize_def build_post_body_def
  sign_payload_def http_op_def net_exn_def handle_response_def cb_settle_def cb_on_success_def
  sanitize_headers_def sanitize_value_eval max_sanitize_depth_def

lemmas send_simps = send_attempt_def limiter_acquire_def rl_acquire_def evaluate_send_result_def
  partial_failure_def count_sent_def attempt_numbers_def send_with_retry_def

lemmas sample_simps = sample_kit_def sample_env_def sample_world_def status_reply_def sample_run_def
  default_config_def rate_limiter_init_def circuit_breaker_init_def reset_after_fork_def events_kind_def

lemma sample_send:
  "fst (send_items sample_kit sample_env (sample_world (status_reply 201)) events_kind [new_event ''k'' ''t'' ''e''] sample_run)
     = Inr True"
  by (simp add: send_items.simps op_simps request_simps send_simps sample_simps Let_def numeral_2_eq_2)

theorem sent_means_settled_witness:
  "\<exists>es. rn_trace (snd (send_items sample_kit sample_env (sample_world (status_reply 201)) events_kind
          [new_event ''k'' ''t'' ''e''] sample_run)) = es
     \<and> settled_items es = [ItemEvent (new_event ''k'' ''t'' ''e'')] \<and> all_backed es"
proof -
  let ?m = "send_items sample_kit sample_env (sample_world (status_reply 201)) events_kind [new_event ''k'' ''t'' ''e''] sample_run"
  have "?m = (Inr True, snd ?m)" using sample_send by (metis prod.collapse)
  from sent_means_settled [OF sample_kit_laws this] show ?thesis by (simp add: sample_run_def events_kind_def)
qed

theorem sending_is_bounded_witness:
  "requests (rn_trace (snd (send_items sample_kit sample_env (sample_world (status_reply 500)) events_kind
          [new_event ''k'' ''t'' ''e''] sample_run))) \<le> 2"
proof -
  let ?m = "send_items sample_kit sample_env (sample_world (status_reply 500)) events_kind [new_event ''k'' ''t'' ''e''] sample_run"
  have "?m = (fst ?m, snd ?m)" by simp
  from sending_is_bounded [OF sample_kit_laws this] show ?thesis
    by (auto simp: sample_run_def sample_env_def)
qed

lemma sample_trace:
  "rn_trace (snd (transport_call sample_kit sample_env (sample_world (status_reply 201)) (SendEvents [new_event ''k'' ''t'' ''e''])
     sample_run)) = [Posted ''https://h/api/v1/events'' ''{}'' [] [(PStr ''events'', PList [PDict [(PStr ''metadata'', PDict [])]])],
       Replied (status_reply 201), Settled [ItemEvent (new_event ''k'' ''t'' ''e'')]]"
  by (simp add: discard_def send_events_def send_items.simps op_simps request_simps send_simps sample_simps Let_def
      numeral_2_eq_2 endpoint_base_def string_eval)

theorem requests_are_safe_witness:
  "request_ok sample_kit sample_env
     (Posted ''https://h/api/v1/events'' ''{}'' [] [(PStr ''events'', PList [PDict [(PStr ''metadata'', PDict [])]])])"
proof -
  let ?m = "transport_call sample_kit sample_env (sample_world (status_reply 201)) (SendEvents [new_event ''k'' ''t'' ''e'']) sample_run"
  have "?m = (fst ?m, snd ?m)" by simp
  from requests_are_safe [OF sample_kit_laws this] sample_trace show ?thesis
    by (auto simp: sample_run_def)
qed

theorem calls_are_bounded_witness:
  "requests (rn_trace (snd (transport_call sample_kit sample_env (sample_world NetTimeout) FetchRules sample_run))) \<le> 2"
proof -
  let ?m = "transport_call sample_kit sample_env (sample_world NetTimeout) FetchRules sample_run"
  have "?m = (fst ?m, snd ?m)" by simp
  from calls_are_bounded [OF sample_kit_laws this] show ?thesis
    by (auto simp: sample_run_def sample_env_def attempt_numbers_def)
qed

text \<open>A configuration with a key, and the transport it gives.\<close>

definition keyed_config :: agent_config where
  "keyed_config = (default_config ''0123456789'')\<lparr>cf_encryption_key := Some (b64_encode (replicate 32 (CHR ''A'')))\<rparr>"

definition keyed_env :: agent_env where
  "keyed_env = \<lparr>ae_config = keyed_config, ae_install_id = ''i'', ae_encryptor = Some (replicate 32 (CHR ''A'')),
     ae_encryption_enabled = True\<rparr>"

lemma keyed_init:
  "transport_init (kt_crypt sample_kit) keyed_config ''i'' 7 ''abcdefghijkl''
     = Inr (keyed_env, (rn_transport sample_run)\<lparr>tp_pid := 7, tp_requests_sent := 0\<rparr>)"
proof -
  have ne: "b64_encode (replicate 32 (CHR ''A'')) \<noteq> []" by simp
  have key: "encryptor_init (b64_encode (replicate 32 (CHR ''A''))) = Inr (replicate 32 (CHR ''A''))"
    by (simp add: encryptor_init_def b64_decode_encode key_size_def)
  have "verify_key sample_crypt (replicate 32 (CHR ''A'')) ''abcdefghijkl'' = Inr True"
    by (rule verify_key_ok [OF sample_crypt_laws key])
       (simp_all add: nonce_size_def json_faithful_def sample_crypt_def test_data_def)
  with ne key show ?thesis
    by (simp add: transport_init_def init_encryption_def create_encryptor_def keyed_config_def keyed_env_def
        sample_kit_def sample_run_def default_config_def)
qed

theorem no_plaintext_fallback_witness:
  "\<exists>key. ae_encryptor keyed_env = Some key \<and> length key = 32 \<and> verify_key (kt_crypt sample_kit) key ''abcdefghijkl'' = Inr True"
proof -
  let ?m = "transport_call sample_kit keyed_env (sample_world (status_reply 201)) (SendEvents [new_event ''k'' ''t'' ''e'']) sample_run"
  have m: "?m = (fst ?m, snd ?m)" by simp
  have key: "cf_encryption_key keyed_config = Some (b64_encode (replicate 32 (CHR ''A'')))"
      "b64_encode (replicate 32 (CHR ''A'')) \<noteq> []"
    by (simp_all add: keyed_config_def)
  from no_plaintext_fallback [OF sample_kit_laws key keyed_init m] show ?thesis by simp
qed

theorem signature_covers_text_witness:
  "map_of (snd (build_post_body sample_kit ((default_config ''0123456789'')\<lparr>cf_signing_secret := Some ''s''\<rparr>) ''{}''))
     ''X-Payload-Signature'' = Some ''v1=s{}''"
  using signature_covers_text [of tl sample_kit "(default_config ''0123456789'')\<lparr>cf_signing_secret := Some ''s''\<rparr>" "''{}''"]
  by (simp add: sample_kit_def)

theorem forked_child_starts_fresh_witness:
  "tp_requests_sent (rn_transport (snd (ensure_client sample_kit sample_env (sample_world NetTimeout) sample_run))) = 0"
proof -
  let ?m = "ensure_client sample_kit sample_env (sample_world NetTimeout) sample_run"
  have "?m = (Inr (), snd ?m)"
    by (simp add: ensure_client_def initialize_def op_simps sample_simps)
  from forked_child_starts_fresh [OF this] show ?thesis
    by (simp add: sample_run_def sample_world_def reset_after_fork_def)
qed

end
