(* ===== verification/ClientFlush.thy ===== *)
theory ClientFlush
  imports Buffer Transport
begin

text \<open>
  Flushing the buffer through the transport (\<open>_client_flush.py\<close>). \<open>_flush_events\<close> and
  \<open>_flush_metrics\<close> are one function on different attributes; what they call on the buffer is a
  record of operations. A flush is modelled in the two stretches around its \<open>await\<close> of the
  transport: \<open>flush_begin\<close> drains, \<open>flush_end\<close> confirms or requeues on the state it then finds,
  which other tasks may have changed meanwhile.
\<close>

section \<open>State and operations\<close>

text \<open>The counters of one lane of the client: \<open>events_sent\<close>, \<open>events_failed\<close>, the streak of failures,
  the time before which no flush is tried.\<close>

record lane_stats =
  ls_sent :: int
  ls_failed :: int
  ls_streak :: nat
  ls_retry_after :: time

definition lane_stats_init :: lane_stats where
  "lane_stats_init = \<lparr>ls_sent = 0, ls_failed = 0, ls_streak = 0, ls_retry_after = 0\<rparr>"

text \<open>The attributes of the client that a flush touches: its buffer (with the Redis side) and counters.\<close>

record ('e, 'm, 'r) client =
  cl_config :: agent_config
  cl_buffer :: "('e, 'm, 'r) buffer_state"
  cl_events :: lane_stats
  cl_metrics :: lane_stats

record ('b, 'x) flush_ops =
  fo_stage :: string
  fo_stats :: "'b \<Rightarrow> lane_stats"
  fo_set_stats :: "lane_stats \<Rightarrow> 'b \<Rightarrow> 'b"
  fo_drain :: "time \<Rightarrow> 'b \<Rightarrow> 'x list \<times> string list \<times> 'b"
  fo_confirm :: "string list \<Rightarrow> 'b \<Rightarrow> (exn + unit) \<times> 'b"
  fo_requeue :: "'x list \<Rightarrow> string list \<Rightarrow> 'b \<Rightarrow> (exn + string list) \<times> 'b"

definition event_flush_ops :: "(('e, 'm, 'r) client, 'e obj) flush_ops" where
  "event_flush_ops = \<lparr>fo_stage = ''flush_events'', fo_stats = cl_events, fo_set_stats = (\<lambda>st. cl_events_update (\<lambda>_. st)),
     fo_drain = (\<lambda>now cl. case cl_buffer cl of (B, r) \<Rightarrow>
       (case flush_events_with_keys now B of (xs, ks, B') \<Rightarrow> (xs, ks, cl\<lparr>cl_buffer := (B', r)\<rparr>))),
     fo_confirm = (\<lambda>ks cl. case confirm_event_redis_keys ks (cl_buffer cl) of (res, b) \<Rightarrow> (res, cl\<lparr>cl_buffer := b\<rparr>)),
     fo_requeue = (\<lambda>xs ks cl. case cl_buffer cl of (B, r) \<Rightarrow>
       (case requeue_events_in_memory xs ks B of (res, B') \<Rightarrow> (res, cl\<lparr>cl_buffer := (B', r)\<rparr>)))\<rparr>"

definition metric_flush_ops :: "(('e, 'm, 'r) client, 'm obj) flush_ops" where
  "metric_flush_ops = \<lparr>fo_stage = ''flush_metrics'', fo_stats = cl_metrics, fo_set_stats = (\<lambda>st. cl_metrics_update (\<lambda>_. st)),
     fo_drain = (\<lambda>now cl. case cl_buffer cl of (B, r) \<Rightarrow>
       (case flush_metrics_with_keys now B of (xs, ks, B') \<Rightarrow> (xs, ks, cl\<lparr>cl_buffer := (B', r)\<rparr>))),
     fo_confirm = (\<lambda>ks cl. case confirm_metric_redis_keys ks (cl_buffer cl) of (res, b) \<Rightarrow> (res, cl\<lparr>cl_buffer := b\<rparr>)),
     fo_requeue = (\<lambda>xs ks cl. case cl_buffer cl of (B, r) \<Rightarrow>
       (case requeue_metrics_in_memory xs ks B of (res, B') \<Rightarrow> (res, cl\<lparr>cl_buffer := (B', r)\<rparr>)))\<rparr>"

definition max_flush_backoff :: real where
  "max_flush_backoff = 300"

text \<open>
  Up to the call of the transport: nothing before the retry time, else the drained batch with its
  keys, if there is any.
\<close>

definition flush_begin :: "('b, 'x) flush_ops \<Rightarrow> time \<Rightarrow> 'b \<Rightarrow> ('x list \<times> string list) option \<times> 'b" where
  "flush_begin F now b =
     (if now < ls_retry_after (fo_stats F b) then (None, b)
      else case fo_drain F now b of (xs, ks, b') \<Rightarrow> (if xs = [] then None else Some (xs, ks), b'))"

text \<open>\<open>_requeue_and_confirm_*\<close>: the keys of the items that no longer fit are deleted from Redis.\<close>

definition requeue_and_confirm :: "('b, 'x) flush_ops \<Rightarrow> 'x list \<Rightarrow> string list \<Rightarrow> 'b \<Rightarrow> (exn + unit) \<times> 'b" where
  "requeue_and_confirm F xs ks b =
     (case fo_requeue F xs ks b of
        (Inl e, b') \<Rightarrow> (Inl e, b')
      | (Inr evicted, b') \<Rightarrow> if evicted = [] then (Inr (), b') else fo_confirm F evicted b')"

text \<open>The counters after a success, and after a failure with its backoff.\<close>

definition stats_sent :: "nat \<Rightarrow> lane_stats \<Rightarrow> lane_stats" where
  "stats_sent n st = st\<lparr>ls_sent := ls_sent st + int n, ls_streak := 0, ls_retry_after := 0\<rparr>"

definition stats_failed :: "agent_config \<Rightarrow> time \<Rightarrow> nat \<Rightarrow> lane_stats \<Rightarrow> (exn + unit) \<times> lane_stats" where
  "stats_failed c now n st =
     (let st1 = st\<lparr>ls_failed := ls_failed st + int n, ls_streak := Suc (ls_streak st)\<rparr>
      in case calculate_backoff_delay (ls_streak st1 - 1) (real_of_int (cf_flush_interval c)) max_flush_backoff of
           Inl e \<Rightarrow> (Inl e, st1)
         | Inr delay \<Rightarrow> (Inr (), st1\<lparr>ls_retry_after := now + delay\<rparr>))"

text \<open>
  From the transport's answer on. An exception of the transport, a cancellation included, is raised
  again after the requeue and the error hook; when the hook itself is cancelled, that is raised.
  The backoff is computed before the retry time is set, so an overflow leaves the old time, and
  the transport's exception is lost.
\<close>

definition flush_end ::
  "('b, 'x) flush_ops \<Rightarrow> agent_config \<Rightarrow> time \<Rightarrow> exn + bool \<Rightarrow> 'x list \<Rightarrow> string list \<Rightarrow> 'b
   \<Rightarrow> (exn + unit) \<times> 'b \<times> hook_call list" where
  "flush_end F c now result xs ks b =
     (if result = Inr True then
        (case fo_confirm F ks b of
           (Inl e, b') \<Rightarrow> (Inl e, b', [])
         | (Inr _, b') \<Rightarrow> (Inr (), fo_set_stats F (stats_sent (length xs) (fo_stats F b')) b', []))
      else
        (case requeue_and_confirm F xs ks b of
           (Inl e, b') \<Rightarrow> (Inl e, b', [])
         | (Inr _, b') \<Rightarrow>
             (case stats_failed c now (length xs) (fo_stats F b') of
                (Inl e, st) \<Rightarrow> (Inl e, fo_set_stats F st b', [])
              | (Inr _, st) \<Rightarrow>
                  (case result of
                     Inr _ \<Rightarrow> (Inr (), fo_set_stats F st b', [])
                   | Inl exc \<Rightarrow>
                       (case fire_error_hook (cf_on_error c) (fo_stage F) exc
                               [(PStr ''batch_size'', PInt (int (length xs)))] of
                          (Inl e, calls) \<Rightarrow> (Inl e, fo_set_stats F st b', calls)
                        | (Inr _, calls) \<Rightarrow> (Inl exc, fo_set_stats F st b', calls))))))"

text \<open>
  A whole flush. \<open>send\<close> is the transport on a run; \<open>others\<close> is what other tasks do to the client
  while it is awaited. The result has the exception raised, if any, and the calls of the hook.
\<close>

definition flush_lane ::
  "('b, oid \<times> 'v) flush_ops \<Rightarrow> agent_config \<Rightarrow> time \<Rightarrow> time \<Rightarrow> ('v list \<Rightarrow> bool op) \<Rightarrow> ('b \<Rightarrow> 'b) \<Rightarrow> 'b \<Rightarrow> run
   \<Rightarrow> (exn + unit) \<times> 'b \<times> run \<times> hook_call list" where
  "flush_lane F c now now' send others b s =
     (case flush_begin F now b of
        (None, b') \<Rightarrow> (Inr (), b', s, [])
      | (Some (xs, ks), b') \<Rightarrow>
          (case send (map snd xs) s of (result, s') \<Rightarrow>
          (case flush_end F c now' result xs ks (others b') of (res, b2, calls) \<Rightarrow> (res, b2, s', calls))))"

text \<open>
  \<open>flush_buffer\<close>: the events, then the metrics; an ordinary exception of either is logged and ends
  the flush. The four clock readings are given, and the two interferences.
\<close>

definition flush_buffer ::
  "kit \<Rightarrow> agent_env \<Rightarrow> world \<Rightarrow> time list \<Rightarrow> ((security_event, security_metric, 'r) client \<Rightarrow> (security_event, security_metric, 'r) client)
   \<Rightarrow> ((security_event, security_metric, 'r) client \<Rightarrow> (security_event, security_metric, 'r) client)
   \<Rightarrow> (security_event, security_metric, 'r) client \<Rightarrow> run
   \<Rightarrow> (exn + unit) \<times> (security_event, security_metric, 'r) client \<times> run \<times> hook_call list" where
  "flush_buffer K env w clock others1 others2 cl s =
     (case (case flush_lane event_flush_ops (cl_config cl) (clock ! 0) (clock ! 1) (send_events K env w) others1 cl s of
              (Inl e, cl1, s1, calls) \<Rightarrow> (Inl e, cl1, s1, calls)
            | (Inr _, cl1, s1, calls) \<Rightarrow>
                (case flush_lane metric_flush_ops (cl_config cl) (clock ! 2) (clock ! 3) (send_metrics K env w) others2 cl1 s1 of
                   (res, cl2, s2, calls') \<Rightarrow> (res, cl2, s2, calls @ calls'))) of
        (Inl e, cl', s', calls) \<Rightarrow> (if catchable e then Inr () else Inl e, cl', s', calls)
      | (Inr _, cl', s', calls) \<Rightarrow> (Inr (), cl', s', calls))"

section \<open>The contract of the buffer\<close>

text \<open>
  What a flush relies on. The provider is the client's buffer; \<open>queue\<close> and \<open>cap\<close> describe its
  contents and capacity, \<open>inv\<close> is its invariant. A drain takes everything; a requeue of objects that
  are not queued puts them in front, as far as they fit; only a cancellation stops a confirmation.
\<close>

locale flush_buffer_contract =
  fixes F :: "('b, oid \<times> 'v) flush_ops"
    and inv :: "'b \<Rightarrow> bool"
    and queue :: "'b \<Rightarrow> (oid \<times> 'v) list"
    and cap :: "'b \<Rightarrow> nat"
  assumes drain: "inv b \<Longrightarrow> fo_drain F now b = (xs, ks, b') \<Longrightarrow>
      xs = queue b \<and> length ks = length xs \<and> distinct (map fst xs) \<and> queue b' = [] \<and> inv b' \<and> cap b' = cap b
        \<and> fo_stats F b' = fo_stats F b"
    and requeue: "inv b \<Longrightarrow> length ks = length xs \<Longrightarrow> distinct (map fst xs) \<Longrightarrow>
      fst ` set xs \<inter> fst ` set (queue b) = {} \<Longrightarrow>
      \<exists>evicted b'. fo_requeue F xs ks b = (Inr evicted, b') \<and> queue b' = take (cap b) (xs @ queue b) \<and> inv b'
        \<and> cap b' = cap b \<and> fo_stats F b' = fo_stats F b"
    and confirm: "inv b \<Longrightarrow> fo_confirm F ks b = (res, b') \<Longrightarrow>
      queue b' = queue b \<and> inv b' \<and> cap b' = cap b \<and> fo_stats F b' = fo_stats F b
        \<and> (\<forall>e. res = Inl e \<longrightarrow> e = CancelledError)"
    and stats: "queue (fo_set_stats F st b) = queue b" "inv (fo_set_stats F st b) = inv b"
      "cap (fo_set_stats F st b) = cap b" "fo_stats F (fo_set_stats F st b) = st"
begin

lemma begin_cases:
  assumes "inv b" and "flush_begin F now b = (batch, b')"
  obtains (waiting) "now < ls_retry_after (fo_stats F b)" "batch = None" "b' = b"
  | (idle) "batch = None" "queue b = []" "queue b' = []" "inv b'"
  | (batch) ks where "batch = Some (queue b, ks)" "queue b \<noteq> []" "queue b' = []" "inv b'" "cap b' = cap b"
      "length ks = length (queue b)" "distinct (map fst (queue b))" "fo_stats F b' = fo_stats F b"
proof (cases "now < ls_retry_after (fo_stats F b)")
  case True
  with assms(2) show ?thesis by (intro waiting) (auto simp: flush_begin_def)
next
  case False
  obtain xs ks b1 where d: "fo_drain F now b = (xs, ks, b1)" by (metis prod_cases3)
  note facts = drain [OF assms(1) d]
  from False assms(2) d have "b' = b1" "batch = (if xs = [] then None else Some (xs, ks))"
    by (auto simp: flush_begin_def)
  with facts show ?thesis by (cases "xs = []") (auto intro: idle batch)
qed

text \<open>
  A failed send leaves the batch in front of what other tasks queued meanwhile, except what does not
  fit, and only a cancellation or the overflow of the backoff replaces the transport's own outcome.
\<close>

lemma end_failed:
  assumes "inv b" and "length ks = length xs" "distinct (map fst xs)" "fst ` set xs \<inter> fst ` set (queue b) = {}"
    and "result \<noteq> Inr True" and "flush_end F c now result xs ks b = (res, b', calls)"
  shows "queue b' = take (cap b) (xs @ queue b)" "inv b'" "cap b' = cap b"
    "res \<noteq> Inl CancelledError \<Longrightarrow> fo_stats F b' = snd (stats_failed c now (length xs) (fo_stats F b))
       \<and> res = (case fst (stats_failed c now (length xs) (fo_stats F b)) of Inl e \<Rightarrow> Inl e
                | Inr _ \<Rightarrow> (case result of Inr _ \<Rightarrow> Inr () | Inl e \<Rightarrow> Inl e))"
proof -
  obtain evicted b1 where r: "fo_requeue F xs ks b = (Inr evicted, b1)"
      "queue b1 = take (cap b) (xs @ queue b)" "inv b1" "cap b1 = cap b" "fo_stats F b1 = fo_stats F b"
    using requeue [OF assms(1-4)] by blast
  obtain res2 b2 where c2: "fo_confirm F evicted b1 = (res2, b2)" by fastforce
  note c = confirm [OF r(3) c2]
  have rc: "requeue_and_confirm F xs ks b = (if evicted = [] then (Inr (), b1) else (res2, b2))"
    by (simp add: requeue_and_confirm_def r(1) c2)
  have hook: "e = CancelledError" if "fire_error_hook h stg x ctx = (Inl e, cs)" for h stg x ctx e cs
    using fire_error_hook_error that by blast
  show "queue b' = take (cap b) (xs @ queue b)" "inv b'" "cap b' = cap b"
    using assms(5,6) rc r c stats
    by (auto simp: flush_end_def split: if_splits sum.splits prod.splits)
  show "fo_stats F b' = snd (stats_failed c now (length xs) (fo_stats F b))
       \<and> res = (case fst (stats_failed c now (length xs) (fo_stats F b)) of Inl e \<Rightarrow> Inl e
                | Inr _ \<Rightarrow> (case result of Inr _ \<Rightarrow> Inr () | Inl e \<Rightarrow> Inl e))" if "res \<noteq> Inl CancelledError"
    using that assms(5,6) rc r c stats
    by (auto simp: flush_end_def split: if_splits sum.splits prod.splits dest!: hook)
qed

lemma end_sent:
  assumes "inv b" and "flush_end F c now (Inr True) xs ks b = (res, b', calls)"
  shows "queue b' = queue b" "inv b'" "cap b' = cap b"
    "res \<noteq> Inl CancelledError \<Longrightarrow> res = Inr () \<and> fo_stats F b' = stats_sent (length xs) (fo_stats F b)"
proof -
  obtain res2 b2 where c2: "fo_confirm F ks b = (res2, b2)" by fastforce
  note c = confirm [OF assms(1) c2]
  from c assms(2) c2 stats show "queue b' = queue b" "inv b'" "cap b' = cap b"
    by (auto simp: flush_end_def split: sum.splits)
  from c assms(2) c2 stats show "res = Inr () \<and> fo_stats F b' = stats_sent (length xs) (fo_stats F b)"
    if "res \<noteq> Inl CancelledError" using that by (auto simp: flush_end_def split: sum.splits)
qed

end

section \<open>The contract of the transport\<close>

text \<open>
  What the client relies on: success means that every item was settled, on the server's word, and
  no exception but a cancellation is raised. The contract is conditional on what the transport
  itself relies on.
\<close>

locale sender_contract =
  fixes good :: "'k \<Rightarrow> bool"
    and send :: "'k \<Rightarrow> 'v list \<Rightarrow> bool op"
    and item :: "'v \<Rightarrow> data_item"
  assumes sends: "good k \<Longrightarrow> send k vs s = (res, s') \<Longrightarrow>
    \<exists>es. rn_trace s' = rn_trace s @ es \<and> all_backed es \<and> subseq (settled_items es) (map item vs)
      \<and> (res = Inr True \<longrightarrow> settled_items es = map item vs) \<and> (\<forall>e. res = Inl e \<longrightarrow> e = CancelledError)"

text \<open>Other tasks may queue other objects and change the counters while the transport is awaited.\<close>

definition harmless ::
  "('b \<Rightarrow> bool) \<Rightarrow> ('b \<Rightarrow> (oid \<times> 'v) list) \<Rightarrow> ('b \<Rightarrow> nat) \<Rightarrow> ('b \<Rightarrow> 'b) \<Rightarrow> oid set \<Rightarrow> bool" where
  "harmless ok queue cap others batch \<longleftrightarrow> (\<forall>b. ok b \<longrightarrow> queue b = [] \<longrightarrow>
     ok (others b) \<and> cap (others b) = cap b \<and> batch \<inter> fst ` set (queue (others b)) = {})"

locale flusher = flush_buffer_contract F inv queue cap + sender_contract good send item
  for F :: "('b, oid \<times> 'v) flush_ops" and inv queue cap
    and good :: "'k \<Rightarrow> bool" and send :: "'k \<Rightarrow> 'v list \<Rightarrow> bool op" and item
begin

text \<open>Only what the others do to the drained state matters.\<close>

lemma flush_accounts_at:
  assumes "good k" and "inv b"
    and others: "\<And>xs ks b1. flush_begin F now b = (Some (xs, ks), b1) \<Longrightarrow>
      inv (others b1) \<and> cap (others b1) = cap b1 \<and> fst ` set xs \<inter> fst ` set (queue (others b1)) = {}"
    and flush: "flush_lane F c now now' (send k) others b s = (res, b', s', calls)"
  shows "inv b' \<and>
    (queue b = [] \<and> queue b' = [] \<and> s' = s \<or> now < ls_retry_after (fo_stats F b) \<and> b' = b \<and> s' = s \<or>
     (\<exists>es newer. rn_trace s' = rn_trace s @ es \<and> all_backed es \<and>
        newer = queue (others (snd (flush_begin F now b))) \<and>
        (settled_items es = map (item \<circ> snd) (queue b) \<and> queue b' = newer
         \<or> subseq (settled_items es) (map (item \<circ> snd) (queue b)) \<and> queue b' = take (cap b) (queue b @ newer))))"
proof -
  obtain batch b1 where b: "flush_begin F now b = (batch, b1)" by fastforce
  from assms(2) b show ?thesis
  proof (cases rule: begin_cases)
    case waiting
    with flush b assms(2) show ?thesis by (simp add: flush_lane_def)
  next
    case idle
    with flush b show ?thesis by (simp add: flush_lane_def)
  next
    case (batch ks)
    obtain result s1 where s1: "send k (map snd (queue b)) s = (result, s1)" by fastforce
    obtain res2 b2 calls2 where e: "flush_end F c now' result (queue b) ks (others b1) = (res2, b2, calls2)"
      by (metis prod_cases3)
    from flush b batch(1) s1 e have eq: "b' = b2" "s' = s1" by (simp_all add: flush_lane_def)
    have o: "inv (others b1)" "cap (others b1) = cap b" "fst ` set (queue b) \<inter> fst ` set (queue (others b1)) = {}"
      using others [of "queue b" ks b1] b batch(1,5) by auto
    obtain es where es: "rn_trace s1 = rn_trace s @ es" "all_backed es"
        "subseq (settled_items es) (map (item \<circ> snd) (queue b))"
        "result = Inr True \<longrightarrow> settled_items es = map (item \<circ> snd) (queue b)"
      using sends [OF assms(1) s1] by auto
    have newer: "queue (others b1) = queue (others (snd (flush_begin F now b)))" using b by simp
    show ?thesis
    proof (cases "result = Inr True")
      case True
      from end_sent(1,2) [OF o(1) e [unfolded True]] es eq newer True show ?thesis by auto
    next
      case False
      from end_failed(1,2) [OF o(1) batch(6,7) o(3) False e] es eq newer o(2) show ?thesis by auto
    qed
  qed
qed

lemma flush_accounts:
  assumes "good k" and "inv b" and others: "harmless inv queue cap others (fst ` set (queue b))"
    and flush: "flush_lane F c now now' (send k) others b s = (res, b', s', calls)"
  shows "inv b' \<and>
    (queue b = [] \<and> queue b' = [] \<and> s' = s \<or> now < ls_retry_after (fo_stats F b) \<and> b' = b \<and> s' = s \<or>
     (\<exists>es newer. rn_trace s' = rn_trace s @ es \<and> all_backed es \<and>
        newer = queue (others (snd (flush_begin F now b))) \<and>
        (settled_items es = map (item \<circ> snd) (queue b) \<and> queue b' = newer
         \<or> subseq (settled_items es) (map (item \<circ> snd) (queue b)) \<and> queue b' = take (cap b) (queue b @ newer))))"
proof (rule flush_accounts_at [OF assms(1,2) _ flush])
  fix xs ks b1
  assume b: "flush_begin F now b = (Some (xs, ks), b1)"
  from assms(2) b show "inv (others b1) \<and> cap (others b1) = cap b1 \<and> fst ` set xs \<inter> fst ` set (queue (others b1)) = {}"
    by (cases rule: begin_cases) (use others in \<open>auto simp: harmless_def\<close>)
qed

end

section \<open>The providers keep the contracts\<close>

definition events_wf :: "('e, 'm, 'r) client \<Rightarrow> bool" where
  "events_wf cl = (case cl_buffer cl of (B, r) \<Rightarrow> 0 < buffer_maxlen B \<and> lane_wf (buffer_maxlen B) (bf_events B))"

definition metrics_wf :: "('e, 'm, 'r) client \<Rightarrow> bool" where
  "metrics_wf cl = (case cl_buffer cl of (B, r) \<Rightarrow> 0 < buffer_maxlen B \<and> lane_wf (buffer_maxlen B) (bf_metrics B))"

definition event_queue :: "('e, 'm, 'r) client \<Rightarrow> 'e obj list" where
  "event_queue cl = ln_items (bf_events (fst (cl_buffer cl)))"

definition metric_queue :: "('e, 'm, 'r) client \<Rightarrow> 'm obj list" where
  "metric_queue cl = ln_items (bf_metrics (fst (cl_buffer cl)))"

definition buffer_cap :: "('e, 'm, 'r) client \<Rightarrow> nat" where
  "buffer_cap cl = buffer_maxlen (fst (cl_buffer cl))"

lemma buffer_maxlen_frame [simp]:
  "buffer_maxlen (B\<lparr>bf_events := L\<rparr>) = buffer_maxlen B" "buffer_maxlen (B\<lparr>bf_metrics := L'\<rparr>) = buffer_maxlen B"
  "buffer_maxlen (B\<lparr>bf_events := L, bf_last_flush_time := t\<rparr>) = buffer_maxlen B"
  "buffer_maxlen (B\<lparr>bf_metrics := L', bf_last_flush_time := t\<rparr>) = buffer_maxlen B"
  by (simp_all add: buffer_maxlen_def)

interpretation ev: flush_buffer_contract event_flush_ops events_wf event_queue buffer_cap
proof
  fix b :: "('e, 'm, 'r) client" and now xs ks b'
  assume wf: "events_wf b" and d: "fo_drain event_flush_ops now b = (xs, ks, b')"
  obtain B r where b: "cl_buffer b = (B, r)" by fastforce
  from wf have wf: "lane_wf (buffer_maxlen B) (bf_events B)" "0 < buffer_maxlen B" by (simp_all add: b events_wf_def)
  from d flush_with_keys_spec [OF wf(1)] lane_wfD(2) [OF wf(1)] wf
  show "xs = event_queue b \<and> length ks = length xs \<and> distinct (map fst xs) \<and> event_queue b' = [] \<and> events_wf b'
      \<and> buffer_cap b' = buffer_cap b \<and> fo_stats event_flush_ops b' = fo_stats event_flush_ops b"
    by (auto simp: b event_flush_ops_def flush_events_with_keys_def event_queue_def events_wf_def buffer_cap_def lane_wf_def)
next
  fix b :: "('e, 'm, 'r) client" and xs :: "'e obj list" and ks :: "string list"
  assume wf: "events_wf b" and len: "length ks = length xs" "distinct (map fst xs)" "ids xs \<inter> ids (event_queue b) = {}"
  obtain B r where b: "cl_buffer b = (B, r)" by fastforce
  from wf have wf: "lane_wf (buffer_maxlen B) (bf_events B)" "0 < buffer_maxlen B" by (simp_all add: b events_wf_def)
  from requeue_in_memory_spec [OF len(1) [symmetric] wf len(2)] len(3)
  obtain L where "requeue_in_memory (buffer_maxlen B) xs ks (bf_events B)
       = (Inr (evicted_keys (buffer_maxlen B) xs ks (bf_events B)), L)"
     "requeued (buffer_maxlen B) xs ks (bf_events B) L" "lane_wf (buffer_maxlen B) L"
    by (auto simp: b event_queue_def)
  with wf show "\<exists>evicted b'. fo_requeue event_flush_ops xs ks b = (Inr evicted, b')
      \<and> event_queue b' = take (buffer_cap b) (xs @ event_queue b) \<and> events_wf b' \<and> buffer_cap b' = buffer_cap b
      \<and> fo_stats event_flush_ops b' = fo_stats event_flush_ops b"
    by (auto simp: b event_flush_ops_def requeue_events_in_memory_def event_queue_def events_wf_def buffer_cap_def requeued_def)
next
  fix b :: "('e, 'm, 'r) client" and ks res b'
  assume "events_wf b" and c: "fo_confirm event_flush_ops ks b = (res, b')"
  with confirm_keys_error show "event_queue b' = event_queue b \<and> events_wf b' \<and> buffer_cap b' = buffer_cap b
      \<and> fo_stats event_flush_ops b' = fo_stats event_flush_ops b \<and> (\<forall>e. res = Inl e \<longrightarrow> e = CancelledError)"
    by (auto simp: event_flush_ops_def confirm_event_redis_keys_def event_queue_def events_wf_def buffer_cap_def split: prod.splits)
qed (simp_all add: event_flush_ops_def event_queue_def events_wf_def buffer_cap_def)

interpretation mt: flush_buffer_contract metric_flush_ops metrics_wf metric_queue buffer_cap
proof
  fix b :: "('e, 'm, 'r) client" and now xs ks b'
  assume wf: "metrics_wf b" and d: "fo_drain metric_flush_ops now b = (xs, ks, b')"
  obtain B r where b: "cl_buffer b = (B, r)" by fastforce
  from wf have wf: "lane_wf (buffer_maxlen B) (bf_metrics B)" "0 < buffer_maxlen B" by (simp_all add: b metrics_wf_def)
  from d flush_with_keys_spec [OF wf(1)] lane_wfD(2) [OF wf(1)] wf
  show "xs = metric_queue b \<and> length ks = length xs \<and> distinct (map fst xs) \<and> metric_queue b' = [] \<and> metrics_wf b'
      \<and> buffer_cap b' = buffer_cap b \<and> fo_stats metric_flush_ops b' = fo_stats metric_flush_ops b"
    by (auto simp: b metric_flush_ops_def flush_metrics_with_keys_def metric_queue_def metrics_wf_def buffer_cap_def lane_wf_def)
next
  fix b :: "('e, 'm, 'r) client" and xs :: "'m obj list" and ks :: "string list"
  assume wf: "metrics_wf b" and len: "length ks = length xs" "distinct (map fst xs)" "ids xs \<inter> ids (metric_queue b) = {}"
  obtain B r where b: "cl_buffer b = (B, r)" by fastforce
  from wf have wf: "lane_wf (buffer_maxlen B) (bf_metrics B)" "0 < buffer_maxlen B" by (simp_all add: b metrics_wf_def)
  from requeue_in_memory_spec [OF len(1) [symmetric] wf len(2)] len(3)
  obtain L where "requeue_in_memory (buffer_maxlen B) xs ks (bf_metrics B)
       = (Inr (evicted_keys (buffer_maxlen B) xs ks (bf_metrics B)), L)"
     "requeued (buffer_maxlen B) xs ks (bf_metrics B) L" "lane_wf (buffer_maxlen B) L"
    by (auto simp: b metric_queue_def)
  with wf show "\<exists>evicted b'. fo_requeue metric_flush_ops xs ks b = (Inr evicted, b')
      \<and> metric_queue b' = take (buffer_cap b) (xs @ metric_queue b) \<and> metrics_wf b' \<and> buffer_cap b' = buffer_cap b
      \<and> fo_stats metric_flush_ops b' = fo_stats metric_flush_ops b"
    by (auto simp: b metric_flush_ops_def requeue_metrics_in_memory_def metric_queue_def metrics_wf_def buffer_cap_def requeued_def)
next
  fix b :: "('e, 'm, 'r) client" and ks res b'
  assume "metrics_wf b" and c: "fo_confirm metric_flush_ops ks b = (res, b')"
  with confirm_keys_error show "metric_queue b' = metric_queue b \<and> metrics_wf b' \<and> buffer_cap b' = buffer_cap b
      \<and> fo_stats metric_flush_ops b' = fo_stats metric_flush_ops b \<and> (\<forall>e. res = Inl e \<longrightarrow> e = CancelledError)"
    by (auto simp: metric_flush_ops_def confirm_metric_redis_keys_def metric_queue_def metrics_wf_def buffer_cap_def split: prod.splits)
qed (simp_all add: metric_flush_ops_def metric_queue_def metrics_wf_def buffer_cap_def)

definition sends_lawfully :: "kit \<times> agent_env \<times> world \<Rightarrow> bool" where
  "sends_lawfully = (\<lambda>(K, env, w). kit_laws K)"

definition events_sender :: "kit \<times> agent_env \<times> world \<Rightarrow> security_event list \<Rightarrow> bool op" where
  "events_sender = (\<lambda>(K, env, w). send_events K env w)"

definition metrics_sender :: "kit \<times> agent_env \<times> world \<Rightarrow> security_metric list \<Rightarrow> bool op" where
  "metrics_sender = (\<lambda>(K, env, w). send_metrics K env w)"

interpretation evf: flusher event_flush_ops events_wf event_queue buffer_cap sends_lawfully events_sender ItemEvent
proof
  fix k vs s and res :: "exn + bool" and s'
  assume good: "sends_lawfully k" and send: "events_sender k vs s = (res, s')"
  obtain K env w where k: "k = (K, env, w)" by (cases k)
  have laws: "kit_laws K" and call: "send_events K env w vs s = (res, s')"
    using good send by (simp_all add: k sends_lawfully_def events_sender_def)
  obtain es where "rn_trace s' = rn_trace s @ es" "batch_outcome K env (map ItemEvent vs) res es"
    using emitsD [OF emits_send_events [OF laws] call] by (metis sum.exhaust)
  then show "\<exists>es. rn_trace s' = rn_trace s @ es \<and> all_backed es \<and> subseq (settled_items es) (map ItemEvent vs)
      \<and> (res = Inr True \<longrightarrow> settled_items es = map ItemEvent vs) \<and> (\<forall>e. res = Inl e \<longrightarrow> e = CancelledError)"
    by (auto simp: batch_outcome_def split: sum.splits)
qed

interpretation mtf: flusher metric_flush_ops metrics_wf metric_queue buffer_cap sends_lawfully metrics_sender ItemMetric
proof
  fix k vs s and res :: "exn + bool" and s'
  assume good: "sends_lawfully k" and send: "metrics_sender k vs s = (res, s')"
  obtain K env w where k: "k = (K, env, w)" by (cases k)
  have laws: "kit_laws K" and call: "send_metrics K env w vs s = (res, s')"
    using good send by (simp_all add: k sends_lawfully_def metrics_sender_def)
  obtain es where "rn_trace s' = rn_trace s @ es" "batch_outcome K env (map ItemMetric vs) res es"
    using emitsD [OF emits_send_metrics [OF laws] call] by (metis sum.exhaust)
  then show "\<exists>es. rn_trace s' = rn_trace s @ es \<and> all_backed es \<and> subseq (settled_items es) (map ItemMetric vs)
      \<and> (res = Inr True \<longrightarrow> settled_items es = map ItemMetric vs) \<and> (\<forall>e. res = Inl e \<longrightarrow> e = CancelledError)"
    by (auto simp: batch_outcome_def split: sum.splits)
qed

section \<open>What a flush leaves alone\<close>

text \<open>A part of the client that no operation of the lane touches.\<close>

lemma flush_lane_view:
  assumes "\<And>now b xs ks b'. fo_drain F now b = (xs, ks, b') \<Longrightarrow> V b' = V b"
    and "\<And>ks b r b'. fo_confirm F ks b = (r, b') \<Longrightarrow> V b' = V b"
    and "\<And>xs ks b r b'. fo_requeue F xs ks b = (r, b') \<Longrightarrow> V b' = V b"
    and "\<And>st b. V (fo_set_stats F st b) = V b" and "\<And>b. V (others b) = V b"
    and flush: "flush_lane F c now now' send others b s = (res, b', s', calls)"
  shows "V b' = V b"
proof -
  obtain batch b1 where b: "flush_begin F now b = (batch, b1)" by fastforce
  then have b1: "V b1 = V b" using assms(1) by (auto simp: flush_begin_def split: if_splits prod.splits)
  have rc: "requeue_and_confirm F xs ks b = (r, b2) \<Longrightarrow> V b2 = V b" for xs ks b r b2
    using assms(2,3) by (fastforce simp: requeue_and_confirm_def split: sum.splits prod.splits if_splits)
  have e: "flush_end F c t result xs ks b = (r, b2, calls2) \<Longrightarrow> V b2 = V b" for t result xs ks b r b2 calls2
    using assms(2,4) rc by (fastforce simp: flush_end_def split: sum.splits prod.splits if_splits)
  from flush b b1 assms(5) show ?thesis
    by (cases batch) (auto simp: flush_lane_def split: prod.splits dest: e)
qed

section \<open>What a flush guarantees\<close>


text \<open>The same for metrics.\<close>

theorem flush_loses_no_metric:
  assumes "kit_laws K" and "metrics_wf cl"
    and "harmless metrics_wf metric_queue buffer_cap others (ids (metric_queue cl))"
    and "flush_lane metric_flush_ops c now now' (send_metrics K env w) others cl s = (res, cl', s', calls)"
  shows "metrics_wf cl' \<and>
    (metric_queue cl = [] \<and> metric_queue cl' = [] \<and> s' = s \<or> now < ls_retry_after (cl_metrics cl) \<and> cl' = cl \<and> s' = s \<or>
     (\<exists>es newer. rn_trace s' = rn_trace s @ es \<and> all_backed es \<and>
        newer = metric_queue (others (snd (flush_begin metric_flush_ops now cl))) \<and>
        (settled_items es = map (ItemMetric \<circ> snd) (metric_queue cl) \<and> metric_queue cl' = newer
         \<or> subseq (settled_items es) (map (ItemMetric \<circ> snd) (metric_queue cl))
           \<and> metric_queue cl' = take (buffer_cap cl) (metric_queue cl @ newer))))"
  using mtf.flush_accounts [of "(K, env, w)" cl others c now now' s res cl' s' calls] assms
  by (simp add: sends_lawfully_def metrics_sender_def metric_flush_ops_def)

text \<open>
  C18: the backoff of failed flushes. After a failed send the streak grows and the next flush waits
  \<open>flush_interval * 2 ^ streak\<close> seconds, 300 at most: any flush before that touches nothing. Only
  when 1024 failures came before does the computation of the delay overflow: the flush raises, and
  the retry time stays what it was.
\<close>

theorem failed_flush_backs_off:
  assumes wf: "events_wf cl" and batch: "length ks = length xs" "distinct (map fst xs)" "ids xs \<inter> ids (event_queue cl) = {}"
    and failed: "result \<noteq> Inr True"
    and ending: "flush_end event_flush_ops c now result xs ks cl = (res, cl', calls)" "res \<noteq> Inl CancelledError"
  shows "ls_streak (cl_events cl') = Suc (ls_streak (cl_events cl))
    \<and> ls_failed (cl_events cl') = ls_failed (cl_events cl) + int (length xs)
    \<and> (if ls_streak (cl_events cl) < 1024
       then ls_retry_after (cl_events cl') = now + min (real_of_int (cf_flush_interval c) * 2 ^ ls_streak (cl_events cl)) 300
            \<and> (\<forall>t < ls_retry_after (cl_events cl'). flush_begin event_flush_ops t cl' = (None, cl'))
       else res = Inl OverflowError \<and> ls_retry_after (cl_events cl') = ls_retry_after (cl_events cl))"
proof -
  have st: "fo_stats event_flush_ops = cl_events" by (simp add: event_flush_ops_def)
  from ev.end_failed(4) [OF wf batch failed ending] show ?thesis
    by (auto simp: st stats_failed_def calculate_backoff_delay_ok max_flush_backoff_def Let_def flush_begin_def)
qed

section \<open>Concrete runs\<close>

definition sample_metric :: security_metric where
  "sample_metric = \<lparr>mt_timestamp = ''t'', mt_metric_type = RequestCount, mt_value = 1, mt_endpoint = None,
     mt_tags = PDict []\<rparr>"

text \<open>A client whose buffer holds one event and one metric, and another task that adds one of each.\<close>

definition sample_client :: "(security_event, security_metric, unit) client" where
  "sample_client = \<lparr>cl_config = default_config ''0123456789'',
     cl_buffer = ((event_buffer_init (default_config ''0123456789''))
        \<lparr>bf_events := empty_lane\<lparr>ln_items := [(1, new_event ''k'' ''t'' ''e'')]\<rparr>,
         bf_metrics := empty_lane\<lparr>ln_items := [(5, sample_metric)]\<rparr>\<rparr>, ()),
     cl_events = lane_stats_init, cl_metrics = lane_stats_init\<rparr>"

definition adding_task ::
  "(security_event, security_metric, unit) client \<Rightarrow> (security_event, security_metric, unit) client" where
  "adding_task cl = (case cl_buffer cl of (B, r) \<Rightarrow> cl\<lparr>cl_buffer :=
     (B\<lparr>bf_events := (bf_events B)\<lparr>ln_items := [(2, new_event ''l'' ''t'' ''e'')], ln_keys := Map.empty\<rparr>,
        bf_metrics := (bf_metrics B)\<lparr>ln_items := [(6, sample_metric)], ln_keys := Map.empty\<rparr>\<rparr>, r)\<rparr>)"

lemma sample_client_wf: "events_wf sample_client" "metrics_wf sample_client"
  by (simp_all add: events_wf_def metrics_wf_def sample_client_def lane_wf_def event_buffer_init_def buffer_maxlen_def
      default_config_def empty_lane_def)

lemma sample_client_queues:
  "event_queue sample_client = [(1, new_event ''k'' ''t'' ''e'')]" "metric_queue sample_client = [(5, sample_metric)]"
  "buffer_cap sample_client = 100"
  by (simp_all add: event_queue_def metric_queue_def buffer_cap_def sample_client_def event_buffer_init_def
      buffer_maxlen_def default_config_def)

lemma buffer_maxlen_both [simp]:
  "buffer_maxlen (B\<lparr>bf_events := L, bf_metrics := L'\<rparr>) = buffer_maxlen B"
  by (simp add: buffer_maxlen_def)

lemma adding_task_queues:
  "event_queue (adding_task cl) = [(2, new_event ''l'' ''t'' ''e'')]" "metric_queue (adding_task cl) = [(6, sample_metric)]"
  by (simp_all add: adding_task_def event_queue_def metric_queue_def split: prod.split)

lemma adding_task_harmless:
  "harmless events_wf event_queue buffer_cap adding_task {1}"
  "harmless metrics_wf metric_queue buffer_cap adding_task {5}"
  by (auto simp: harmless_def adding_task_queues)
     (auto simp: events_wf_def metrics_wf_def buffer_cap_def adding_task_def lane_wf_def split: prod.splits)


theorem flush_loses_no_metric_witness:
  "metric_queue (fst (snd (flush_lane metric_flush_ops (default_config ''0123456789'') 1 2
       (send_metrics sample_kit sample_env (sample_world NetTimeout)) adding_task sample_client sample_run)))
     \<in> {[(6, sample_metric)], [(5, sample_metric), (6, sample_metric)]}"
proof -
  obtain res cl' s' calls where f: "flush_lane metric_flush_ops (default_config ''0123456789'') 1 2
       (send_metrics sample_kit sample_env (sample_world NetTimeout)) adding_task sample_client sample_run
     = (res, cl', s', calls)"
    by (metis prod_cases4)
  have "harmless metrics_wf metric_queue buffer_cap adding_task (ids (metric_queue sample_client))"
    using adding_task_harmless(2) by (simp add: sample_client_queues)
  from flush_loses_no_metric [OF sample_kit_laws sample_client_wf(2) this f] f show ?thesis
    by (auto simp: sample_client_queues adding_task_queues)
       (auto simp: sample_client_def lane_stats_init_def)
qed

theorem failed_flush_backs_off_witness:
  "ls_retry_after (cl_events (fst (snd (flush_end event_flush_ops (default_config ''0123456789'') 50 (Inr False)
      [(9, new_event ''k'' ''t'' ''e'')] [[]] sample_client)))) = 80"
proof -
  obtain res cl' calls where e: "flush_end event_flush_ops (default_config ''0123456789'') 50 (Inr False)
      [(9, new_event ''k'' ''t'' ''e'')] [[]] sample_client = (res, cl', calls)"
    by (metis prod_cases3)
  have "res \<noteq> Inl CancelledError"
    using e by (auto simp: flush_end_def requeue_and_confirm_def event_flush_ops_def requeue_events_in_memory_def
        requeue_in_memory_def requeue_one_def lane_full_def sample_client_def event_buffer_init_def buffer_maxlen_def
        default_config_def empty_lane_def Let_def stats_failed_def calculate_backoff_delay_def lane_stats_init_def)
  with failed_flush_backs_off [OF sample_client_wf(1) _ _ _ _ e] show ?thesis
    by (simp add: e sample_client_queues) (simp add: sample_client_def lane_stats_init_def default_config_def)
qed

end
