(* ===== verification/ClientStatus.thy ===== *)
theory ClientStatus
  imports ClientFlush
begin

text \<open>
  The attributes of \<open>GuardAgentHandler\<close>, and what is computed from them: the status report, the
  statistics, the health check (\<open>_client_status.py\<close>), and the cached rules (\<open>RulesMixin\<close> in
  \<open>_client_loops.py\<close>).
\<close>

section \<open>The handler\<close>

text \<open>
  The buffer and the flush counters are those of \<open>client\<close>. A background task is absent, running
  (\<open>Some False\<close>) or done (\<open>Some True\<close>). The transport is part of the run.
\<close>

record ('e, 'm, 'r) handler =
  hn_client :: "('e, 'm, 'r) client"
  hn_redis :: "'r redis_handler option"
  hn_running :: bool
  hn_flush_task :: "bool option"
  hn_status_task :: "bool option"
  hn_rules_task :: "bool option"
  hn_start_time :: time
  hn_rules_fetched :: int
  hn_flush_failures :: nat
  hn_status_failures :: nat
  hn_rules_failures :: nat
  hn_last_status_push :: "bool option"
  hn_cached_rules :: "dynamic_rules option"
  hn_rules_last_update :: time

definition hn_config :: "('e, 'm, 'r) handler \<Rightarrow> agent_config" where
  "hn_config h = cl_config (hn_client h)"

definition hn_buffer :: "('e, 'm, 'r) handler \<Rightarrow> ('e, 'm, 'r) event_buffer" where
  "hn_buffer h = fst (cl_buffer (hn_client h))"

definition total_sent :: "('e, 'm, 'r) handler \<Rightarrow> int" where
  "total_sent h = ls_sent (cl_events (hn_client h)) + ls_sent (cl_metrics (hn_client h))"

definition total_failed :: "('e, 'm, 'r) handler \<Rightarrow> int" where
  "total_failed h = ls_failed (cl_events (hn_client h)) + ls_failed (cl_metrics (hn_client h))"

section \<open>The status report\<close>

text \<open>
  \<open>f"{p / q:.1%}"\<close> for integers: a percentage with one decimal, ties to even. The rounding of the
  division itself is not modelled.
\<close>

definition round_div_even :: "int \<Rightarrow> int \<Rightarrow> int" where
  "round_div_even p q =
     (let k = p div q; r = p mod q
      in if 2 * r < q then k else if q < 2 * r then k + 1 else if even k then k else k + 1)"

definition percent1 :: "int \<Rightarrow> int \<Rightarrow> string" where
  "percent1 p q = (let k = round_div_even (1000 * p) q
     in show_int (k div 10) @ ''.'' @ show_int (k mod 10) @ ''%'')"

text \<open>Another reason not to be healthy.\<close>

definition degrade :: "bool \<Rightarrow> string \<Rightarrow> health \<times> string list \<Rightarrow> health \<times> string list" where
  "degrade condition message = (\<lambda>(status, errors).
     if condition then (Degraded, errors @ [message]) else (status, errors))"

definition get_status :: "string \<Rightarrow> time \<Rightarrow> ('e, 'm, 'r) handler \<Rightarrow> transport \<Rightarrow> agent_status" where
  "get_status current_time now h tp =
     (let buffer_size = get_buffer_size (hn_buffer h);
          transport_stats = get_transport_stats tp;
          buffer_stats = get_buffer_stats (hn_buffer h);
          attempts = max 1 (total_sent h + total_failed h);
          failure_rate = real_of_int (total_failed h) / real_of_int attempts;
          r0 = (Healthy, []);
          r1 = degrade (tt_circuit_breaker_state transport_stats = Open) ''Transport circuit breaker is open'' r0;
          r2 = degrade (real buffer_size \<ge> real_of_int (cf_buffer_size (hn_config h)) * (9 / 10)) ''Buffer nearly full'' r1;
          r3 = (if total_failed h > 0
                then degrade (failure_rate > 1 / 10) (''High failure rate: '' @ percent1 (total_failed h) attempts) r2
                else r2)
      in \<lparr>as_timestamp = current_time, as_status = fst r3, as_uptime = now - hn_start_time h,
          as_events_sent = ls_sent (cl_events (hn_client h)), as_events_failed = ls_failed (cl_events (hn_client h)),
          as_buffer_size = int buffer_size, as_last_flush = bs_last_flush_time buffer_stats, as_errors = snd r3\<rparr>)"

section \<open>Statistics and health\<close>

record agent_stats =
  gs_running :: bool
  gs_uptime :: time
  gs_events_sent :: int
  gs_metrics_sent :: int
  gs_events_failed :: int
  gs_metrics_failed :: int
  gs_rules_fetched :: int
  gs_buffer_stats :: buffer_stats
  gs_transport_stats :: transport_stats
  gs_cached_rules :: bool
  gs_rules_last_update :: time
  gs_loop_failures :: "nat \<times> nat \<times> nat"
  gs_last_status_push_ok :: "bool option"

definition get_agent_stats :: "time \<Rightarrow> ('e, 'm, 'r) handler \<Rightarrow> transport \<Rightarrow> agent_stats" where
  "get_agent_stats now h tp = \<lparr>
     gs_running = hn_running h, gs_uptime = now - hn_start_time h,
     gs_events_sent = ls_sent (cl_events (hn_client h)), gs_metrics_sent = ls_sent (cl_metrics (hn_client h)),
     gs_events_failed = ls_failed (cl_events (hn_client h)), gs_metrics_failed = ls_failed (cl_metrics (hn_client h)),
     gs_rules_fetched = hn_rules_fetched h, gs_buffer_stats = get_buffer_stats (hn_buffer h),
     gs_transport_stats = get_transport_stats tp, gs_cached_rules = (hn_cached_rules h \<noteq> None),
     gs_rules_last_update = hn_rules_last_update h,
     gs_loop_failures = (hn_flush_failures h, hn_status_failures h, hn_rules_failures h),
     gs_last_status_push_ok = hn_last_status_push h\<rparr>"

definition health_check :: "('e, 'm, 'r) handler \<Rightarrow> transport \<Rightarrow> bool" where
  "health_check h tp =
     (if \<not> hn_running h then False
      else if tt_circuit_breaker_state (get_transport_stats tp) = Open then False
      else if real (get_buffer_size (hn_buffer h)) \<ge> real_of_int (cf_buffer_size (hn_config h)) * (95 / 100) then False
      else (let total_attempts = total_sent h + total_failed h
            in \<not> (total_attempts > 0 \<and> real_of_int (total_failed h) / real_of_int total_attempts > 1 / 2)))"

section \<open>The cached rules\<close>

text \<open>The test before the fetch, and the bookkeeping after it, which may find another state.\<close>

definition rules_from_cache :: "time \<Rightarrow> ('e, 'm, 'r) handler \<Rightarrow> dynamic_rules option" where
  "rules_from_cache now h =
     (case hn_cached_rules h of
        None \<Rightarrow> None
      | Some rules \<Rightarrow> if now - hn_rules_last_update h < real_of_int (dr_ttl rules) then Some rules else None)"

definition rules_fetched :: "time \<Rightarrow> exn + dynamic_rules option \<Rightarrow> ('e, 'm, 'r) handler
   \<Rightarrow> (exn + dynamic_rules option) \<times> ('e, 'm, 'r) handler" where
  "rules_fetched now result h =
     (case result of
        Inr None \<Rightarrow> (Inr None, h)
      | Inr (Some rules) \<Rightarrow> (Inr (Some rules), h\<lparr>hn_cached_rules := Some rules, hn_rules_last_update := now,
          hn_rules_fetched := hn_rules_fetched h + 1\<rparr>)
      | Inl e \<Rightarrow> if catchable e then (Inr (hn_cached_rules h), h) else (Inl e, h))"

text \<open>\<open>others\<close> is what other tasks do to the handler while the fetch is awaited.\<close>

definition get_dynamic_rules ::
  "kit \<Rightarrow> agent_env \<Rightarrow> world \<Rightarrow> time \<Rightarrow> (('e, 'm, 'r) handler \<Rightarrow> ('e, 'm, 'r) handler) \<Rightarrow> ('e, 'm, 'r) handler \<Rightarrow> run
   \<Rightarrow> (exn + dynamic_rules option) \<times> ('e, 'm, 'r) handler \<times> run" where
  "get_dynamic_rules K env w now others h s =
     (case rules_from_cache now h of
        Some rules \<Rightarrow> (Inr (Some rules), h, s)
      | None \<Rightarrow> (case fetch_dynamic_rules K env w s of (result, s') \<Rightarrow>
          (case rules_fetched now result (others h) of (res, h') \<Rightarrow> (res, h', s'))))"

section \<open>What the report says\<close>

lemma degrade_simps [simp]:
  "fst (degrade c m r) = (if c then Degraded else fst r)"
  "snd (degrade c m r) = (if c then snd r @ [m] else snd r)"
  by (simp_all add: degrade_def split: prod.split)

lemma rate_above:
  "0 < failed \<Longrightarrow> 0 < attempts \<Longrightarrow> real_of_int failed / real_of_int attempts > 1 / 10 \<longleftrightarrow> attempts < 10 * failed"
  by (simp add: field_simps) linarith

text \<open>
  The status explains itself. It is never \<open>failed\<close>; it is \<open>degraded\<close> exactly when it lists a
  reason; and it lists none exactly when the circuit breaker is not open, the buffer is less than
  90% full, and at most one item in ten failed.
\<close>

theorem status_explains_itself:
  "as_status (get_status ts now h tp) \<noteq> Failed
    \<and> (as_status (get_status ts now h tp) = Degraded \<longleftrightarrow> as_errors (get_status ts now h tp) \<noteq> [])
    \<and> (as_status (get_status ts now h tp) = Healthy \<longleftrightarrow>
         cb_state (tp_breaker tp) \<noteq> Open
         \<and> 10 * int (get_buffer_size (hn_buffer h)) < 9 * cf_buffer_size (hn_config h)
         \<and> 10 * total_failed h \<le> max 1 (total_sent h + total_failed h))"
proof -
  have size: "real n \<ge> real_of_int m * (9 / 10) \<longleftrightarrow> \<not> 10 * int n < 9 * m" for n m
    by linarith
  have rate: "(if 0 < failed then degrade (real_of_int failed / real_of_int (max 1 a) > 1 / 10) m r else r)
      = degrade (\<not> 10 * failed \<le> max 1 a) m r" for failed a :: int and m r
    using rate_above [of failed "max 1 a"] by (auto simp: degrade_def split: prod.split)
  show ?thesis
    unfolding get_status_def Let_def size rate by (auto simp: get_transport_stats_def)
qed

text \<open>
  What the health check holds against a running agent, the status report says too: a running
  agent that fails its health check reports \<open>degraded\<close>, with a reason.
\<close>

theorem failing_health_is_reported:
  assumes "hn_running h" and "\<not> health_check h tp"
  shows "as_status (get_status ts now h tp) = Degraded \<and> as_errors (get_status ts now h tp) \<noteq> []"
proof -
  let ?size = "real (get_buffer_size (hn_buffer h))" and ?cap = "real_of_int (cf_buffer_size (hn_config h))"
  let ?failed = "real_of_int (total_failed h)" and ?all = "real_of_int (total_sent h + total_failed h)"
  have size: "?cap * (9 / 10) \<le> ?size" if "?cap * (95 / 100) \<le> ?size"
    using that of_nat_0_le_iff [of "get_buffer_size (hn_buffer h)"] by linarith
  have rate: "0 < total_failed h \<and> ?failed / real_of_int (max 1 (total_sent h + total_failed h)) > 1 / 10"
    if r: "0 < total_sent h + total_failed h" "?failed / ?all > 1 / 2"
  proof -
    have "?failed > ?all / 2" using r by (simp add: field_simps)
    then have "?all < real_of_int (2 * total_failed h)" by simp
    then have "total_sent h + total_failed h < 2 * total_failed h" by (simp only: of_int_less_iff)
    with r(1) have pos: "0 < total_failed h" and "max 1 (total_sent h + total_failed h) < 10 * total_failed h"
      by (simp_all add: max_def)
    with rate_above [of "total_failed h"] show ?thesis by simp
  qed
  from assms consider "tt_circuit_breaker_state (get_transport_stats tp) = Open" | "?cap * (95 / 100) \<le> ?size"
    | "0 < total_sent h + total_failed h" "?failed / ?all > 1 / 2"
    unfolding health_check_def Let_def by (metis (no_types, lifting))
  then show ?thesis
  proof cases
    case 2
    from size [OF this] show ?thesis unfolding get_status_def Let_def by simp
  next
    case 3
    from rate [OF this] show ?thesis unfolding get_status_def Let_def by simp
  qed (simp add: get_status_def Let_def)
qed

text \<open>
  The rules are fetched at most once in their time to live. While the cached rules are fresh they
  are served and no request is made. Otherwise the transport is asked; rules it brings are returned,
  counted, cached, and served without a request as long as they are fresh. When it brings none, the
  cache is left as it is and None is returned, even though older rules are cached. Only a
  cancellation is raised.
\<close>

theorem rules_cached_until_stale:
  assumes "kit_laws K" and "get_dynamic_rules K env w now others h s = (res, h', s')"
  shows "(\<exists>rules. rules_from_cache now h = Some rules \<and> res = Inr (Some rules) \<and> h' = h \<and> s' = s)
    \<or> rules_from_cache now h = None \<and>
      (\<exists>es. rn_trace s' = rn_trace s @ es \<and> requests es \<le> length (attempt_numbers env)) \<and>
      (res = Inl CancelledError \<and> h' = others h \<or> res = Inr None \<and> h' = others h \<or>
       (\<exists>rules. res = Inr (Some rules) \<and> hn_rules_fetched h' = hn_rules_fetched (others h) + 1
          \<and> hn_cached_rules h' = Some rules \<and> hn_rules_last_update h' = now
          \<and> (\<forall>t < now + real_of_int (dr_ttl rules). \<forall>K2 env2 w2 others2 s2.
                get_dynamic_rules K2 env2 w2 t others2 h' s2 = (Inr (Some rules), h', s2))))"
proof (cases "rules_from_cache now h")
  case (Some rules)
  with assms(2) show ?thesis by (simp add: get_dynamic_rules_def)
next
  case None
  obtain result s1 where f: "fetch_dynamic_rules K env w s = (result, s1)" by fastforce
  obtain es where es: "rn_trace s1 = rn_trace s @ es" "requests es \<le> length (attempt_numbers env)"
      "\<And>e. result = Inl e \<Longrightarrow> e = CancelledError"
    using emitsD [OF emits_fetch_dynamic_rules [OF assms(1)] f] by (metis sum.exhaust)
  from None assms(2) f have "rules_fetched now result (others h) = (res, h')" "s' = s1"
    by (auto simp: get_dynamic_rules_def split: prod.splits)
  then consider "res = Inl CancelledError" "h' = others h" | "res = Inr None" "h' = others h"
    | rules where "res = Inr (Some rules)" "h' = (others h)\<lparr>hn_cached_rules := Some rules, hn_rules_last_update := now,
        hn_rules_fetched := hn_rules_fetched (others h) + 1\<rparr>"
    using es(3) by (auto simp: rules_fetched_def split: sum.splits option.splits)
  then show ?thesis
  proof cases
    case 3
    then have "get_dynamic_rules K2 env2 w2 t others2 h' s2 = (Inr (Some rules), h', s2)"
      if "t < now + real_of_int (dr_ttl rules)" for K2 env2 w2 t others2 s2
      using that by (simp add: get_dynamic_rules_def rules_from_cache_def)
    with 3 None es \<open>s' = s1\<close> show ?thesis by simp
  qed (use None es \<open>s' = s1\<close> in auto)
qed

section \<open>Concrete handlers\<close>

definition sample_rules :: dynamic_rules where
  "sample_rules = \<lparr>dr_rule_id = ''r'', dr_version = 1, dr_timestamp = ''t'', dr_expires_at = None, dr_ttl = 300,
     dr_ip_blacklist = [], dr_ip_whitelist = [], dr_ip_ban_duration = 3600, dr_blocked_countries = [],
     dr_whitelist_countries = [], dr_global_rate_limit = None, dr_global_rate_window = None,
     dr_endpoint_rate_limits = [], dr_blocked_cloud_providers = [], dr_blocked_user_agents = [],
     dr_suspicious_patterns = [], dr_enable_penetration_detection = None, dr_enable_ip_banning = None,
     dr_enable_rate_limiting = None, dr_auto_ban_threshold = None, dr_auto_ban_duration = None,
     dr_enable_rate_limit_auto_ban = None, dr_emergency_mode = False, dr_emergency_whitelist = [],
     dr_emergency_whitelist_only = False, dr_message = None\<rparr>"

text \<open>A running handler with the buffer of \<open>sample_client\<close>, rules from the time 500, and failures.\<close>

definition sample_handler :: "(security_event, security_metric, unit) handler" where
  "sample_handler = \<lparr>
     hn_client = sample_client\<lparr>cl_events := \<lparr>ls_sent = 1, ls_failed = 2, ls_streak = 1, ls_retry_after = 0\<rparr>\<rparr>,
     hn_redis = None, hn_running = True, hn_flush_task = Some False, hn_status_task = Some False, hn_rules_task = None,
     hn_start_time = 400, hn_rules_fetched = 1, hn_flush_failures = 0, hn_status_failures = 0, hn_rules_failures = 0,
     hn_last_status_push = None, hn_cached_rules = Some sample_rules, hn_rules_last_update = 500\<rparr>"

lemmas sample_handler_simps = sample_handler_def hn_buffer_def hn_config_def total_sent_def total_failed_def
  sample_client_def lane_stats_init_def event_buffer_init_def default_config_def

theorem failing_health_is_reported_witness:
  "as_errors (get_status ''t'' 460 sample_handler (rn_transport sample_run)) = [''High failure rate: 66.7%'']
    \<and> as_status (get_status ''t'' 460 sample_handler (rn_transport sample_run)) = Degraded"
proof -
  have "\<not> health_check sample_handler (rn_transport sample_run)" "hn_running sample_handler"
    by (simp_all add: health_check_def get_transport_stats_def sample_handler_simps sample_run_def
        circuit_breaker_init_def get_buffer_size_def empty_lane_def)
  then have "as_status (get_status ''t'' 460 sample_handler (rn_transport sample_run)) = Degraded"
    using failing_health_is_reported by blast
  moreover have "percent1 2 3 = ''66.7%''"
    by code_simp
  ultimately show ?thesis
    by (simp add: get_status_def get_transport_stats_def sample_handler_simps sample_run_def circuit_breaker_init_def
        get_buffer_size_def empty_lane_def degrade_def)
qed

theorem rules_cached_until_stale_witness:
  "\<exists>es. rn_trace (snd (snd (get_dynamic_rules sample_kit sample_env (sample_world NetTimeout) 900 id sample_handler sample_run)))
     = es \<and> requests es \<le> 2"
proof -
  obtain res h' s' where g: "get_dynamic_rules sample_kit sample_env (sample_world NetTimeout) 900 id sample_handler sample_run
      = (res, h', s')"
    by (metis prod_cases3)
  have "rules_from_cache 900 sample_handler = None"
    by (simp add: rules_from_cache_def sample_handler_def sample_rules_def)
  with rules_cached_until_stale [OF sample_kit_laws g] g show ?thesis
    by (auto simp: sample_run_def sample_env_def attempt_numbers_def)
qed

end
