(* ===== verification/ClientLoops.thy ===== *)
theory ClientLoops
  imports ClientStatus
begin

text \<open>
  The three background loops of the handler (\<open>LoopsMixin\<close> in \<open>_client_loops.py\<close>): flush, status
  report, rules. A loop runs with a record of what the outside does in each of its rounds, and with
  fuel, its number of rounds; it returns \<open>None\<close> when it is still running then.
\<close>

section \<open>The outside of a loop\<close>

text \<open>
  For every round: whether the task is cancelled while it sleeps; what other tasks do to the handler
  and to the transport meanwhile; what they do to the handler while the round's work is awaited, and
  to its client between the drain and the end of either flush; and the clock readings.
\<close>

record ('e, 'm, 'r) loop_env =
  le_cancel :: "nat \<Rightarrow> bool"
  le_sleep :: "nat \<Rightarrow> ('e, 'm, 'r) handler \<Rightarrow> ('e, 'm, 'r) handler"
  le_transport :: "nat \<Rightarrow> transport \<Rightarrow> transport"
  le_work :: "nat \<Rightarrow> ('e, 'm, 'r) handler \<Rightarrow> ('e, 'm, 'r) handler"
  le_events :: "nat \<Rightarrow> ('e, 'm, 'r) client \<Rightarrow> ('e, 'm, 'r) client"
  le_metrics :: "nat \<Rightarrow> ('e, 'm, 'r) client \<Rightarrow> ('e, 'm, 'r) client"
  le_clock :: "nat \<Rightarrow> time list"
  le_timestamp :: "nat \<Rightarrow> string"

datatype log_level = Warning | Error

text \<open>\<open>_log_loop_failure\<close>: the level, the loop and the count; the rest of the text is left out.\<close>

definition loop_error_log_threshold :: nat where
  "loop_error_log_threshold = 3"

definition log_loop_failure :: "string \<Rightarrow> nat \<Rightarrow> log_level \<times> string \<times> nat" where
  "log_loop_failure loop_name failures =
     (if failures \<ge> loop_error_log_threshold then Error else Warning, loop_name, failures)"

text \<open>
  How a round ends: the loop goes on, or \<open>break\<close>. \<open>Pushed\<close> has the transport's answer to a status
  report, \<open>False\<close> also when it raised.
\<close>

datatype round_end = Continue | Pushed bool | Broken

type_synonym ('e, 'm, 'r) agent_state = "('e, 'm, 'r) handler \<times> run"

type_synonym ('e, 'm, 'r) loop_round =
  "nat \<Rightarrow> ('e, 'm, 'r) agent_state \<Rightarrow> round_end \<times> ('e, 'm, 'r) agent_state \<times> (log_level \<times> string \<times> nat) list"

definition slept :: "('e, 'm, 'r) loop_env \<Rightarrow> nat \<Rightarrow> ('e, 'm, 'r) agent_state \<Rightarrow> ('e, 'm, 'r) agent_state" where
  "slept L i = (\<lambda>(h, s). (le_sleep L i h, s\<lparr>rn_transport := le_transport L i (rn_transport s)\<rparr>))"

section \<open>The rounds\<close>

definition flush_round :: "kit \<Rightarrow> agent_env \<Rightarrow> world \<Rightarrow> (security_event, security_metric, 'r) loop_env
   \<Rightarrow> (security_event, security_metric, 'r) loop_round" where
  "flush_round K env w L i hs =
     (case slept L i hs of (h, s) \<Rightarrow>
        if le_cancel L i then (Broken, (h, s), [])
        else if \<not> hn_running h then (Continue, (h\<lparr>hn_flush_failures := 0\<rparr>, s), [])
        else (case flush_buffer K env w (le_clock L i) (le_events L i) (le_metrics L i) (hn_client h) s of
            (res, cl, s', calls) \<Rightarrow>
              (let h' = le_work L i (h\<lparr>hn_client := cl\<rparr>)
               in case res of
                 Inr _ \<Rightarrow> (Continue, (h'\<lparr>hn_flush_failures := 0\<rparr>, s'), [])
               | Inl e \<Rightarrow>
                   if catchable e then
                     (Continue, (h'\<lparr>hn_flush_failures := hn_flush_failures h' + 1\<rparr>, s'),
                      [log_loop_failure ''flush loop'' (hn_flush_failures h' + 1)])
                   else (Broken, (h', s'), []))))"

definition status_push_failed :: "('e, 'm, 'r) handler \<Rightarrow> ('e, 'm, 'r) handler" where
  "status_push_failed h = h\<lparr>hn_last_status_push := Some False, hn_status_failures := hn_status_failures h + 1\<rparr>"

definition status_round :: "kit \<Rightarrow> agent_env \<Rightarrow> world \<Rightarrow> ('e, 'm, 'r) loop_env \<Rightarrow> ('e, 'm, 'r) loop_round" where
  "status_round K env w L i hs =
     (case slept L i hs of (h, s) \<Rightarrow>
        if le_cancel L i then (Broken, (h, s), [])
        else if \<not> hn_running h then (Continue, (h, s), [])
        else (let status = get_status (le_timestamp L i) (le_clock L i ! 0) h (rn_transport s)
              in case send_status K env w status s of
                (res, s') \<Rightarrow>
                  (let h' = le_work L i h
                   in case res of
                     Inr True \<Rightarrow> (Pushed True, (h'\<lparr>hn_last_status_push := Some True, hn_status_failures := 0\<rparr>, s'), [])
                   | Inr False \<Rightarrow> (Pushed False, (status_push_failed h', s'),
                       [log_loop_failure ''status loop'' (hn_status_failures h' + 1)])
                   | Inl e \<Rightarrow>
                       if catchable e then (Pushed False, (status_push_failed h', s'),
                         [log_loop_failure ''status loop'' (hn_status_failures h' + 1)])
                       else (Broken, (h', s'), []))))"

definition rules_round :: "kit \<Rightarrow> agent_env \<Rightarrow> world \<Rightarrow> ('e, 'm, 'r) loop_env \<Rightarrow> ('e, 'm, 'r) loop_round" where
  "rules_round K env w L i hs =
     (case slept L i hs of (h, s) \<Rightarrow>
        if le_cancel L i then (Broken, (h, s), [])
        else if \<not> hn_running h then (Continue, (h\<lparr>hn_rules_failures := 0\<rparr>, s), [])
        else (case get_dynamic_rules K env w (le_clock L i ! 0) (le_work L i) h s of
            (res, h', s') \<Rightarrow>
              (case res of
                 Inr _ \<Rightarrow> (Continue, (h'\<lparr>hn_rules_failures := 0\<rparr>, s'), [])
               | Inl e \<Rightarrow>
                   if catchable e then
                     (Continue, (h'\<lparr>hn_rules_failures := hn_rules_failures h' + 1\<rparr>, s'),
                      [log_loop_failure ''rules loop'' (hn_rules_failures h' + 1)])
                   else (Broken, (h', s'), []))))"

section \<open>The loops\<close>

text \<open>\<open>while self._running\<close>, from round \<open>i\<close> on, with the ends of the rounds and the log.\<close>

fun agent_loop :: "('e, 'm, 'r) loop_round \<Rightarrow> nat \<Rightarrow> nat \<Rightarrow> ('e, 'm, 'r) agent_state
   \<Rightarrow> (round_end list \<times> ('e, 'm, 'r) agent_state \<times> (log_level \<times> string \<times> nat) list) option" where
  "agent_loop round_of 0 i hs = None"
| "agent_loop round_of (Suc fuel) i hs =
     (if \<not> hn_running (fst hs) then Some ([], hs, [])
      else case round_of i hs of
        (Broken, hs', logs) \<Rightarrow> Some ([Broken], hs', logs)
      | (r, hs', logs) \<Rightarrow>
          map_option (\<lambda>(rs, hs2, logs2). (r # rs, hs2, logs @ logs2)) (agent_loop round_of fuel (Suc i) hs'))"

definition flush_loop :: "kit \<Rightarrow> agent_env \<Rightarrow> world \<Rightarrow> (security_event, security_metric, 'r) loop_env \<Rightarrow> nat
   \<Rightarrow> (security_event, security_metric, 'r) agent_state
   \<Rightarrow> (round_end list \<times> (security_event, security_metric, 'r) agent_state \<times> (log_level \<times> string \<times> nat) list) option" where
  "flush_loop K env w L fuel hs = agent_loop (flush_round K env w L) fuel 0 hs"

definition status_loop :: "kit \<Rightarrow> agent_env \<Rightarrow> world \<Rightarrow> ('e, 'm, 'r) loop_env \<Rightarrow> nat \<Rightarrow> ('e, 'm, 'r) agent_state
   \<Rightarrow> (round_end list \<times> ('e, 'm, 'r) agent_state \<times> (log_level \<times> string \<times> nat) list) option" where
  "status_loop K env w L fuel hs = agent_loop (status_round K env w L) fuel 0 hs"

definition rules_loop :: "kit \<Rightarrow> agent_env \<Rightarrow> world \<Rightarrow> ('e, 'm, 'r) loop_env \<Rightarrow> nat \<Rightarrow> ('e, 'm, 'r) agent_state
   \<Rightarrow> (round_end list \<times> ('e, 'm, 'r) agent_state \<times> (log_level \<times> string \<times> nat) list) option" where
  "rules_loop K env w L fuel hs = agent_loop (rules_round K env w L) fuel 0 hs"

section \<open>What all loops share\<close>

text \<open>
  A loop that is stopped in round \<open>n\<close> comes to its end, whatever its rounds do: the round in which
  the stop comes either breaks out or leaves the handler not running.
\<close>

locale stoppable_loop =
  fixes round_of :: "'k \<Rightarrow> ('e, 'm, 'r) loop_round" and stops :: "'k \<Rightarrow> nat \<Rightarrow> bool"
  assumes stop: "stops k i \<Longrightarrow> round_of k i hs = (r, hs', logs) \<Longrightarrow> r = Broken \<or> \<not> hn_running (fst hs')"
begin

lemma ends:
  assumes "stops k n" "i \<le> n" "Suc (n - i) < fuel"
  shows "agent_loop (round_of k) fuel i hs \<noteq> None"
  using assms(2,3)
proof (induction fuel arbitrary: i hs)
  case (Suc fuel)
  obtain r hs' logs where r: "round_of k i hs = (r, hs', logs)" by (metis prod_cases3)
  have "agent_loop (round_of k) fuel (Suc i) hs' \<noteq> None" if "r \<noteq> Broken"
  proof (cases "i = n")
    case True
    with stop [of k i hs r hs' logs] assms(1) r that have "\<not> hn_running (fst hs')" by simp
    with Suc.prems True show ?thesis by (cases fuel) simp_all
  next
    case False
    with Suc.prems show ?thesis by (intro Suc.IH) simp_all
  qed
  with r show ?case by (cases r) auto
qed simp

end

lemma agent_loop_cases:
  assumes "agent_loop round_of fuel i hs = Some (rs, hs', logs)"
  obtains (stopped) "\<not> hn_running (fst hs)" "rs = []" "hs' = hs" "logs = []"
  | (broken) "round_of i hs = (Broken, hs', logs)" "rs = [Broken]"
  | (further) r hs1 logs1 fuel' rs2 logs2 where "round_of i hs = (r, hs1, logs1)" "r \<noteq> Broken" "fuel = Suc fuel'"
      "agent_loop round_of fuel' (Suc i) hs1 = Some (rs2, hs', logs2)" "rs = r # rs2" "logs = logs1 @ logs2"
proof -
  obtain fuel' where fuel: "fuel = Suc fuel'" using assms by (cases fuel) auto
  obtain r hs1 logs1 where r: "round_of i hs = (r, hs1, logs1)" by (metis prod_cases3)
  from assms fuel r stopped broken further [OF r _ fuel] show ?thesis
    by (cases r) (auto split: if_splits)
qed

lemma agent_loop_end:
  "agent_loop round_of fuel i hs = Some (rs, hs', logs) \<Longrightarrow>
     \<not> hn_running (fst hs') \<or> rs \<noteq> [] \<and> last rs = Broken"
proof (induction fuel arbitrary: i hs rs logs)
  case (Suc fuel)
  from Suc.prems show ?case by (cases rule: agent_loop_cases) (use Suc.IH in auto)
qed simp

lemma agent_loop_ended:
  "agent_loop round_of fuel i hs \<noteq> None \<Longrightarrow> \<exists>rs hs' logs. agent_loop round_of fuel i hs = Some (rs, hs', logs)
     \<and> (\<not> hn_running (fst hs') \<or> rs \<noteq> [] \<and> last rs = Broken)"
  using agent_loop_end [of round_of fuel i hs] by (cases "agent_loop round_of fuel i hs") auto

text \<open>
  What a round does to the loop's own attributes (\<open>view\<close>) is determined by how it ends; so the
  attributes after a loop are determined by the ends of its rounds. \<open>lines\<close> is the number of lines
  a round writes to the log.
\<close>

locale loop_accounting =
  fixes round_of :: "'k \<Rightarrow> ('e, 'm, 'r) loop_round" and good :: "'k \<Rightarrow> bool"
    and view :: "('e, 'm, 'r) handler \<Rightarrow> 'v" and update :: "round_end \<Rightarrow> 'v \<Rightarrow> 'v" and lines :: "round_end \<Rightarrow> nat"
  assumes accounts: "good k \<Longrightarrow> round_of k i hs = (r, hs', logs) \<Longrightarrow>
      view (fst hs') = update r (view (fst hs)) \<and> length logs = lines r"
begin

lemma loop_accounts:
  assumes "good k"
  shows "agent_loop (round_of k) fuel i hs = Some (rs, hs', logs) \<Longrightarrow>
     view (fst hs') = fold update rs (view (fst hs)) \<and> length logs = sum_list (map lines rs)"
proof (induction fuel arbitrary: i hs rs logs)
  case (Suc fuel)
  from Suc.prems show ?case
  proof (cases rule: agent_loop_cases)
    case broken
    with accounts [OF assms broken(1)] show ?thesis by simp
  next
    case (further r hs1 logs1)
    with accounts [OF assms further(1)] Suc.IH show ?thesis by simp
  qed simp
qed simp

end

section \<open>The three loops keep these contracts\<close>

type_synonym ('e, 'm, 'r) loop_args = "kit \<times> agent_env \<times> world \<times> ('e, 'm, 'r) loop_env"

text \<open>The task is cancelled, or the agent stopped, while the loop sleeps in round \<open>i\<close>.\<close>

definition stopped_in :: "('e, 'm, 'r) loop_env \<Rightarrow> nat \<Rightarrow> bool" where
  "stopped_in L i \<longleftrightarrow> le_cancel L i \<or> (\<forall>h. \<not> hn_running (le_sleep L i h))"

definition args_stop :: "('e, 'm, 'r) loop_args \<Rightarrow> nat \<Rightarrow> bool" where
  "args_stop = (\<lambda>(K, env, w, L). stopped_in L)"

definition of_args :: "(kit \<Rightarrow> agent_env \<Rightarrow> world \<Rightarrow> ('e, 'm, 'r) loop_env \<Rightarrow> 'x) \<Rightarrow> ('e, 'm, 'r) loop_args \<Rightarrow> 'x" where
  "of_args f = (\<lambda>(K, env, w, L). f K env w L)"

lemma flush_buffer_error:
  "flush_buffer K env w clock o1 o2 cl s = (Inl e, cl', s', calls) \<Longrightarrow> \<not> catchable e"
  by (auto simp: flush_buffer_def split: sum.splits prod.splits if_splits)

lemma get_dynamic_rules_error:
  "get_dynamic_rules K env w now others h s = (Inl e, h', s') \<Longrightarrow> \<not> catchable e"
  by (auto simp: get_dynamic_rules_def rules_fetched_def split: sum.splits prod.splits if_splits option.splits)

lemma not_running_updates [simp]:
  "hn_running (h\<lparr>hn_flush_failures := n\<rparr>) = hn_running h" "hn_running (h\<lparr>hn_rules_failures := n\<rparr>) = hn_running h"
  by simp_all

interpretation flush_stop: stoppable_loop "of_args flush_round" args_stop
  by unfold_locales
     (auto simp: of_args_def args_stop_def stopped_in_def flush_round_def slept_def split: prod.splits if_splits)

interpretation status_stop: stoppable_loop "of_args status_round" args_stop
  by unfold_locales
     (auto simp: of_args_def args_stop_def stopped_in_def status_round_def slept_def split: prod.splits if_splits)

interpretation rules_stop: stoppable_loop "of_args rules_round" args_stop
  by unfold_locales
     (auto simp: of_args_def args_stop_def stopped_in_def rules_round_def slept_def split: prod.splits if_splits)

text \<open>
  The failure counters. The flush and rules loops only ever reset theirs, since the operations they
  call swallow every ordinary exception; the status loop counts its pushes, and remembers the last.
\<close>

definition status_view :: "('e, 'm, 'r) handler \<Rightarrow> nat \<times> bool option" where
  "status_view h = (hn_status_failures h, hn_last_status_push h)"

fun status_update :: "round_end \<Rightarrow> nat \<times> bool option \<Rightarrow> nat \<times> bool option" where
  "status_update (Pushed ok) (n, p) = (if ok then 0 else Suc n, Some ok)"
| "status_update _ v = v"

fun status_lines :: "round_end \<Rightarrow> nat" where
  "status_lines (Pushed ok) = (if ok then 0 else 1)"
| "status_lines _ = 0"

fun reset_update :: "round_end \<Rightarrow> nat \<Rightarrow> nat" where
  "reset_update Continue n = 0"
| "reset_update _ n = n"

text \<open>Other tasks do not write the attributes of the loop.\<close>

definition leaves_alone :: "(('e, 'm, 'r) handler \<Rightarrow> 'v) \<Rightarrow> ('e, 'm, 'r) loop_args \<Rightarrow> bool" where
  "leaves_alone view = (\<lambda>(K, env, w, L). \<forall>i h. view (le_sleep L i h) = view h \<and> view (le_work L i h) = view h)"

interpretation flush_count: loop_accounting "of_args flush_round" "leaves_alone hn_flush_failures" hn_flush_failures
    reset_update "\<lambda>_. 0"
proof
  fix k :: "(security_event, security_metric, 'r) loop_args" and i hs r hs' logs
  assume g: "leaves_alone hn_flush_failures k" and r: "of_args flush_round k i hs = (r, hs', logs)"
  obtain K env w L where k: "k = (K, env, w, L)" by (metis prod_cases4)
  obtain h s where hs: "slept L i hs = (h, s)" by fastforce
  then have h: "h = le_sleep L i (fst hs)" by (auto simp: slept_def split: prod.splits)
  obtain res cl s2 calls where f: "flush_buffer K env w (le_clock L i) (le_events L i) (le_metrics L i) (hn_client h) s
      = (res, cl, s2, calls)"
    by (metis prod_cases4)
  then have e: "\<And>e. res = Inl e \<Longrightarrow> \<not> catchable e" using flush_buffer_error by blast
  from r g e show "hn_flush_failures (fst hs') = reset_update r (hn_flush_failures (fst hs)) \<and> length logs = 0"
    by (cases res) (auto simp: k of_args_def flush_round_def hs h f [unfolded h] leaves_alone_def Let_def
        split: if_splits)
qed

interpretation rules_count: loop_accounting "of_args rules_round" "leaves_alone hn_rules_failures" hn_rules_failures
    reset_update "\<lambda>_. 0"
proof
  fix k :: "('e, 'm, 'r) loop_args" and i hs r hs' logs
  assume g: "leaves_alone hn_rules_failures k" and r: "of_args rules_round k i hs = (r, hs', logs)"
  obtain K env w L where k: "k = (K, env, w, L)" by (metis prod_cases4)
  obtain h s where hs: "slept L i hs = (h, s)" by fastforce
  then have h: "h = le_sleep L i (fst hs)" by (auto simp: slept_def split: prod.splits)
  obtain res h2 s2 where f: "get_dynamic_rules K env w (le_clock L i ! 0) (le_work L i) h s = (res, h2, s2)"
    by (metis prod_cases3)
  have keeps: "hn_rules_failures h2 = hn_rules_failures h"
    using f g by (auto simp: k get_dynamic_rules_def rules_fetched_def leaves_alone_def
        split: option.splits prod.splits sum.splits if_splits)
  from f have e: "\<And>e. res = Inl e \<Longrightarrow> \<not> catchable e" using get_dynamic_rules_error by blast
  from r g keeps e show "hn_rules_failures (fst hs') = reset_update r (hn_rules_failures (fst hs)) \<and> length logs = 0"
    by (cases res) (auto simp: k of_args_def rules_round_def hs h f [unfolded h] leaves_alone_def Let_def
        split: if_splits)
qed

interpretation status_count: loop_accounting "of_args status_round" "leaves_alone status_view" status_view
    status_update status_lines
proof
  fix k :: "('e, 'm, 'r) loop_args" and i hs r hs' logs
  assume g: "leaves_alone status_view k" and r: "of_args status_round k i hs = (r, hs', logs)"
  obtain K env w L where k: "k = (K, env, w, L)" by (metis prod_cases4)
  obtain h s where hs: "slept L i hs = (h, s)" by fastforce
  then have h: "h = le_sleep L i (fst hs)" by (auto simp: slept_def split: prod.splits)
  obtain res s2 where f: "send_status K env w (get_status (le_timestamp L i) (le_clock L i ! 0) h (rn_transport s)) s = (res, s2)"
    by fastforce
  from r g show "status_view (fst hs') = status_update r (status_view (fst hs)) \<and> length logs = status_lines r"
    by (auto simp: k of_args_def status_round_def hs h f [unfolded h] leaves_alone_def Let_def status_view_def
        status_push_failed_def split: if_splits sum.splits bool.splits)
qed

section \<open>What the loops guarantee\<close>


text \<open>
  C37: the status counter is the truth about the pushes. After any run of the status loop the last
  push is the last one made, the failure count is the number of pushes that failed since the last
  success (and, before any success, those counted before), and every failed push, and nothing else,
  wrote a line to the log.
\<close>

definition pushes :: "round_end list \<Rightarrow> bool list" where
  "pushes rs = List.map_filter (\<lambda>r. case r of Pushed ok \<Rightarrow> Some ok | _ \<Rightarrow> None) rs"

lemma pushes_simps [simp]:
  "pushes [] = []" "pushes (rs @ rs') = pushes rs @ pushes rs'"
  "pushes [Pushed ok] = [ok]" "pushes [Continue] = []" "pushes [Broken] = []"
  by (simp_all add: pushes_def map_filter_simps map_filter_def)

lemma fold_status_update:
  "fold status_update rs (n, p) =
     ((if True \<in> set (pushes rs) then 0 else n) + length (takeWhile Not (rev (pushes rs))),
      if pushes rs = [] then p else Some (last (pushes rs)))"
proof (induction rs rule: rev_induct)
  case (snoc r rs)
  then show ?case
  proof (cases r)
    case (Pushed ok)
    with snoc show ?thesis by (cases ok) auto
  qed auto
qed simp

lemma sum_status_lines: "sum_list (map status_lines rs) = length (filter Not (pushes rs))"
proof (induction rs rule: rev_induct)
  case (snoc r rs)
  then show ?case by (cases r) auto
qed simp

theorem status_loop_counts:
  assumes "leaves_alone status_view (K, env, w, L)"
    and "status_loop K env w L fuel (h, s) = Some (rs, (h', s'), logs)"
  shows "hn_last_status_push h' = (if pushes rs = [] then hn_last_status_push h else Some (last (pushes rs)))
    \<and> hn_status_failures h' = (if True \<in> set (pushes rs) then 0 else hn_status_failures h)
        + length (takeWhile Not (rev (pushes rs)))
    \<and> length logs = length (filter Not (pushes rs))"
proof -
  have "agent_loop (of_args status_round (K, env, w, L)) fuel 0 (h, s) = Some (rs, (h', s'), logs)"
    using assms(2) by (simp add: status_loop_def of_args_def)
  from status_count.loop_accounts [OF assms(1) this] show ?thesis
    by (simp add: status_view_def fold_status_update sum_status_lines)
qed

text \<open>
  The flush loop and the rules loop never count a failure. Whatever fails in the flushes and the
  fetches they make, their counters are at most reset and they write no line to the log, since
  \<open>flush_buffer\<close> and \<open>fetch_dynamic_rules\<close> swallow every ordinary exception first: the counters
  that \<open>get_stats\<close> reports for them stay 0.
\<close>

lemma fold_reset_update: "fold reset_update rs n \<in> {0, n}"
proof (induction rs rule: rev_induct)
  case (snoc r rs)
  then show ?case by (cases r) auto
qed simp

theorem quiet_loops_never_count:
  assumes "leaves_alone hn_flush_failures (K, env, w, LF)" "leaves_alone hn_rules_failures (K, env, w, LR)"
    and "flush_loop K env w LF fuel (h1, s1) = Some (rs1, (h1', s1'), logs1)"
    and "rules_loop K env w LR fuel (h2, s2) = Some (rs2, (h2', s2'), logs2)"
  shows "hn_flush_failures h1' \<in> {0, hn_flush_failures h1} \<and> logs1 = []
    \<and> hn_rules_failures h2' \<in> {0, hn_rules_failures h2} \<and> logs2 = []"
proof -
  have "agent_loop (of_args flush_round (K, env, w, LF)) fuel 0 (h1, s1) = Some (rs1, (h1', s1'), logs1)"
      "agent_loop (of_args rules_round (K, env, w, LR)) fuel 0 (h2, s2) = Some (rs2, (h2', s2'), logs2)"
    using assms(3,4) by (simp_all add: flush_loop_def rules_loop_def of_args_def)
  from flush_count.loop_accounts [OF assms(1) this(1)] rules_count.loop_accounts [OF assms(2) this(2)]
    fold_reset_update [of rs1 "hn_flush_failures h1"] fold_reset_update [of rs2 "hn_rules_failures h2"]
  show ?thesis by auto
qed

section \<open>Concrete loops\<close>

text \<open>The agent is stopped while the loops sleep in their second round.\<close>

definition sample_loop_env :: "(security_event, security_metric, unit) loop_env" where
  "sample_loop_env = \<lparr>le_cancel = (\<lambda>i. False), le_sleep = (\<lambda>i h. if i = 0 then h else h\<lparr>hn_running := False\<rparr>),
     le_transport = (\<lambda>i tp. tp), le_work = (\<lambda>i h. h), le_events = (\<lambda>i cl. cl), le_metrics = (\<lambda>i cl. cl),
     le_clock = (\<lambda>i. [1000, 1001, 1002, 1003]), le_timestamp = (\<lambda>i. ''t'')\<rparr>"

lemma sample_loop_stops: "stopped_in sample_loop_env 1"
  by (simp add: stopped_in_def sample_loop_env_def)

lemma sample_loop_quiet:
  "leaves_alone status_view (K, env, w, sample_loop_env)"
  "leaves_alone hn_flush_failures (K, env, w, sample_loop_env)"
  "leaves_alone hn_rules_failures (K, env, w, sample_loop_env)"
  by (simp_all add: leaves_alone_def sample_loop_env_def status_view_def)


lemma sample_loop_runs:
  "\<exists>rs h' s' logs. flush_loop sample_kit sample_env (sample_world NetTimeout) sample_loop_env 3 (sample_handler, sample_run)
     = Some (rs, (h', s'), logs)"
  "\<exists>rs h' s' logs. status_loop sample_kit sample_env (sample_world NetTimeout) sample_loop_env 3 (sample_handler, sample_run)
     = Some (rs, (h', s'), logs)"
  "\<exists>rs h' s' logs. rules_loop sample_kit sample_env (sample_world NetTimeout) sample_loop_env 3 (sample_handler, sample_run)
     = Some (rs, (h', s'), logs)"
  using flush_stop.ends [of "(sample_kit, sample_env, sample_world NetTimeout, sample_loop_env)" 1 0 3]
    status_stop.ends [of "(sample_kit, sample_env, sample_world NetTimeout, sample_loop_env)" 1 0 3]
    rules_stop.ends [of "(sample_kit, sample_env, sample_world NetTimeout, sample_loop_env)" 1 0 3]
    sample_loop_stops
  by (auto simp: args_stop_def of_args_def flush_loop_def status_loop_def rules_loop_def)

theorem status_loop_counts_witness:
  "\<exists>rs h' s' logs. status_loop sample_kit sample_env (sample_world NetTimeout) sample_loop_env 3 (sample_handler, sample_run)
       = Some (rs, (h', s'), logs)
     \<and> hn_status_failures h' = length (takeWhile Not (rev (pushes rs)))"
proof -
  obtain rs h' s' logs where l: "status_loop sample_kit sample_env (sample_world NetTimeout) sample_loop_env 3
      (sample_handler, sample_run) = Some (rs, (h', s'), logs)"
    using sample_loop_runs(2) by blast
  from status_loop_counts [OF sample_loop_quiet(1) l] l show ?thesis
    by (auto simp: sample_handler_def)
qed

theorem quiet_loops_never_count_witness:
  "\<exists>rs h' s'. flush_loop sample_kit sample_env (sample_world NetTimeout) sample_loop_env 3 (sample_handler, sample_run)
       = Some (rs, (h', s'), []) \<and> hn_flush_failures h' = 0"
proof -
  obtain rs1 h1 s1 logs1 rs2 h2 s2 logs2 where l:
      "flush_loop sample_kit sample_env (sample_world NetTimeout) sample_loop_env 3 (sample_handler, sample_run)
         = Some (rs1, (h1, s1), logs1)"
      "rules_loop sample_kit sample_env (sample_world NetTimeout) sample_loop_env 3 (sample_handler, sample_run)
         = Some (rs2, (h2, s2), logs2)"
    using sample_loop_runs(1,3) by blast
  from quiet_loops_never_count [OF sample_loop_quiet(2,3) l] l show ?thesis
    by (auto simp: sample_handler_def)
qed

end
