(* ===== verification/ClientIngest.thy ===== *)
theory ClientIngest
  imports AddLoop ClientStatus
begin

text \<open>
  Taking in events and metrics (\<open>_client_ingest.py\<close>): a foreign object is turned into a model
  instance, sensitive metadata or tags are redacted, the item is buffered; every ordinary exception
  is swallowed. The pydantic constructors are arguments of the operations.
\<close>

section \<open>Operations\<close>

text \<open>
  What the caller hands in: an instance of the model class, or another object, given by its
  attributes. Reading one may raise; \<open>Inr None\<close> means there is none (\<open>hasattr\<close> is false).
\<close>

datatype 'a given = Instance 'a | Foreign "string \<Rightarrow> exn + pyval option"

definition event_fields :: "string list" where
  "event_fields = [''idempotency_key'', ''timestamp'', ''event_type'', ''ip_address'', ''country'', ''user_agent'',
     ''action_taken'', ''reason'', ''endpoint'', ''method'', ''status_code'', ''response_time'', ''decorator_type'',
     ''rule_type'', ''pattern_matched'', ''handler_name'', ''metadata'']"

definition metric_fields :: "string list" where
  "metric_fields = [''timestamp'', ''metric_type'', ''value'', ''endpoint'', ''tags'']"

fun collect_fields :: "(string \<Rightarrow> exn + pyval option) \<Rightarrow> string list \<Rightarrow> exn + pydict" where
  "collect_fields attr [] = Inr []"
| "collect_fields attr (f # fs) =
     (case attr f of
        Inl e \<Rightarrow> Inl e
      | Inr None \<Rightarrow> collect_fields attr fs
      | Inr (Some v) \<Rightarrow> map_sum id (\<lambda>d. (PStr f, v) # d) (collect_fields attr fs))"

definition normalize_given :: "string list \<Rightarrow> (pydict \<Rightarrow> exn + 'a) \<Rightarrow> 'a given \<Rightarrow> exn + 'a" where
  "normalize_given names build x =
     (case x of Instance a \<Rightarrow> Inr a
      | Foreign attr \<Rightarrow> (case collect_fields attr names of Inl e \<Rightarrow> Inl e | Inr d \<Rightarrow> build d))"

definition redact_event_metadata :: "codec \<Rightarrow> agent_config \<Rightarrow> security_event \<Rightarrow> security_event" where
  "redact_event_metadata C c event =
     event\<lparr>ev_metadata := sanitize_headers C (ev_metadata event) (cf_sensitive_headers c)\<rparr>"

definition redact_metric_tags :: "codec \<Rightarrow> agent_config \<Rightarrow> security_metric \<Rightarrow> security_metric" where
  "redact_metric_tags C c metric =
     metric\<lparr>mt_tags := sanitize_headers C (mt_tags metric) (cf_sensitive_headers c)\<rparr>"

text \<open>
  The whole operation on the buffer. \<open>i\<close> is the identity of the redacted copy, \<open>key\<close> the Redis key
  of its record; fuel and \<open>env\<close> are those of the waiting loop of the buffer. \<open>c\<close> is the handler's
  configuration.
\<close>

definition send_event ::
  "codec \<Rightarrow> (pydict \<Rightarrow> exn + security_event) \<Rightarrow> agent_config \<Rightarrow> nat
   \<Rightarrow> (nat \<Rightarrow> (security_event, 'm, 'r) buffer_state \<Rightarrow> (security_event, 'm, 'r) buffer_state option)
   \<Rightarrow> security_event lane_kind \<Rightarrow> string \<Rightarrow> oid \<Rightarrow> security_event given \<Rightarrow> (security_event, 'm, 'r) buffer_state
   \<Rightarrow> ((exn + unit) \<times> (security_event, 'm, 'r) buffer_state) option" where
  "send_event C build c fuel env K key i event s =
     (if \<not> cf_enable_events c then Some (Inr (), s)
      else case normalize_given event_fields build event of
        Inl e \<Rightarrow> Some (swallow (Inl e, s))
      | Inr ev \<Rightarrow> map_option swallow (add_event fuel env K key (i, redact_event_metadata C c ev) s))"

definition send_metric ::
  "codec \<Rightarrow> (pydict \<Rightarrow> exn + security_metric) \<Rightarrow> agent_config \<Rightarrow> nat
   \<Rightarrow> (nat \<Rightarrow> ('e, security_metric, 'r) buffer_state \<Rightarrow> ('e, security_metric, 'r) buffer_state option)
   \<Rightarrow> security_metric lane_kind \<Rightarrow> string \<Rightarrow> oid \<Rightarrow> security_metric given \<Rightarrow> ('e, security_metric, 'r) buffer_state
   \<Rightarrow> ((exn + unit) \<times> ('e, security_metric, 'r) buffer_state) option" where
  "send_metric C build c fuel env K key i metric s =
     (if \<not> cf_enable_metrics c then Some (Inr (), s)
      else case normalize_given metric_fields build metric of
        Inl e \<Rightarrow> Some (swallow (Inl e, s))
      | Inr m \<Rightarrow> map_option swallow (add_metric fuel env K key (i, redact_metric_tags C c m) s))"

section \<open>What is queued stays clean\<close>

definition sensitive_names :: "agent_config \<Rightarrow> string list" where
  "sensitive_names c = map (\<lambda>h. lower (strip h)) (cf_sensitive_headers c)"

definition clean_events :: "codec \<Rightarrow> agent_config \<Rightarrow> (security_event, 'm, 'r) buffer_state \<Rightarrow> bool" where
  "clean_events C c s \<longleftrightarrow>
     (\<forall>x \<in> set (ln_items (bf_events (fst s))). clean C (sensitive_names c) (ev_metadata (snd x)))"

definition clean_metrics :: "codec \<Rightarrow> agent_config \<Rightarrow> ('e, security_metric, 'r) buffer_state \<Rightarrow> bool" where
  "clean_metrics C c s \<longleftrightarrow>
     (\<forall>x \<in> set (ln_items (bf_metrics (fst s))). clean C (sensitive_names c) (mt_tags (snd x)))"

text \<open>Other tasks keep a property of the state, and so does the waiting loop when its attempts do.\<close>

definition env_keeps :: "('s \<Rightarrow> bool) \<Rightarrow> (nat \<Rightarrow> 's \<Rightarrow> 's option) \<Rightarrow> bool" where
  "env_keeps P env \<longleftrightarrow> (\<forall>k s s'. P s \<longrightarrow> env k s = Some s' \<longrightarrow> P s')"

lemma wait_loop_keeps:
  assumes "\<And>s res s'. P s \<Longrightarrow> attempt s = (res, s') \<Longrightarrow> P s'" and "env_keeps P env"
  shows "wait_loop fuel env k attempt s = Some (res, s') \<Longrightarrow> P s \<Longrightarrow> P s'"
proof (induction fuel arbitrary: k s)
  case (Suc fuel)
  obtain r t where a: "attempt s = (r, t)" by (meson prod.exhaust)
  with Suc.prems(2) have "P t" by (rule assms(1))
  with Suc a assms(2) show ?case
    by (auto simp: env_keeps_def split: sum.splits bool.splits option.splits)
qed simp

lemma set_deque_append: "set (deque_append n x q) \<subseteq> insert x (set q)"
  using set_drop_subset [of _ "q @ [x]"] by (fastforce simp: deque_append_def)

lemma add_round_items:
  assumes "add_round K R policy n key x (L, fails, r) = (res, L', fails', r')"
  shows "set (ln_items L') \<subseteq> insert x (set (ln_items L))"
proof -
  obtain res1 L1 r1 where o: "resolve_overflow K R policy n (L, r) = (res1, L1, r1)" by (metis prod_cases3)
  obtain res2 s2 where a: "append_item K R n key x (L1, fails, r1) = (res2, s2)"
    by (meson prod.exhaust)
  obtain L2 f2 r2 where s2: "s2 = (L2, f2, r2)" by (metis prod_cases3)
  from assms o a s2 have "L' = L1 \<or> L' = L2" by (auto simp: add_round_def split: sum.splits bool.splits)
  with resolve_overflow_frame [OF o] append_item_lane [OF a [unfolded s2]] set_deque_append [of n x "ln_items L1"]
  show ?thesis by auto
qed

lemma add_event_round_clean:
  assumes "clean_events C c s" "clean C (sensitive_names c) (ev_metadata (snd x))"
    and "add_event_round K key x s = (res, s')"
  shows "clean_events C c s'"
proof -
  obtain B r where s: "s = (B, r)" by fastforce
  obtain L f r' where "add_round K (bf_redis B) (cf_overflow_policy (bf_config B)) (buffer_maxlen B) key x
      (bf_events B, bf_persist_failures B, r) = (res, L, f, r')" "bf_events (fst s') = L"
    using assms(3) by (auto simp: s add_event_round_def split: prod.splits)
  from add_round_items [OF this(1)] this(2) have "set (ln_items (bf_events (fst s'))) \<subseteq> insert x (set (ln_items (bf_events B)))" by simp
  with assms(1,2) show ?thesis by (auto simp: s clean_events_def)
qed

lemma add_metric_round_clean:
  assumes "clean_metrics C c s" "clean C (sensitive_names c) (mt_tags (snd x))"
    and "add_metric_round K key x s = (res, s')"
  shows "clean_metrics C c s'"
proof -
  obtain B r where s: "s = (B, r)" by fastforce
  obtain L f r' where "add_round K (bf_redis B) (cf_overflow_policy (bf_config B)) (buffer_maxlen B) key x
      (bf_metrics B, bf_persist_failures B, r) = (res, L, f, r')" "bf_metrics (fst s') = L"
    using assms(3) by (auto simp: s add_metric_round_def split: prod.splits)
  from add_round_items [OF this(1)] this(2) have "set (ln_items (bf_metrics (fst s'))) \<subseteq> insert x (set (ln_items (bf_metrics B)))" by simp
  with assms(1,2) show ?thesis by (auto simp: s clean_metrics_def)
qed

lemma redact_event_clean: "json_laws C \<Longrightarrow> clean C (sensitive_names c) (ev_metadata (redact_event_metadata C c ev))"
  by (simp add: redact_event_metadata_def sensitive_names_def sanitize_headers_def sanitize_value_clean)

lemma redact_metric_clean: "json_laws C \<Longrightarrow> clean C (sensitive_names c) (mt_tags (redact_metric_tags C c m))"
  by (simp add: redact_metric_tags_def sensitive_names_def sanitize_headers_def sanitize_value_clean)

lemma swallow_error: "swallow (res, s) = (Inl e, s') \<Longrightarrow> e = CancelledError"
  by (auto simp: swallow_def not_catchable split: sum.splits if_splits)

lemma swallow_state: "snd (swallow (res, s)) = s"
  by (simp add: swallow_def)

text \<open>
  C31: what the agent takes in is redacted before it is queued, and the caller is never bothered. As
  long as the queued events hold no value under a sensitive key, and the other tasks keep it so,
  sending any event (an instance or a foreign object, whatever reading its attributes raises) keeps
  it so; no exception but a cancellation comes out, under any overflow policy, \<open>raise\<close> included;
  and with events disabled nothing happens.
\<close>

theorem ingest_event_redacts:
  assumes "json_laws C" and "clean_events C c s" and "env_keeps (clean_events C c) env"
    and "send_event C build c fuel env K key i event s = Some (res, s')"
  shows "clean_events C c s' \<and> (\<forall>e. res = Inl e \<longrightarrow> e = CancelledError)
    \<and> (\<not> cf_enable_events c \<longrightarrow> res = Inr () \<and> s' = s)"
proof (cases "cf_enable_events c")
  case True
  show ?thesis
  proof (cases "normalize_given event_fields build event")
    case (Inl e)
    with True assms(4) have "swallow (Inl e, s) = (res, s')" by (simp add: send_event_def)
    with assms(2) swallow_error [of "Inl e" s _ s'] swallow_state [of "Inl e" s] True show ?thesis by auto
  next
    case (Inr ev)
    let ?x = "(i, redact_event_metadata C c ev)"
    obtain r t where a: "add_event fuel env K key ?x s = Some (r, t)" "swallow (r, t) = (res, s')"
      using True Inr assms(4) by (auto simp: send_event_def)
    then obtain r0 B r1 where w: "wait_loop fuel env 0 (add_event_round K key ?x) s = Some (r0, B, r1)"
        "bf_events (fst t) = bf_events B"
      by (auto simp: add_event_def split: if_splits)
    have "clean_events C c (B, r1)"
      using wait_loop_keeps [OF _ assms(3) w(1) assms(2)] add_event_round_clean redact_event_clean [OF assms(1)]
      by (metis snd_conv)
    then have "clean_events C c t" by (simp add: clean_events_def w(2))
    with a(2) swallow_error [of r t _ s'] swallow_state [of r t] True show ?thesis by auto
  qed
qed (use assms in \<open>auto simp: send_event_def\<close>)

text \<open>The same for metrics and their tags.\<close>

theorem ingest_metric_redacts:
  assumes "json_laws C" and "clean_metrics C c s" and "env_keeps (clean_metrics C c) env"
    and "send_metric C build c fuel env K key i metric s = Some (res, s')"
  shows "clean_metrics C c s' \<and> (\<forall>e. res = Inl e \<longrightarrow> e = CancelledError)
    \<and> (\<not> cf_enable_metrics c \<longrightarrow> res = Inr () \<and> s' = s)"
proof (cases "cf_enable_metrics c")
  case True
  show ?thesis
  proof (cases "normalize_given metric_fields build metric")
    case (Inl e)
    with True assms(4) have "swallow (Inl e, s) = (res, s')" by (simp add: send_metric_def)
    with assms(2) swallow_error [of "Inl e" s _ s'] swallow_state [of "Inl e" s] True show ?thesis by auto
  next
    case (Inr m)
    let ?x = "(i, redact_metric_tags C c m)"
    obtain r t where a: "add_metric fuel env K key ?x s = Some (r, t)" "swallow (r, t) = (res, s')"
      using True Inr assms(4) by (auto simp: send_metric_def)
    then obtain r0 B r1 where w: "wait_loop fuel env 0 (add_metric_round K key ?x) s = Some (r0, B, r1)"
        "bf_metrics (fst t) = bf_metrics B"
      by (auto simp: add_metric_def split: if_splits)
    have "clean_metrics C c (B, r1)"
      using wait_loop_keeps [OF _ assms(3) w(1) assms(2)] add_metric_round_clean redact_metric_clean [OF assms(1)]
      by (metis snd_conv)
    then have "clean_metrics C c t" by (simp add: clean_metrics_def w(2))
    with a(2) swallow_error [of r t _ s'] swallow_state [of r t] True show ?thesis by auto
  qed
qed (use assms in \<open>auto simp: send_metric_def\<close>)

section \<open>Concrete ingestion\<close>

text \<open>An event with a cookie in its metadata, into a full buffer that raises.\<close>

definition secret_event :: security_event where
  "secret_event = (new_event ''k'' ''t'' ''e'')\<lparr>ev_metadata := PDict [(PStr ''cookie'', PStr ''secret'')]\<rparr>"

definition sample_event_kind :: "security_event lane_kind" where
  "sample_event_kind = \<lparr>lk_namespace = ''agent_events'', lk_prefix = ''event'', lk_full_message = ''Event buffer full'',
     lk_dump = (\<lambda>e. Inr (ev_event_type e)), lk_load = (\<lambda>s. Inr None)\<rparr>"

definition small_buffer :: "(security_event, security_metric, unit) event_buffer" where
  "small_buffer = (event_buffer_init (default_config ''0123456789''))
     \<lparr>bf_config := (default_config ''0123456789'')\<lparr>cf_buffer_size := 1, cf_overflow_policy := Raise\<rparr>\<rparr>"

lemma env_keeps_idle: "env_keeps P (\<lambda>k. Some)"
  by (simp add: env_keeps_def)

definition sample_metric_kind :: "security_metric lane_kind" where
  "sample_metric_kind = \<lparr>lk_namespace = ''agent_metrics'', lk_prefix = ''metric'', lk_full_message = ''Metric buffer full'',
     lk_dump = (\<lambda>m. Inr (mt_timestamp m)), lk_load = (\<lambda>s. Inr None)\<rparr>"

lemmas ingest_simps = send_event_def send_metric_def normalize_given_def add_event_def add_metric_def
  add_event_round_def add_metric_round_def add_round_def resolve_overflow_def append_item_def lane_full_def
  deque_append_def small_buffer_def event_buffer_init_def buffer_maxlen_def empty_lane_def default_config_def swallow_def

theorem ingest_event_redacts_witness:
  "\<exists>s' x. send_event sample_codec (\<lambda>d. Inl (ValueError [])) (default_config ''0123456789'') 1 (\<lambda>k. Some) sample_event_kind
        ''k'' 1 (Instance secret_event) (small_buffer, ()) = Some (Inr (), s')
     \<and> ln_items (bf_events (fst s')) = [x] \<and> clean sample_codec (sensitive_names (default_config ''0123456789'')) (ev_metadata (snd x))"
proof -
  let ?c = "default_config ''0123456789''"
  obtain s' where r: "send_event sample_codec (\<lambda>d. Inl (ValueError [])) ?c 1 (\<lambda>k. Some) sample_event_kind
        ''k'' 1 (Instance secret_event) (small_buffer, ()) = Some (Inr (), s')"
      "ln_items (bf_events (fst s')) = [(1, redact_event_metadata sample_codec ?c secret_event)]"
    by (auto simp: ingest_simps)
  have "clean_events sample_codec ?c (small_buffer, ())"
    by (simp add: clean_events_def small_buffer_def event_buffer_init_def empty_lane_def)
  from ingest_event_redacts [OF sample_codec_laws this env_keeps_idle r(1)] r show ?thesis
    by (auto simp: clean_events_def)
qed

theorem ingest_metric_redacts_witness:
  "\<exists>s'. send_metric sample_codec (\<lambda>d. Inl (ValueError [])) (default_config ''0123456789'') 1 (\<lambda>k. Some) sample_metric_kind
       ''k'' 7 (Instance sample_metric)
       (small_buffer\<lparr>bf_metrics := empty_lane\<lparr>ln_items := [(5, sample_metric)]\<rparr>\<rparr>, ()) = Some (Inr (), s')
     \<and> clean_metrics sample_codec (default_config ''0123456789'') s'"
proof -
  let ?c = "default_config ''0123456789''"
  let ?s = "(small_buffer\<lparr>bf_metrics := empty_lane\<lparr>ln_items := [(5, sample_metric)]\<rparr>\<rparr>, ())"
  obtain s' where r: "send_metric sample_codec (\<lambda>d. Inl (ValueError [])) ?c 1 (\<lambda>k. Some) sample_metric_kind
        ''k'' 7 (Instance sample_metric) ?s = Some (Inr (), s')"
    by (auto simp: ingest_simps)
  have "clean_metrics sample_codec ?c ?s"
    by (auto simp: clean_metrics_def sample_metric_def intro: clean_dict)
  from ingest_metric_redacts [OF sample_codec_laws this env_keeps_idle r] r show ?thesis by blast
qed

end
