(* ===== verification/Lifecycle.thy ===== *)
theory Lifecycle
  imports ClientLoops
begin

text \<open>
  Creation, start, stop and fork of \<open>GuardAgentHandler\<close> (\<open>client.py\<close>). The class holds one instance;
  an instance is an object that may not be initialized yet. The set-up of the logger, of which
  the handler uses nothing, is in \<open>Host\<close>.
\<close>

section \<open>The class and its instance\<close>

text \<open>The attributes \<open>__init__\<close> creates: the handler with its buffer, and the transport.\<close>

record 'r agent =
  an_handler :: "(security_event, security_metric, 'r) handler"
  an_env :: agent_env
  an_transport :: transport

record 'r agent_object =
  in_initialized :: bool
  in_owner_pid :: int
  in_agent :: "'r agent option"

record 'r agent_class =
  ac_instance :: "'r agent_object option"
  ac_fork_hook_registered :: bool

definition no_tasks :: "('e, 'm, 'r) handler \<Rightarrow> ('e, 'm, 'r) handler" where
  "no_tasks h = h\<lparr>hn_flush_task := None, hn_status_task := None, hn_rules_task := None\<rparr>"

text \<open>What \<open>__new__\<close> in another process and the fork hook do to the instance.\<close>

definition disown :: "int \<Rightarrow> 'r agent_object \<Rightarrow> 'r agent_object" where
  "disown pid x = x\<lparr>in_initialized := False, in_owner_pid := pid,
     in_agent := map_option (\<lambda>a. a\<lparr>an_handler := no_tasks (an_handler a)\<rparr>) (in_agent x)\<rparr>"

definition handler_reset_after_fork :: "int \<Rightarrow> 'r agent_class \<Rightarrow> 'r agent_class" where
  "handler_reset_after_fork pid C = C\<lparr>ac_instance := map_option (disown pid) (ac_instance C)\<rparr>"

definition handler_new :: "int \<Rightarrow> 'r agent_class \<Rightarrow> 'r agent_class" where
  "handler_new pid C =
     (case ac_instance C of
        None \<Rightarrow> C\<lparr>ac_instance := Some \<lparr>in_initialized = False, in_owner_pid = pid, in_agent = None\<rparr>,
                  ac_fork_hook_registered := True\<rparr>
      | Some x \<Rightarrow> if in_owner_pid x \<noteq> pid then C\<lparr>ac_instance := Some (disown pid x)\<rparr> else C)"

definition new_client :: "agent_config \<Rightarrow> 'r \<Rightarrow> (security_event, security_metric, 'r) client" where
  "new_client c r = \<lparr>cl_config = c, cl_buffer = (event_buffer_init c, r), cl_events = lane_stats_init,
     cl_metrics = lane_stats_init\<rparr>"

definition new_handler :: "agent_config \<Rightarrow> time \<Rightarrow> 'r \<Rightarrow> (security_event, security_metric, 'r) handler" where
  "new_handler c now r = \<lparr>hn_client = new_client c r, hn_redis = None, hn_running = False, hn_flush_task = None,
     hn_status_task = None, hn_rules_task = None, hn_start_time = now, hn_rules_fetched = 0, hn_flush_failures = 0,
     hn_status_failures = 0, hn_rules_failures = 0, hn_last_status_push = None, hn_cached_rules = None,
     hn_rules_last_update = 0\<rparr>"

text \<open>
  The arguments stand for the outside: the process, the clock, the stored install id, the random
  nonce of the startup check, the state of the Redis side.
\<close>

definition handler_init :: "crypt \<Rightarrow> agent_config \<Rightarrow> int \<Rightarrow> time \<Rightarrow> string \<Rightarrow> string \<Rightarrow> 'r \<Rightarrow> 'r agent_object
   \<Rightarrow> (exn + unit) \<times> 'r agent_object" where
  "handler_init C c pid now install_id nonce r x =
     (if in_initialized x then
        (Inr (), x\<lparr>in_agent := map_option (\<lambda>a. a\<lparr>an_handler := (an_handler a)
           \<lparr>hn_client := (hn_client (an_handler a))\<lparr>cl_config := c\<rparr>\<rparr>\<rparr>) (in_agent x)\<rparr>)
      else if validate_config c \<noteq> [] then
        (Inl (ValueError (''Invalid agent configuration: '' @ join ''; '' (validate_config c))), x)
      else case transport_init C c install_id pid nonce of
        Inl e \<Rightarrow> (Inl e, x)
      | Inr (env, tp) \<Rightarrow>
          (Inr (), x\<lparr>in_initialized := True,
             in_agent := Some \<lparr>an_handler = new_handler c now r, an_env = env, an_transport = tp\<rparr>\<rparr>))"

text \<open>\<open>GuardAgentHandler(config)\<close>: \<open>__new__\<close>, then \<open>__init__\<close> on what it returned.\<close>

definition construct_handler :: "crypt \<Rightarrow> agent_config \<Rightarrow> int \<Rightarrow> time \<Rightarrow> string \<Rightarrow> string \<Rightarrow> 'r \<Rightarrow> 'r agent_class
   \<Rightarrow> (exn + unit) \<times> 'r agent_class" where
  "construct_handler C c pid now install_id nonce r cls =
     (case ac_instance (handler_new pid cls) of
        None \<Rightarrow> (Inr (), handler_new pid cls)
      | Some x \<Rightarrow> (case handler_init C c pid now install_id nonce r x of
          (res, x') \<Rightarrow> (res, (handler_new pid cls)\<lparr>ac_instance := Some x'\<rparr>)))"

section \<open>Start and stop\<close>

definition update_buffer :: "(('e, 'm, 'r) event_buffer \<Rightarrow> ('e, 'm, 'r) event_buffer) \<Rightarrow> ('e, 'm, 'r) handler
   \<Rightarrow> ('e, 'm, 'r) handler" where
  "update_buffer f h = (case cl_buffer (hn_client h) of (B, r) \<Rightarrow>
     h\<lparr>hn_client := (hn_client h)\<lparr>cl_buffer := (f B, r)\<rparr>\<rparr>)"

definition end_task :: "bool option \<Rightarrow> bool option" where
  "end_task t = map_option (\<lambda>_. True) t"

text \<open>The handler once the cancelled tasks have been awaited.\<close>

definition end_tasks :: "('e, 'm, 'r) handler \<Rightarrow> ('e, 'm, 'r) handler" where
  "end_tasks h = h\<lparr>hn_flush_task := end_task (hn_flush_task h), hn_status_task := end_task (hn_status_task h),
     hn_rules_task := end_task (hn_rules_task h)\<rparr>"

text \<open>
  What other tasks do during a stop: to the handler while the background tasks are awaited, and to
  the client during the two sends of the last flush; with the clock readings of that flush. \<open>stop\<close> may
  itself be cancelled. While it awaits one of the tasks it takes the cancellation for that task's and
  goes on; while it waits for the early-flush tasks, \<open>se_gather\<close>, the cancellation comes out.
\<close>

record 'r stop_env =
  se_tasks :: "(security_event, security_metric, 'r) handler \<Rightarrow> (security_event, security_metric, 'r) handler"
  se_events :: "(security_event, security_metric, 'r) client \<Rightarrow> (security_event, security_metric, 'r) client"
  se_metrics :: "(security_event, security_metric, 'r) client \<Rightarrow> (security_event, security_metric, 'r) client"
  se_clock :: "time list"
  se_gather :: bool

text \<open>\<open>stop_auto_flush\<close> up to its wait for the early-flush tasks.\<close>

definition end_flush_loop :: "('e, 'm, 'r) event_buffer \<Rightarrow> ('e, 'm, 'r) event_buffer" where
  "end_flush_loop B = B\<lparr>bf_running := False, bf_flush_task := end_task (bf_flush_task B)\<rparr>"

definition stop_agent :: "kit \<Rightarrow> agent_env \<Rightarrow> world \<Rightarrow> 'r stop_env \<Rightarrow> (security_event, security_metric, 'r) agent_state
   \<Rightarrow> (exn + unit) \<times> (security_event, security_metric, 'r) agent_state" where
  "stop_agent K env w E = (\<lambda>(h, s).
     (let h0 = end_tasks (se_tasks E (h\<lparr>hn_running := False\<rparr>)); h1 = update_buffer stop_auto_flush h0
      in if se_gather E \<and> bf_inflight (hn_buffer h0) \<noteq> 0 then (Inl CancelledError, update_buffer end_flush_loop h0, s)
         else case flush_buffer K env w (se_clock E) (se_events E) (se_metrics E) (hn_client h1) s of
           (res, cl, s', calls) \<Rightarrow>
             (case res of
                Inl e \<Rightarrow> (Inl e, h1\<lparr>hn_client := cl\<rparr>, s')
              | Inr _ \<Rightarrow> (Inr (), h1\<lparr>hn_client := cl\<rparr>, s'\<lparr>rn_transport := close_client (rn_transport s')\<rparr>))))"

definition has_project :: "agent_config \<Rightarrow> bool" where
  "has_project c \<longleftrightarrow> cf_project_id c \<noteq> None \<and> cf_project_id c \<noteq> Some []"

definition start_agent :: "kit \<Rightarrow> agent_env \<Rightarrow> world \<Rightarrow> 'r stop_env \<Rightarrow> (security_event, security_metric, 'r) agent_state
   \<Rightarrow> (exn + unit) \<times> (security_event, security_metric, 'r) agent_state" where
  "start_agent K env w E = (\<lambda>(h, s).
     if hn_running h then (Inr (), h, s)
     else case initialize K env s of
       (Inl e, s') \<Rightarrow>
         if catchable e then
           (case stop_agent K env w E (h, s') of
              (Inl e', hs) \<Rightarrow> (Inl e', hs)
            | (Inr _, hs) \<Rightarrow> (Inl e, hs))
         else (Inl e, h, s')
     | (Inr _, s') \<Rightarrow>
         (let h1 = update_buffer start_auto_flush h
          in (Inr (), h1\<lparr>hn_running := True, hn_flush_task := Some False, hn_status_task := Some False,
                hn_rules_task := (if has_project (hn_config h1) then Some False else hn_rules_task h1)\<rparr>, s')))"

text \<open>\<open>initialize_redis\<close>: the handler keeps the Redis handler, the buffer loads what it stores.\<close>

definition handler_initialize_redis ::
  "security_event lane_kind \<Rightarrow> security_metric lane_kind \<Rightarrow> oid \<Rightarrow> oid \<Rightarrow> 'r redis_handler
   \<Rightarrow> (security_event, security_metric, 'r) handler \<Rightarrow> (exn + unit) \<times> (security_event, security_metric, 'r) handler" where
  "handler_initialize_redis KE KM i j R h =
     (case initialize_redis KE KM i j R (cl_buffer (hn_client h)) of
        (res, b) \<Rightarrow> (res, h\<lparr>hn_redis := Some R, hn_client := (hn_client h)\<lparr>cl_buffer := b\<rparr>\<rparr>))"

section \<open>What a flush leaves alone\<close>

text \<open>The attributes of the buffer's own automatic flush.\<close>

definition auto_flush_view :: "('e, 'm, 'r) client \<Rightarrow> bool \<times> bool option \<times> nat option \<times> nat" where
  "auto_flush_view cl = (let B = fst (cl_buffer cl) in (bf_running B, bf_flush_task B, bf_semaphore B, bf_inflight B))"

lemma event_ops_view:
  "fo_drain event_flush_ops now cl = (xs, ks, cl') \<Longrightarrow> auto_flush_view cl' = auto_flush_view cl"
  "fo_confirm event_flush_ops ks cl = (r, cl') \<Longrightarrow> auto_flush_view cl' = auto_flush_view cl"
  "fo_requeue event_flush_ops xs ks cl = (res, cl') \<Longrightarrow> auto_flush_view cl' = auto_flush_view cl"
  "auto_flush_view (fo_set_stats event_flush_ops st cl) = auto_flush_view cl"
  by (auto simp: event_flush_ops_def auto_flush_view_def flush_events_with_keys_def confirm_event_redis_keys_def
      requeue_events_in_memory_def split: prod.splits)

lemma metric_ops_view:
  "fo_drain metric_flush_ops now cl = (xs, ks, cl') \<Longrightarrow> auto_flush_view cl' = auto_flush_view cl"
  "fo_confirm metric_flush_ops ks cl = (r, cl') \<Longrightarrow> auto_flush_view cl' = auto_flush_view cl"
  "fo_requeue metric_flush_ops xs ks cl = (res, cl') \<Longrightarrow> auto_flush_view cl' = auto_flush_view cl"
  "auto_flush_view (fo_set_stats metric_flush_ops st cl) = auto_flush_view cl"
  by (auto simp: metric_flush_ops_def auto_flush_view_def flush_metrics_with_keys_def confirm_metric_redis_keys_def
      requeue_metrics_in_memory_def split: prod.splits)

lemma flush_buffer_view:
  assumes "\<And>cl. auto_flush_view (o1 cl) = auto_flush_view cl" "\<And>cl. auto_flush_view (o2 cl) = auto_flush_view cl"
    and "flush_buffer K env w clock o1 o2 cl s = (res, cl', s', calls)"
  shows "auto_flush_view cl' = auto_flush_view cl"
proof -
  have ev: "flush_lane event_flush_ops c now now' send o1 cl s = (r, cl2, s2, calls2) \<Longrightarrow> auto_flush_view cl2 = auto_flush_view cl"
    for c now now' send cl s r cl2 s2 calls2
    by (erule flush_lane_view [where V = auto_flush_view, rotated 5]) (fact event_ops_view assms(1))+
  have mt: "flush_lane metric_flush_ops c now now' send o2 cl s = (r, cl2, s2, calls2) \<Longrightarrow> auto_flush_view cl2 = auto_flush_view cl"
    for c now now' send cl s r cl2 s2 calls2
    by (erule flush_lane_view [where V = auto_flush_view, rotated 5]) (fact metric_ops_view assms(2))+
  from assms(3) show ?thesis
    by (auto simp: flush_buffer_def split: sum.splits prod.splits if_splits dest!: ev mt)
qed

section \<open>Stopping\<close>

text \<open>No loop runs; and nothing runs: no task of the handler or the buffer is pending, no flush can begin.\<close>

definition task_over :: "bool option \<Rightarrow> bool" where
  "task_over t \<longleftrightarrow> t \<noteq> Some False"

definition loops_over :: "('e, 'm, 'r) handler \<Rightarrow> bool" where
  "loops_over h \<longleftrightarrow> \<not> hn_running h \<and> task_over (hn_flush_task h) \<and> task_over (hn_status_task h) \<and> task_over (hn_rules_task h)
     \<and> \<not> bf_running (hn_buffer h) \<and> task_over (bf_flush_task (hn_buffer h))"

definition quiet :: "('e, 'm, 'r) handler \<Rightarrow> bool" where
  "quiet h \<longleftrightarrow> loops_over h \<and> bf_semaphore (hn_buffer h) = None \<and> bf_inflight (hn_buffer h) = 0"

text \<open>Other tasks may add items and change counters during a stop; they do not start the agent again.\<close>

definition calm :: "'r stop_env \<Rightarrow> bool" where
  "calm E \<longleftrightarrow> (\<forall>h. hn_running (se_tasks E h) = hn_running h)
     \<and> (\<forall>cl. auto_flush_view (se_events E cl) = auto_flush_view cl \<and> auto_flush_view (se_metrics E cl) = auto_flush_view cl)"

lemma task_over_end_task [simp]: "task_over (end_task t)"
  by (cases t) (simp_all add: task_over_def end_task_def)

lemma update_buffer_simps [simp]:
  "hn_buffer (update_buffer f h) = f (hn_buffer h)" "hn_running (update_buffer f h) = hn_running h"
  "hn_flush_task (update_buffer f h) = hn_flush_task h" "hn_status_task (update_buffer f h) = hn_status_task h"
  "hn_rules_task (update_buffer f h) = hn_rules_task h" "hn_config (update_buffer f h) = hn_config h"
  by (simp_all add: update_buffer_def hn_buffer_def hn_config_def split: prod.split)

lemma stopped_quiet:
  "\<not> hn_running h \<Longrightarrow> quiet (update_buffer stop_auto_flush (end_tasks h))"
  by (simp add: quiet_def loops_over_def end_tasks_def stop_auto_flush_def task_over_end_task [unfolded end_task_def])

lemma interrupted_loops_over: "\<not> hn_running h \<Longrightarrow> loops_over (update_buffer end_flush_loop (end_tasks h))"
  by (simp add: loops_over_def end_tasks_def end_flush_loop_def)

lemma quiet_client:
  "quiet h \<Longrightarrow> auto_flush_view cl = auto_flush_view (hn_client h) \<Longrightarrow> quiet (h\<lparr>hn_client := cl\<rparr>)"
  by (simp add: quiet_def loops_over_def hn_buffer_def auto_flush_view_def Let_def)

lemma flush_buffer_result:
  "flush_buffer K env w clock o1 o2 cl s = (res, cl', s', calls) \<Longrightarrow> res = Inr () \<or> res = Inl CancelledError"
  by (cases res) (auto dest!: flush_buffer_error simp: not_catchable)

lemma stop_agent_quiet:
  assumes calm: "calm E" and stop: "stop_agent K env w E (h, s) = (res, h', s')"
  shows "loops_over h'" "res = Inr () \<or> res = Inl CancelledError"
    "res = Inr () \<Longrightarrow> quiet h' \<and> tp_client (rn_transport s') \<noteq> Some False"
proof -
  define h0 where "h0 = end_tasks (se_tasks E (h\<lparr>hn_running := False\<rparr>))"
  define h1 where "h1 = update_buffer stop_auto_flush h0"
  have running: "\<not> hn_running (se_tasks E (h\<lparr>hn_running := False\<rparr>))" using calm by (simp add: calm_def)
  have *: "loops_over h' \<and> (res = Inr () \<or> res = Inl CancelledError)
     \<and> (res = Inr () \<longrightarrow> quiet h' \<and> tp_client (rn_transport s') \<noteq> Some False)"
  proof (cases "se_gather E \<and> bf_inflight (hn_buffer h0) \<noteq> 0")
    case True
    with stop interrupted_loops_over [OF running] show ?thesis
      by (auto simp: stop_agent_def Let_def h0_def)
  next
    case False
    obtain res1 cl s1 calls where f: "flush_buffer K env w (se_clock E) (se_events E) (se_metrics E) (hn_client h1) s
        = (res1, cl, s1, calls)"
      by (metis prod_cases4)
    have "auto_flush_view cl = auto_flush_view (hn_client h1)"
      by (rule flush_buffer_view [OF _ _ f]) (use calm in \<open>simp_all add: calm_def\<close>)
    with stopped_quiet [OF running] have "quiet (h1\<lparr>hn_client := cl\<rparr>)"
      unfolding h1_def h0_def by (rule quiet_client)
    moreover have "h' = h1\<lparr>hn_client := cl\<rparr>" "res = res1"
        "res1 = Inr () \<Longrightarrow> s' = s1\<lparr>rn_transport := close_client (rn_transport s1)\<rparr>"
      using stop f False unfolding h0_def h1_def by (auto simp: stop_agent_def Let_def split: sum.splits)
    ultimately show ?thesis using flush_buffer_result [OF f] by (auto simp: quiet_def close_client_def)
  qed
  then show "loops_over h'" "res = Inr () \<or> res = Inl CancelledError"
    "res = Inr () \<Longrightarrow> quiet h' \<and> tp_client (rn_transport s') \<noteq> Some False" by blast+
qed



text \<open>
  A stop during the backoff sends nothing. When the last flushes of both lanes failed and their
  retry times have not come, the last flush of \<open>stop\<close> makes no request and leaves both queues as
  they are: what is buffered stays behind in memory.
\<close>

theorem stop_in_backoff_sends_nothing:
  assumes "stop_agent K env w E (h, s) = (res, h', s')"
    and "se_clock E ! 0 < ls_retry_after (cl_events (hn_client (se_tasks E (h\<lparr>hn_running := False\<rparr>))))"
    and "se_clock E ! 2 < ls_retry_after (cl_metrics (hn_client (se_tasks E (h\<lparr>hn_running := False\<rparr>))))"
    and "\<not> se_gather E"
  shows "res = Inr () \<and> rn_trace s' = rn_trace s
    \<and> event_queue (hn_client h') = event_queue (hn_client (se_tasks E (h\<lparr>hn_running := False\<rparr>)))
    \<and> metric_queue (hn_client h') = metric_queue (hn_client (se_tasks E (h\<lparr>hn_running := False\<rparr>)))"
proof -
  let ?h0 = "se_tasks E (h\<lparr>hn_running := False\<rparr>)"
  define h1 where "h1 = update_buffer stop_auto_flush (end_tasks ?h0)"
  have h1: "cl_events (hn_client h1) = cl_events (hn_client ?h0)" "cl_metrics (hn_client h1) = cl_metrics (hn_client ?h0)"
      "event_queue (hn_client h1) = event_queue (hn_client ?h0)" "metric_queue (hn_client h1) = metric_queue (hn_client ?h0)"
    by (simp_all add: h1_def update_buffer_def end_tasks_def event_queue_def metric_queue_def stop_auto_flush_def
        split: prod.split)
  have "flush_lane event_flush_ops c (se_clock E ! 0) t send o1 (hn_client h1) s = (Inr (), hn_client h1, s, [])"
      "flush_lane metric_flush_ops c (se_clock E ! 2) t send' o2 (hn_client h1) s = (Inr (), hn_client h1, s, [])"
    for c t send send' o1 o2
    using assms(2,3) h1 by (simp_all add: flush_lane_def flush_begin_def event_flush_ops_def metric_flush_ops_def)
  then have "flush_buffer K env w (se_clock E) (se_events E) (se_metrics E) (hn_client h1) s
      = (Inr (), hn_client h1, s, [])"
    by (simp add: flush_buffer_def)
  with assms(1,4) h1 show ?thesis by (auto simp: stop_agent_def Let_def h1_def [symmetric])
qed

section \<open>One handler per process\<close>

text \<open>
  Constructing a handler. In the process that owns an initialized instance, construction returns
  that instance with only the handler's configuration replaced: its buffer and its transport go on
  with the old one. In any other case (none yet, not initialized, or inherited from a parent process)
  a construction that returns leaves an instance of this process with a new handler, an empty buffer
  and a new transport.
\<close>

definition owned :: "int \<Rightarrow> 'r agent_class \<Rightarrow> bool" where
  "owned pid cls \<longleftrightarrow> (\<exists>x. ac_instance cls = Some x \<and> in_initialized x \<and> in_owner_pid x = pid)"

theorem construction_is_per_process:
  assumes "construct_handler C c pid now install_id nonce r cls = (Inr (), cls')"
  shows "if owned pid cls
    then \<exists>x. ac_instance cls = Some x \<and> ac_instance cls' = Some (x\<lparr>in_agent := map_option
           (\<lambda>a. a\<lparr>an_handler := (an_handler a)\<lparr>hn_client := (hn_client (an_handler a))\<lparr>cl_config := c\<rparr>\<rparr>\<rparr>) (in_agent x)\<rparr>)
    else \<exists>env tp. transport_init C c install_id pid nonce = Inr (env, tp) \<and> ac_instance cls' = Some
           \<lparr>in_initialized = True, in_owner_pid = pid,
            in_agent = Some \<lparr>an_handler = new_handler c now r, an_env = env, an_transport = tp\<rparr>\<rparr>"
proof (cases "ac_instance cls")
  case None
  with assms show ?thesis
    by (auto simp: construct_handler_def handler_new_def handler_init_def owned_def split: if_splits sum.splits)
next
  case (Some x)
  show ?thesis
  proof (cases "in_owner_pid x = pid \<and> in_initialized x")
    case True
    with Some assms show ?thesis by (auto simp: construct_handler_def handler_new_def handler_init_def owned_def)
  next
    case False
    with Some have "\<not> owned pid cls" by (auto simp: owned_def)
    moreover obtain y where "ac_instance (handler_new pid cls) = Some y" "\<not> in_initialized y" "in_owner_pid y = pid"
      using Some False
      by (cases "in_owner_pid x = pid") (auto simp: handler_new_def disown_def)
    ultimately show ?thesis
      using assms by (cases y) (auto simp: construct_handler_def handler_init_def split: if_splits sum.splits)
  qed
qed

text \<open>
  The fork hook does not make \<open>start\<close> work on an inherited handler. The hook clears the tasks and
  the initialized flag of the instance, and not \<open>_running\<close>: in the child of a process whose agent was
  running, \<open>start\<close> on the handler is a silent no-op that leaves it without any task, and only a new
  construction helps.
\<close>

theorem forked_start_is_refused:
  assumes "ac_instance cls = Some x" and "in_agent x = Some a" and "hn_running (an_handler a)"
  shows "\<exists>y b. ac_instance (handler_reset_after_fork pid cls) = Some y \<and> in_agent y = Some b
    \<and> hn_flush_task (an_handler b) = None \<and> hn_status_task (an_handler b) = None \<and> hn_rules_task (an_handler b) = None
    \<and> (\<forall>K env w E s. start_agent K env w E (an_handler b, s) = (Inr (), an_handler b, s))"
  using assms by (simp add: handler_reset_after_fork_def disown_def no_tasks_def start_agent_def)

section \<open>Concrete agents\<close>

definition idle_env :: "time \<Rightarrow> 'r stop_env" where
  "idle_env t = \<lparr>se_tasks = (\<lambda>h. h), se_events = (\<lambda>cl. cl), se_metrics = (\<lambda>cl. cl), se_clock = [t, t, t, t], se_gather = False\<rparr>"

lemma idle_env_calm: "calm (idle_env t)"
  by (simp add: calm_def idle_env_def)

definition sample_config :: agent_config where
  "sample_config = default_config ''0123456789''"

definition sample_class :: "unit agent_class" where
  "sample_class = \<lparr>ac_instance = Some \<lparr>in_initialized = True, in_owner_pid = 3, in_agent = Some
     \<lparr>an_handler = sample_handler, an_env = sample_env, an_transport = rn_transport sample_run\<rparr>\<rparr>,
     ac_fork_hook_registered = True\<rparr>"

text \<open>A handler in the backoff of both lanes.\<close>

definition backing_off :: "(security_event, security_metric, unit) handler" where
  "backing_off = sample_handler\<lparr>hn_client := (hn_client sample_handler)
     \<lparr>cl_events := lane_stats_init\<lparr>ls_retry_after := 700\<rparr>, cl_metrics := lane_stats_init\<lparr>ls_retry_after := 700\<rparr>\<rparr>\<rparr>"



theorem stop_in_backoff_sends_nothing_witness:
  "\<exists>h' s'. stop_agent sample_kit sample_env (sample_world NetTimeout) (idle_env 500) (backing_off, sample_run) = (Inr (), h', s')
     \<and> event_queue (hn_client h') = [(1, new_event ''k'' ''t'' ''e'')] \<and> rn_trace s' = []"
proof -
  obtain res h' s' where s: "stop_agent sample_kit sample_env (sample_world NetTimeout) (idle_env 500)
      (backing_off, sample_run) = (res, h', s')"
    by (metis prod_cases3)
  from stop_in_backoff_sends_nothing [OF s] s show ?thesis
    by (simp add: idle_env_def backing_off_def sample_handler_def sample_run_def event_queue_def sample_client_def)
qed

theorem construction_is_per_process_witness:
  "\<exists>cls' x a. construct_handler sample_crypt sample_config 7 900 ''i'' [] () sample_class = (Inr (), cls')
     \<and> ac_instance cls' = Some x \<and> in_agent x = Some a \<and> an_handler a = new_handler sample_config 900 ()"
proof -
  obtain cls' where c: "construct_handler sample_crypt sample_config 7 900 ''i'' [] () sample_class = (Inr (), cls')"
    by (simp add: construct_handler_def handler_new_def sample_class_def disown_def handler_init_def sample_config_def
        validate_config_def transport_init_def init_encryption_def default_config_def starts_with_def)
  from construction_is_per_process [OF c] c show ?thesis
    by (auto simp: owned_def sample_class_def)
qed

theorem forked_start_is_refused_witness:
  "\<exists>y b. ac_instance (handler_reset_after_fork 7 sample_class) = Some y \<and> in_agent y = Some b
     \<and> hn_running (an_handler b) \<and> hn_flush_task (an_handler b) = None"
proof -
  have "ac_instance sample_class = Some \<lparr>in_initialized = True, in_owner_pid = 3, in_agent = Some
     \<lparr>an_handler = sample_handler, an_env = sample_env, an_transport = rn_transport sample_run\<rparr>\<rparr>"
    by (simp add: sample_class_def)
  from forked_start_is_refused [OF this] show ?thesis
    by (simp add: handler_reset_after_fork_def sample_class_def disown_def no_tasks_def sample_handler_def)
qed

end
