(* ===== verification/SyncHandler.thy ===== *)
theory SyncHandler
  imports Lifecycle ClientIngest
begin

text \<open>
  \<open>SyncGuardAgentHandler\<close> and the factory \<open>guard_agent\<close> (\<open>client.py\<close>): the synchronous wrapper
  that runs the coroutines of the handler on an event loop in a thread of its own.
\<close>

section \<open>The wrapper\<close>

text \<open>
  The wrapper's loop: the process its thread was started in, and whether the loop still runs;
  \<open>None\<close> before \<open>__init__\<close> has created it. The inner handler is the instance of \<open>agent_class\<close>.
\<close>

record sync_handler =
  sn_loop :: "(int \<times> bool) option"

record 'r sync_classes =
  sc_sync :: "sync_handler option"
  sc_agent :: "'r agent_class"

text \<open>The thread that runs the loop exists in the process that started it, and in no forked child.\<close>

definition loop_alive :: "int \<Rightarrow> sync_handler \<Rightarrow> bool" where
  "loop_alive pid sh \<longleftrightarrow> sn_loop sh = Some (pid, True)"

text \<open>
  \<open>_run\<close>: the coroutine is handed to the loop, and \<open>future.result()\<close> waits for its end without a
  time limit. When no thread runs the loop it waits forever: the call does not return.
\<close>

definition run_sync :: "int \<Rightarrow> sync_handler \<Rightarrow> ('s \<Rightarrow> 'a \<times> 's) \<Rightarrow> 's \<Rightarrow> ('a \<times> 's) option" where
  "run_sync pid sh coro s = (if loop_alive pid sh then Some (coro s) else None)"

definition construct_sync :: "crypt \<Rightarrow> agent_config \<Rightarrow> int \<Rightarrow> time \<Rightarrow> string \<Rightarrow> string \<Rightarrow> 'r \<Rightarrow> 'r sync_classes
   \<Rightarrow> (exn + unit) \<times> 'r sync_classes" where
  "construct_sync C c pid now install_id nonce r cls =
     (let sh = (case sc_sync cls of None \<Rightarrow> \<lparr>sn_loop = None\<rparr> | Some sh \<Rightarrow> sh); cls1 = cls\<lparr>sc_sync := Some sh\<rparr>
      in if sn_loop sh \<noteq> None then (Inr (), cls1)
         else (case construct_handler C c pid now install_id nonce r (sc_agent cls) of
             (Inl e, a) \<Rightarrow> (Inl e, cls1\<lparr>sc_agent := a\<rparr>)
           | (Inr _, a) \<Rightarrow> (Inr (), cls1\<lparr>sc_agent := a, sc_sync := Some (sh\<lparr>sn_loop := Some (pid, True)\<rparr>)\<rparr>)))"

text \<open>
  \<open>guard_agent(config)\<close>: the handler inside a running event loop, else the wrapper. The lookup of the
  loop and the construction stand in one \<open>try\<close> with \<open>except RuntimeError\<close>, and an
  \<open>EncryptionConfigError\<close> is a \<open>RuntimeError\<close>: when the construction raises one, the wrapper is
  constructed too. Each construction draws a nonce of its own.
\<close>

datatype agent_kind = AsyncAgent | SyncAgent

fun is_runtime_error :: "exn \<Rightarrow> bool" where
  "is_runtime_error (EncryptionConfigError _) = True"
| "is_runtime_error _ = False"

definition guard_agent :: "bool \<Rightarrow> crypt \<Rightarrow> agent_config \<Rightarrow> int \<Rightarrow> time \<Rightarrow> string \<Rightarrow> string \<times> string \<Rightarrow> 'r \<Rightarrow> 'r sync_classes
   \<Rightarrow> (exn + agent_kind) \<times> 'r sync_classes" where
  "guard_agent in_loop C c pid now install_id nonces r cls =
     (let otherwise = (\<lambda>cls. case construct_sync C c pid now install_id (snd nonces) r cls of
            (res, cls') \<Rightarrow> (map_sum id (\<lambda>_. SyncAgent) res, cls'))
      in if in_loop then
           (case construct_handler C c pid now install_id (fst nonces) r (sc_agent cls) of
              (Inr _, a) \<Rightarrow> (Inr AsyncAgent, cls\<lparr>sc_agent := a\<rparr>)
            | (Inl e, a) \<Rightarrow> if is_runtime_error e then otherwise (cls\<lparr>sc_agent := a\<rparr>)
                           else (Inl e, cls\<lparr>sc_agent := a\<rparr>))
         else otherwise cls)"

section \<open>Its operations\<close>

definition sync_initialize_redis :: "int \<Rightarrow> sync_handler \<Rightarrow> security_event lane_kind \<Rightarrow> security_metric lane_kind \<Rightarrow> oid \<Rightarrow> oid
   \<Rightarrow> 'r redis_handler \<Rightarrow> (security_event, security_metric, 'r) handler
   \<Rightarrow> ((exn + unit) \<times> (security_event, security_metric, 'r) handler) option" where
  "sync_initialize_redis pid sh KE KM i j R = run_sync pid sh (handler_initialize_redis KE KM i j R)"

definition sync_start :: "int \<Rightarrow> sync_handler \<Rightarrow> kit \<Rightarrow> agent_env \<Rightarrow> world \<Rightarrow> 'r stop_env
   \<Rightarrow> (security_event, security_metric, 'r) agent_state
   \<Rightarrow> ((exn + unit) \<times> (security_event, security_metric, 'r) agent_state) option" where
  "sync_start pid sh K env w E = run_sync pid sh (start_agent K env w E)"

text \<open>After the inner stop the loop is stopped; an exception of the inner stop leaves it running.\<close>

definition sync_stop :: "int \<Rightarrow> sync_handler \<Rightarrow> kit \<Rightarrow> agent_env \<Rightarrow> world \<Rightarrow> 'r stop_env
   \<Rightarrow> (security_event, security_metric, 'r) agent_state
   \<Rightarrow> ((exn + unit) \<times> sync_handler \<times> (security_event, security_metric, 'r) agent_state) option" where
  "sync_stop pid sh K env w E hs =
     map_option (\<lambda>(res, hs'). (res, if res = Inr () then sh\<lparr>sn_loop := map_option (\<lambda>(p, b). (p, False)) (sn_loop sh)\<rparr>
                                   else sh, hs'))
       (run_sync pid sh (stop_agent K env w E) hs)"

definition sync_send_event ::
  "int \<Rightarrow> sync_handler \<Rightarrow> codec \<Rightarrow> (pydict \<Rightarrow> exn + security_event) \<Rightarrow> agent_config \<Rightarrow> nat
   \<Rightarrow> (nat \<Rightarrow> (security_event, 'm, 'r) buffer_state \<Rightarrow> (security_event, 'm, 'r) buffer_state option)
   \<Rightarrow> security_event lane_kind \<Rightarrow> string \<Rightarrow> oid \<Rightarrow> security_event given \<Rightarrow> (security_event, 'm, 'r) buffer_state
   \<Rightarrow> ((exn + unit) \<times> (security_event, 'm, 'r) buffer_state) option" where
  "sync_send_event pid sh C build c fuel env K key i event s =
     (if loop_alive pid sh then send_event C build c fuel env K key i event s else None)"

definition sync_send_metric ::
  "int \<Rightarrow> sync_handler \<Rightarrow> codec \<Rightarrow> (pydict \<Rightarrow> exn + security_metric) \<Rightarrow> agent_config \<Rightarrow> nat
   \<Rightarrow> (nat \<Rightarrow> ('e, security_metric, 'r) buffer_state \<Rightarrow> ('e, security_metric, 'r) buffer_state option)
   \<Rightarrow> security_metric lane_kind \<Rightarrow> string \<Rightarrow> oid \<Rightarrow> security_metric given \<Rightarrow> ('e, security_metric, 'r) buffer_state
   \<Rightarrow> ((exn + unit) \<times> ('e, security_metric, 'r) buffer_state) option" where
  "sync_send_metric pid sh C build c fuel env K key i metric s =
     (if loop_alive pid sh then send_metric C build c fuel env K key i metric s else None)"

definition sync_flush_buffer :: "int \<Rightarrow> sync_handler \<Rightarrow> kit \<Rightarrow> agent_env \<Rightarrow> world \<Rightarrow> 'r stop_env
   \<Rightarrow> (security_event, security_metric, 'r) agent_state
   \<Rightarrow> ((exn + unit) \<times> (security_event, security_metric, 'r) agent_state) option" where
  "sync_flush_buffer pid sh K env w E = run_sync pid sh (\<lambda>(h, s).
     case flush_buffer K env w (se_clock E) (se_events E) (se_metrics E) (hn_client h) s of
       (res, cl, s', calls) \<Rightarrow> (res, h\<lparr>hn_client := cl\<rparr>, s'))"

definition sync_get_dynamic_rules :: "int \<Rightarrow> sync_handler \<Rightarrow> kit \<Rightarrow> agent_env \<Rightarrow> world \<Rightarrow> time
   \<Rightarrow> (('e, 'm, 'r) handler \<Rightarrow> ('e, 'm, 'r) handler) \<Rightarrow> ('e, 'm, 'r) agent_state
   \<Rightarrow> ((exn + dynamic_rules option) \<times> ('e, 'm, 'r) agent_state) option" where
  "sync_get_dynamic_rules pid sh K env w now others =
     run_sync pid sh (\<lambda>(h, s). get_dynamic_rules K env w now others h s)"

definition sync_health_check :: "int \<Rightarrow> sync_handler \<Rightarrow> ('e, 'm, 'r) agent_state \<Rightarrow> (bool \<times> ('e, 'm, 'r) agent_state) option" where
  "sync_health_check pid sh = run_sync pid sh (\<lambda>(h, s). (health_check h (rn_transport s), h, s))"

text \<open>\<open>get_stats\<close> asks the inner handler without the loop: it answers in every state of the wrapper.\<close>

definition sync_get_stats :: "time \<Rightarrow> ('e, 'm, 'r) handler \<Rightarrow> transport \<Rightarrow> agent_stats" where
  "sync_get_stats now h tp = get_agent_stats now h tp"

section \<open>Liveness\<close>


definition sample_sync_class :: "unit sync_classes" where
  "sample_sync_class = \<lparr>sc_sync = Some \<lparr>sn_loop = Some (3, True)\<rparr>, sc_agent = sample_class\<rparr>"


end
