(* ===== verification/Host.thy ===== *)
theory Host
  imports PyVal
begin

text \<open>
  What the agent asks of its host: the installation id kept in the home directory
  (\<open>install_id.py\<close>), the logger it configures (\<open>logging_utils.py\<close>), three helpers of
  \<open>utils.py\<close>, the message for unsent items, and the muting of pydantic's plugins on import
  (\<open>__init__.py\<close>). Files, the clock, random ids and SHA-256 are arguments.
\<close>

section \<open>The installation id\<close>

text \<open>
  The file system as far as this file is concerned: its text and what fails. An operation that
  fails raises \<open>OSError\<close>; text that is not UTF-8 raises a \<open>ValueError\<close>, which is no \<open>OSError\<close>.
\<close>

record id_file =
  if_text :: "string option"
  if_read_error :: "exn option"
  if_mkdir_error :: "exn option"
  if_write_error :: "exn option"

definition os_error :: exn where
  "os_error = PlainException ''OSError''"

text \<open>\<open>_read_install_id\<close>: an \<open>OSError\<close> is logged and counts as no file.\<close>

definition read_install_id :: "id_file \<Rightarrow> exn + string option" where
  "read_install_id f =
     (case if_text f of None \<Rightarrow> Inr None
      | Some text \<Rightarrow>
          (case if_read_error f of None \<Rightarrow> Inr (Some (strip text))
           | Some e \<Rightarrow> if e = os_error then Inr None else Inl e))"

text \<open>\<open>_write_install_id\<close>: only the write is guarded, making the directory is not.\<close>

definition write_install_id :: "string \<Rightarrow> id_file \<Rightarrow> (exn + unit) \<times> id_file" where
  "write_install_id install_id f =
     (case if_mkdir_error f of Some e \<Rightarrow> (Inl e, f)
      | None \<Rightarrow>
          (case if_write_error f of
             Some e \<Rightarrow> (if e = os_error then Inr () else Inl e, f)
           | None \<Rightarrow> (Inr (), f\<lparr>if_text := Some install_id\<rparr>)))"

definition resolve_from_file :: "string \<Rightarrow> id_file \<Rightarrow> (exn + string) \<times> id_file" where
  "resolve_from_file uuid f =
     (case read_install_id f of
        Inl e \<Rightarrow> (Inl e, f)
      | Inr existing \<Rightarrow>
          (if existing \<noteq> None \<and> existing \<noteq> Some [] then (Inr (the existing), f)
           else case write_install_id uuid f of
             (Inl e, f') \<Rightarrow> (Inl e, f')
           | (Inr _, f') \<Rightarrow> (Inr uuid, f')))"

definition resolve_install_id :: "string option \<Rightarrow> string \<Rightarrow> id_file \<Rightarrow> (exn + string) \<times> id_file" where
  "resolve_install_id override uuid f =
     (if override \<noteq> None \<and> override \<noteq> Some [] then (Inr (the override), f) else resolve_from_file uuid f)"

text \<open>
  The installation id is stable. When the file can be read and written, the first start makes an
  id or takes the one that is there, and every later start gets the same, whatever fresh id it would
  have drawn; and a configured id wins without touching the file.
\<close>

theorem install_id_is_stable:
  assumes "if_read_error f = None" "if_mkdir_error f = None" "if_write_error f = None"
    and "strip uuid = uuid" "uuid \<noteq> []"
  shows "\<exists>i f'. resolve_install_id None uuid f = (Inr i, f') \<and> i \<noteq> []
    \<and> (\<forall>uuid2. resolve_install_id None uuid2 f' = (Inr i, f'))
    \<and> (\<forall>o' uuid2. o' \<noteq> [] \<longrightarrow> resolve_install_id (Some o') uuid2 f' = (Inr o', f'))"
proof (cases "\<exists>text. if_text f = Some text \<and> strip text \<noteq> []")
  case True
  then show ?thesis
    using assms(1) by (auto simp: resolve_install_id_def resolve_from_file_def read_install_id_def)
next
  case False
  with assms show ?thesis
    by (auto simp: resolve_install_id_def resolve_from_file_def read_install_id_def write_install_id_def
        split: option.splits)
qed

theorem install_id_is_stable_witness:
  "\<exists>i f'. resolve_install_id None ''4f1c'' \<lparr>if_text = None, if_read_error = None, if_mkdir_error = None, if_write_error = None\<rparr>
     = (Inr i, f') \<and> resolve_install_id None ''99aa'' f' = (Inr i, f')"
proof -
  have "strip ''4f1c'' = ''4f1c''" by (simp add: string_eval)
  with install_id_is_stable [of "\<lparr>if_text = None, if_read_error = None, if_mkdir_error = None, if_write_error = None\<rparr>" "''4f1c''"]
  show ?thesis by auto
qed

text \<open>
  A file that cannot be written costs the stability only, but a home directory in which the
  directory cannot be made raises out of the construction of the transport.
\<close>

lemma unwritable_file_tolerated:
  "if_text f = None \<Longrightarrow> if_mkdir_error f = None \<Longrightarrow> if_write_error f = Some os_error \<Longrightarrow>
   resolve_install_id None uuid f = (Inr uuid, f)"
  by (simp add: resolve_install_id_def resolve_from_file_def read_install_id_def write_install_id_def)

lemma unwritable_home_raises:
  "if_text f = None \<Longrightarrow> if_mkdir_error f = Some e \<Longrightarrow> resolve_install_id None uuid f = (Inl e, f)"
  by (simp add: resolve_install_id_def resolve_from_file_def read_install_id_def write_install_id_def)

section \<open>Logging\<close>

datatype formatter = JsonFormatter | TextFormatter

datatype log_handler = Console formatter | LogFile string formatter | HostHandler string

record logger =
  lr_handlers :: "log_handler list"
  lr_level :: nat
  lr_warnings :: "string list"

definition create_formatter :: "string \<Rightarrow> formatter" where
  "create_formatter log_format = (if log_format = ''json'' then JsonFormatter else TextFormatter)"

text \<open>
  \<open>JsonFormatter.format\<close>: the entries of the record that is encoded, in order; the JSON encoder and
  the formatting of the time are parameters of its caller.
\<close>

definition json_log_entry :: "string \<Rightarrow> string \<Rightarrow> string \<Rightarrow> string \<Rightarrow> pydict" where
  "json_log_entry timestamp level name message =
     [(PStr ''timestamp'', PStr timestamp), (PStr ''level'', PStr level),
      (PStr ''logger'', PStr name), (PStr ''message'', PStr message)]"

text \<open>\<open>_YieldToHostRootHandlers\<close>: the console is silent when the host has handlers on the root logger.\<close>

definition console_passes :: "log_handler list \<Rightarrow> bool" where
  "console_passes root_handlers \<longleftrightarrow> root_handlers = []"

definition logger_is_configured :: "logger \<Rightarrow> bool" where
  "logger_is_configured L \<longleftrightarrow> lr_handlers L \<noteq> []"

text \<open>Making the directory and opening the file is an argument; any ordinary failure is a warning.\<close>

definition attach_handlers ::
  "(string \<Rightarrow> exn + unit) \<Rightarrow> string option \<Rightarrow> string \<Rightarrow> logger \<Rightarrow> (exn + unit) \<times> logger" where
  "attach_handlers open_log log_file log_format L =
     (let fm = create_formatter log_format;
          L1 = L\<lparr>lr_handlers := lr_handlers L @ [Console fm]\<rparr>
      in case log_file of None \<Rightarrow> (Inr (), L1)
         | Some path \<Rightarrow>
             if path = [] then (Inr (), L1)
             else (case open_log path of
                Inr _ \<Rightarrow> (Inr (), L1\<lparr>lr_handlers := lr_handlers L1 @ [LogFile path fm]\<rparr>)
              | Inl e \<Rightarrow> if catchable e
                  then (Inr (), L1\<lparr>lr_warnings := lr_warnings L1 @ [''Failed to create log file '' @ path]\<rparr>)
                  else (Inl e, L1)))"

abbreviation INFO :: nat where "INFO \<equiv> 20"

definition setup_agent_logging ::
  "(string \<Rightarrow> exn + unit) \<Rightarrow> string option \<Rightarrow> string \<Rightarrow> bool \<Rightarrow> logger \<Rightarrow> (exn + unit) \<times> logger" where
  "setup_agent_logging open_log log_file log_format reconfigure L =
     (if \<not> reconfigure then
        (if logger_is_configured L then (Inr (), L)
         else attach_handlers open_log log_file log_format
           (if lr_level L = 0 then L\<lparr>lr_level := INFO\<rparr> else L))
      else attach_handlers open_log log_file log_format (L\<lparr>lr_handlers := [], lr_level := INFO\<rparr>))"

text \<open>
  Setting up twice is setting up once, up to repeated warnings; a host that configured the logger
  and asks for no reconfiguration keeps it as it is.
\<close>

lemma logging_setup_idempotent:
  assumes "setup_agent_logging open_log file fmt True L = (Inr (), L1)"
  shows "\<exists>L2. setup_agent_logging open_log file fmt rec L1 = (Inr (), L2)
    \<and> lr_handlers L2 = lr_handlers L1 \<and> lr_level L2 = INFO \<and> lr_handlers L1 \<noteq> []
    \<and> length (lr_handlers L1) \<le> 2"
  using assms
  by (auto simp: setup_agent_logging_def attach_handlers_def logger_is_configured_def Let_def
      split: option.splits sum.splits if_splits)

lemma logging_respects_host:
  "lr_handlers L \<noteq> [] \<Longrightarrow> setup_agent_logging open_log file fmt False L = (Inr (), L)"
  by (simp add: setup_agent_logging_def logger_is_configured_def)

section \<open>Helpers\<close>

text \<open>\<open>generate_batch_id\<close>, from the time in milliseconds and a random UUID in hex.\<close>

definition generate_batch_id :: "int \<Rightarrow> string \<Rightarrow> string" where
  "generate_batch_id millis uuid_hex = show_int millis @ ''-'' @ take 8 uuid_hex"

text \<open>Two ids with different random parts differ, whatever the clock does.\<close>

lemma batch_ids_differ:
  assumes "CHR ''-'' \<notin> set u" "CHR ''-'' \<notin> set u'" "take 8 u \<noteq> take 8 u'"
  shows "generate_batch_id t u \<noteq> generate_batch_id t' u'"
proof -
  have "after_last (CHR ''-'') (generate_batch_id t u) = take 8 u" if "CHR ''-'' \<notin> set u" for t u
  proof -
    have "CHR ''-'' \<notin> set (take 8 u)" using that in_set_takeD by metis
    from after_last_append [OF this, of "show_int t"] show ?thesis by (simp add: generate_batch_id_def)
  qed
  with assms show ?thesis by metis
qed

definition hash_ip :: "(string \<Rightarrow> string) \<Rightarrow> string \<Rightarrow> string \<Rightarrow> string" where
  "hash_ip sha256_hex ip salt = take 16 (sha256_hex (ip @ salt))"

text \<open>\<open>safe_json_deserialize\<close>: the JSON decoder is an argument; a \<open>JSONDecodeError\<close> is a \<open>ValueError\<close>.\<close>

definition safe_json_deserialize :: "(string \<Rightarrow> exn + pyval) \<Rightarrow> string \<Rightarrow> exn + pydict option" where
  "safe_json_deserialize loads json_str =
     (case loads json_str of
        Inr (PDict d) \<Rightarrow> Inr (Some d)
      | Inr _ \<Rightarrow> Inr None
      | Inl e \<Rightarrow> if is_type_or_value_error e then Inr None else Inl e)"

lemma safe_json_deserialize_dict: "safe_json_deserialize loads s = Inr (Some d) \<longleftrightarrow> loads s = Inr (PDict d)"
  by (auto simp: safe_json_deserialize_def split: sum.splits pyval.splits if_splits)

section \<open>Where unsent items wait\<close>

text \<open>\<open>_retention_description\<close>, for the warning of a failed flush.\<close>

definition retention_description :: "bool \<Rightarrow> string \<Rightarrow> string" where
  "retention_description has_redis kind =
     ''requeued in memory'' @ (if has_redis then '' and retained in Redis'' else []) @ '' ('' @ kind @ '')''"

definition events_retention_description :: "bool \<Rightarrow> string" where
  "events_retention_description has_redis = retention_description has_redis ''events''"

definition metrics_retention_description :: "bool \<Rightarrow> string" where
  "metrics_retention_description has_redis = retention_description has_redis ''metrics''"

section \<open>Muting the plugins of pydantic\<close>

text \<open>
  \<open>_mute_pydantic_plugin_instrumentation\<close> of \<open>__init__.py\<close>. A model has its configuration and the
  one its validator was last built with; rebuilding it is pydantic's, and may raise. Settings that
  are no dict take no item.
\<close>

record telemetry_model =
  tm_name :: string
  tm_config :: pydict
  tm_built :: pydict

definition record_off :: pyval where
  "record_off = PDict [(PStr ''record'', PStr ''off'')]"

definition logfire_off :: "pydict \<Rightarrow> exn + pydict" where
  "logfire_off config =
     (case map_of config (PStr ''plugin_settings'') of
        None \<Rightarrow> Inr (dict_set ''plugin_settings'' (PDict (dict_set ''logfire'' record_off [])) config)
      | Some (PDict settings) \<Rightarrow> Inr (dict_set ''plugin_settings'' (PDict (dict_set ''logfire'' record_off settings)) config)
      | Some _ \<Rightarrow> Inl (TypeError ''object does not support item assignment''))"

fun mute_models :: "(string \<Rightarrow> pydict \<Rightarrow> exn + unit) \<Rightarrow> telemetry_model list \<Rightarrow> (exn + unit) \<times> telemetry_model list" where
  "mute_models rebuild [] = (Inr (), [])"
| "mute_models rebuild (m # ms) =
     (case logfire_off (tm_config m) of
        Inl e \<Rightarrow> (Inl e, m # ms)
      | Inr config \<Rightarrow>
          (case rebuild (tm_name m) config of
             Inl e \<Rightarrow> (Inl e, m\<lparr>tm_config := config\<rparr> # ms)
           | Inr _ \<Rightarrow>
               (case mute_models rebuild ms of
                  (res, ms') \<Rightarrow> (res, m\<lparr>tm_config := config, tm_built := config\<rparr> # ms'))))"

text \<open>The flag of the result tells whether the warning was logged.\<close>

definition mute_pydantic_plugin_instrumentation ::
  "bool \<Rightarrow> (string \<Rightarrow> pydict \<Rightarrow> exn + unit) \<Rightarrow> telemetry_model list \<Rightarrow> (exn + bool) \<times> telemetry_model list" where
  "mute_pydantic_plugin_instrumentation importable rebuild ms =
     (if \<not> importable then (Inr False, ms)
      else case mute_models rebuild ms of
        (Inr _, ms') \<Rightarrow> (Inr False, ms')
      | (Inl e, ms') \<Rightarrow> (if catchable e then Inr True else Inl e, ms'))"

definition muted :: "pydict \<Rightarrow> bool" where
  "muted config \<longleftrightarrow> (\<exists>settings. map_of config (PStr ''plugin_settings'') = Some (PDict settings)
     \<and> map_of settings (PStr ''logfire'') = Some record_off)"

lemma dict_set_present: "map_of d (PStr k) = Some v \<Longrightarrow> dict_set k v d = d"
  by (induction k v d rule: dict_set.induct) (auto split: if_splits)

lemma logfire_off_muted: "logfire_off config = Inr config' \<Longrightarrow> muted config'"
  by (auto simp: logfire_off_def muted_def split: option.splits pyval.splits)

lemma logfire_off_again: "muted config \<Longrightarrow> logfire_off config = Inr config"
  by (auto simp: logfire_off_def muted_def dict_set_present)

text \<open>
  Muting that logs no warning leaves every validator built with the muted configuration, and is
  idempotent, as its documentation says.
\<close>

lemma muting_idempotent:
  assumes "mute_models rebuild ms = (Inr (), ms')"
  shows "(\<forall>m \<in> set ms'. muted (tm_built m) \<and> tm_built m = tm_config m) \<and> mute_models rebuild ms' = (Inr (), ms')"
  using assms
proof (induction ms arbitrary: ms')
  case (Cons m ms)
  obtain config where config: "logfire_off (tm_config m) = Inr config" "rebuild (tm_name m) config = Inr ()"
    using Cons.prems by (auto split: sum.splits)
  with Cons.prems obtain ms1 where ms1: "mute_models rebuild ms = (Inr (), ms1)"
      "ms' = m\<lparr>tm_config := config, tm_built := config\<rparr> # ms1"
    by (auto split: prod.splits)
  note off = logfire_off_muted [OF config(1)]
  show ?case using Cons.IH [OF ms1(1)] ms1(2) config(2) off logfire_off_again [OF off] by auto
qed simp

end
