(* ===== verification/ReleaseScript.thy ===== *)
theory ReleaseScript
  imports PyErrors "HOL-Library.AList" "HOL-Library.Char_ord" "HOL-Library.List_Lexorder"
begin

text \<open>
  \<open>.github/scripts/bump_version.py\<close>, which writes a new version into the files of the repository that
  carry it. A file is its decoded text, the repository a map from paths; what the script prints is
  left out, and so are failing writes. Regular expressions are spelled out as the scans they
  describe, on ASCII text. The JSON codec is a parameter.
\<close>

section \<open>Reading and writing files\<close>

type_synonym files = "string \<Rightarrow> string option"

abbreviation newline :: char where "newline \<equiv> CHR 0x0A"
abbreviation carriage_return :: char where "carriage_return \<equiv> CHR 0x0D"
abbreviation quote :: char where "quote \<equiv> CHR 0x22"

text \<open>\<open>Path.read_text\<close> opens in text mode, which turns every line ending into a newline.\<close>

fun newlines_from :: "bool \<Rightarrow> string \<Rightarrow> string" where
  "newlines_from after_cr [] = []"
| "newlines_from after_cr (c # cs) =
     (if c = carriage_return then newline # newlines_from True cs
      else if after_cr \<and> c = newline then newlines_from False cs
      else c # newlines_from False cs)"

definition universal_newlines :: "string \<Rightarrow> string" where
  "universal_newlines s = newlines_from False s"

definition read_text :: "string \<Rightarrow> files \<Rightarrow> exn + string" where
  "read_text path fs = (case fs path of None \<Rightarrow> Inl (PlainException ''FileNotFoundError'')
     | Some text \<Rightarrow> Inr (universal_newlines text))"

definition write_text :: "string \<Rightarrow> string \<Rightarrow> files \<Rightarrow> files" where
  "write_text path text fs = fs(path \<mapsto> text)"

section \<open>Versions\<close>

fun split_on :: "char \<Rightarrow> string \<Rightarrow> string list" where
  "split_on sep [] = [[]]"
| "split_on sep (c # cs) =
     (if c = sep then [] # split_on sep cs
      else case split_on sep cs of [] \<Rightarrow> [[c]] | w # ws \<Rightarrow> (c # w) # ws)"

text \<open>\<open>int(text)\<close>, with the limit of the standard library on the number of digits.\<close>

definition py_int :: "string \<Rightarrow> exn + int" where
  "py_int s = (case take_sign (strip s) of (neg, r) \<Rightarrow>
     (case digit_run False r of (ds, rest) \<Rightarrow>
       if ds = [] \<or> rest \<noteq> [] \<or> 4300 < length ds then Inl (ValueError ''invalid literal for int()'')
       else Inr (if neg then - int (dec_nat ds) else int (dec_nat ds))))"

fun map_exn :: "('x \<Rightarrow> exn + 'y) \<Rightarrow> 'x list \<Rightarrow> exn + 'y list" where
  "map_exn f [] = Inr []"
| "map_exn f (x # xs) =
     (case f x of Inl e \<Rightarrow> Inl e
      | Inr y \<Rightarrow> (case map_exn f xs of Inl e \<Rightarrow> Inl e | Inr ys \<Rightarrow> Inr (y # ys)))"

definition parse_semver :: "string \<Rightarrow> exn + int list" where
  "parse_semver version = map_exn py_int (split_on (CHR ''.'') version)"

text \<open>Tuples of integers compare lexicographically, a prefix before its extensions.\<close>

definition is_latest :: "string \<Rightarrow> string list \<Rightarrow> exn + bool" where
  "is_latest new_version existing_versions =
     (case parse_semver new_version of Inl e \<Rightarrow> Inl e
      | Inr new_parsed \<Rightarrow> Inr (list_all (\<lambda>v. case parse_semver v of Inl _ \<Rightarrow> True | Inr p \<Rightarrow> \<not> new_parsed < p)
          existing_versions))"

text \<open>The pairs that are sorted, ordered by the parsed version and then by the text.\<close>

datatype semver = Semver (sv_parts: "int list") (sv_text: string)

instantiation semver :: linorder
begin

definition less_eq_semver :: "semver \<Rightarrow> semver \<Rightarrow> bool" where
  "less_eq_semver a b \<longleftrightarrow> sv_parts a < sv_parts b \<or> sv_parts a = sv_parts b \<and> sv_text a \<le> sv_text b"

definition less_semver :: "semver \<Rightarrow> semver \<Rightarrow> bool" where
  "less_semver a b \<longleftrightarrow> sv_parts a < sv_parts b \<or> sv_parts a = sv_parts b \<and> sv_text a < sv_text b"

instance
proof
  fix a b c :: semver
  show "(a < b) = (a \<le> b \<and> \<not> b \<le> a)" "a \<le> a"
    by (auto simp: less_eq_semver_def less_semver_def)
  show "a \<le> b \<Longrightarrow> b \<le> c \<Longrightarrow> a \<le> c" "a \<le> b \<or> b \<le> a"
    by (auto simp: less_eq_semver_def)
  show "a \<le> b \<Longrightarrow> b \<le> a \<Longrightarrow> a = b"
    by (cases a; cases b) (auto simp: less_eq_semver_def)
qed

end

definition parsed :: "string \<Rightarrow> semver option" where
  "parsed v = (case parse_semver v of Inl _ \<Rightarrow> None | Inr p \<Rightarrow> Some (Semver p v))"

definition sorted_versions_descending :: "string list \<Rightarrow> string list" where
  "sorted_versions_descending versions =
     map sv_text (rev (sort (List.map_filter parsed versions))) @ filter (\<lambda>v. parsed v = None) versions"

text \<open>\<open>VERSION_PATTERN.match\<close>: three runs of digits; the dollar also matches before a final newline.\<close>

definition valid_version :: "string \<Rightarrow> bool" where
  "valid_version s =
     (let t = (if s \<noteq> [] \<and> last s = newline then butlast s else s); ws = split_on (CHR ''.'') t
      in length ws = 3 \<and> list_all (\<lambda>w. w \<noteq> [] \<and> list_all is_digit w) ws)"

section \<open>Version fields\<close>

fun strip_prefix :: "string \<Rightarrow> string \<Rightarrow> string option" where
  "strip_prefix [] s = Some s"
| "strip_prefix (p # ps) [] = None"
| "strip_prefix (p # ps) (c # cs) = (if p = c then strip_prefix ps cs else None)"

text \<open>
  The pattern \<open>^(name\s*=\s*)"[^"]*"\<close> at the start of a line: the first group, the text between the
  quotes, and what follows the match. White space and the quoted text may span lines.
\<close>

definition match_head :: "string \<Rightarrow> string \<Rightarrow> (string \<times> string) option" where
  "match_head name s =
     (case strip_prefix name s of None \<Rightarrow> None
      | Some r \<Rightarrow>
          (case strip_prefix ''='' (dropWhile is_space r) of None \<Rightarrow> None
           | Some r2 \<Rightarrow>
               (case strip_prefix [quote] (dropWhile is_space r2) of None \<Rightarrow> None
                | Some r3 \<Rightarrow> Some (name @ takeWhile is_space r @ ''='' @ takeWhile is_space r2, r3))))"

definition match_field :: "string \<Rightarrow> string \<Rightarrow> (string \<times> string \<times> string) option" where
  "match_field name s =
     (case match_head name s of None \<Rightarrow> None
      | Some (g, r) \<Rightarrow>
          if quote \<in> set r then Some (g, takeWhile (\<lambda>c. c \<noteq> quote) r, tl (dropWhile (\<lambda>c. c \<noteq> quote) r))
          else None)"

text \<open>\<open>pattern.search\<close>, where the flag tells whether the position is at the start of a line.\<close>

fun search_field :: "string \<Rightarrow> bool \<Rightarrow> string \<Rightarrow> (string \<times> string \<times> string) option" where
  "search_field name start [] = None"
| "search_field name start (c # cs) =
     (case (if start then match_field name (c # cs) else None) of
        Some m \<Rightarrow> Some m
      | None \<Rightarrow> search_field name (c = newline) cs)"

lemma strip_prefix_split: "strip_prefix p s = Some r \<longleftrightarrow> s = p @ r"
  by (induction p s rule: strip_prefix.induct) auto

lemma match_head_split: "match_head name s = Some (g, r) \<Longrightarrow> s = g @ quote # r"
proof -
  assume "match_head name s = Some (g, r)"
  then obtain r1 r2 where "s = name @ r1" "dropWhile is_space r1 = ''='' @ r2"
      "dropWhile is_space r2 = quote # r" "g = name @ takeWhile is_space r1 @ ''='' @ takeWhile is_space r2"
    by (auto simp: match_head_def strip_prefix_split split: option.splits)
  then show "s = g @ quote # r"
    using takeWhile_dropWhile_id [of is_space r1] takeWhile_dropWhile_id [of is_space r2] by simp
qed

lemma match_field_split:
  assumes "match_field name s = Some (g, body, rest)"
  shows "s = g @ quote # body @ quote # rest" "quote \<notin> set body" "match_head name s = Some (g, body @ quote # rest)"
proof -
  from assms obtain r where h: "match_head name s = Some (g, r)" and q: "quote \<in> set r"
      and b: "body = takeWhile (\<lambda>c. c \<noteq> quote) r" "rest = tl (dropWhile (\<lambda>c. c \<noteq> quote) r)"
    by (auto simp: match_field_def split: option.splits if_splits)
  from q have "dropWhile (\<lambda>c. c \<noteq> quote) r \<noteq> []" by (simp add: dropWhile_eq_Nil_conv)
  then obtain c cs where d: "dropWhile (\<lambda>c. c \<noteq> quote) r = c # cs" by (cases "dropWhile (\<lambda>c. c \<noteq> quote) r") auto
  then have "c = quote" using hd_dropWhile [of "\<lambda>c. c \<noteq> quote" r] by simp
  with b d have r: "r = body @ quote # rest" using takeWhile_dropWhile_id [of "\<lambda>c. c \<noteq> quote" r] by simp
  with h show "match_head name s = Some (g, body @ quote # rest)" by simp
  from match_head_split [OF h] r show "s = g @ quote # body @ quote # rest" by simp
  show "quote \<notin> set body" using b(1) by (auto dest: set_takeWhileD)
qed

lemma match_field_shorter: "match_field name s = Some (g, body, rest) \<Longrightarrow> length rest < length s"
  using arg_cong [OF match_field_split(1), of name s g body rest length] by simp

text \<open>\<open>pattern.sub\<close>: every match is replaced by the same text.\<close>

function sub_field :: "string \<Rightarrow> string \<Rightarrow> bool \<Rightarrow> string \<Rightarrow> string" where
  "sub_field name repl start [] = []"
| "sub_field name repl start (c # cs) =
     (case (if start then match_field name (c # cs) else None) of
        Some (g, body, rest) \<Rightarrow> repl @ sub_field name repl False rest
      | None \<Rightarrow> c # sub_field name repl (c = newline) cs)"
  by pat_completeness auto
termination
  by (relation "measure (\<lambda>(n, r, b, s). length s)") (auto dest!: match_field_shorter split: if_splits)

text \<open>\<open>update_pyproject_toml\<close> and \<open>update_package_version_module\<close> have the same body.\<close>

definition update_field :: "string \<Rightarrow> string \<Rightarrow> string \<Rightarrow> files \<Rightarrow> (exn + bool) \<times> files" where
  "update_field path name version fs =
     (case read_text path fs of Inl e \<Rightarrow> (Inl e, fs)
      | Inr content \<Rightarrow>
          (case search_field name True content of None \<Rightarrow> (Inr False, fs)
           | Some (g, current, _) \<Rightarrow>
               if current = version then (Inr True, fs)
               else (Inr True, write_text path
                 (sub_field name (g @ [quote] @ version @ [quote]) True content) fs)))"

definition pyproject_path :: string where "pyproject_path = ''pyproject.toml''"

definition version_module_path :: string where "version_module_path = ''guard_agent/_version.py''"

definition update_pyproject_toml :: "string \<Rightarrow> files \<Rightarrow> (exn + bool) \<times> files" where
  "update_pyproject_toml version fs = update_field pyproject_path ''version'' version fs"

definition update_package_version_module :: "string \<Rightarrow> files \<Rightarrow> (exn + bool) \<times> files" where
  "update_package_version_module version fs =
     (if fs version_module_path = None then (Inr False, fs)
      else update_field version_module_path ''__version__'' version fs)"

section \<open>The list of versions in .mike.yml\<close>

definition is_line_break :: "char \<Rightarrow> bool" where
  "is_line_break c \<longleftrightarrow> (let n = of_char c :: nat in (10 \<le> n \<and> n \<le> 13) \<or> (28 \<le> n \<and> n \<le> 30))"

text \<open>\<open>str.splitlines\<close> on text without carriage returns: a final line break ends the last line.\<close>

fun splitlines :: "string \<Rightarrow> string list" where
  "splitlines [] = []"
| "splitlines (c # cs) =
     (if is_line_break c then [] # splitlines cs
      else case splitlines cs of [] \<Rightarrow> [[c]] | w # ws \<Rightarrow> (c # w) # ws)"

text \<open>
  The loop over the lines: the entries found, the index of the last \<open>versions:\<close> line and of the last
  entry. The flag is \<open>in_versions\<close>; the loop breaks at the first line after entries that is none.
\<close>

fun scan_versions :: "int \<Rightarrow> bool \<Rightarrow> string list \<Rightarrow> string list \<times> int \<times> int \<Rightarrow> string list \<times> int \<times> int" where
  "scan_versions i in_versions [] acc = acc"
| "scan_versions i in_versions (line # rest) (existing, start, stop) =
     (if starts_with ''versions:'' line then scan_versions (i + 1) True rest (existing, i, stop)
      else if in_versions then
        (let stripped = strip line
         in if starts_with ''- '' stripped
            then scan_versions (i + 1) True rest (existing @ [strip (drop 2 stripped)], start, i)
            else (existing, start, stop))
      else scan_versions (i + 1) False rest (existing, start, stop))"

text \<open>A line \<open>^(\s*latest:\s*).+$\<close> matches: something follows \<open>latest:\<close>.\<close>

definition is_alias_line :: "string \<Rightarrow> bool" where
  "is_alias_line line \<longleftrightarrow> starts_with ''latest:'' (lstrip line) \<and> 7 < length (lstrip line)"

fun point_latest_at :: "string \<Rightarrow> string list \<Rightarrow> string list" where
  "point_latest_at version [] = []"
| "point_latest_at version (line # rest) =
     (if is_alias_line line then
        (if strip line = ''latest: '' @ version then line else ''  latest: '' @ version) # rest
      else line # point_latest_at version rest)"

definition mike_path :: string where "mike_path = ''.mike.yml''"

definition new_entries :: "string \<Rightarrow> string list \<Rightarrow> string list" where
  "new_entries version existing =
     sorted_versions_descending (filter (\<lambda>v. v \<noteq> ''latest'') existing @ [version])
     @ (if ''latest'' \<in> set existing then [''latest''] else [])"

definition bullet :: "string \<Rightarrow> string" where
  "bullet v = ''  - '' @ v"

definition mike_lines :: "string \<Rightarrow> string list \<Rightarrow> (string list \<times> int \<times> int) \<Rightarrow> string list" where
  "mike_lines version lines = (\<lambda>(existing, start, stop).
     if version \<in> set existing then lines
     else take (nat (start + 1)) lines @ map bullet (new_entries version existing)
       @ drop (nat (stop + 1)) lines)"

definition update_mike_yml :: "string \<Rightarrow> files \<Rightarrow> (exn + bool) \<times> files" where
  "update_mike_yml version fs =
     (case read_text mike_path fs of Inl e \<Rightarrow> (Inl e, fs)
      | Inr content \<Rightarrow>
          (case scan_versions 0 False (splitlines content) ([], -1, -1) of (existing, start, stop) \<Rightarrow>
            if start = -1 then (Inr False, fs)
            else let lines = mike_lines version (splitlines content) (existing, start, stop)
              in case is_latest version (filter (\<lambda>v. v \<noteq> ''latest'') (existing @ [version])) of
                   Inl e \<Rightarrow> (Inl e, fs)
                 | Inr newest \<Rightarrow>
                     (Inr True, write_text mike_path
                       (join [newline] (if newest then point_latest_at version lines else lines) @ [newline]) fs)))"

section \<open>versions.json\<close>

text \<open>
  A JSON object of strings is a dict: an association list in its order, with distinct keys.
  \<open>json.dumps\<close> is called with an indent of four.
\<close>

type_synonym str_dict = "(string \<times> string) list"

record json_files =
  jf_loads :: "string \<Rightarrow> exn + str_dict"
  jf_dumps :: "str_dict \<Rightarrow> string"

definition versions_json_path :: string where "versions_json_path = ''docs/versions/versions.json''"

definition not_latest :: "str_dict \<Rightarrow> string list" where
  "not_latest data = filter (\<lambda>k. k \<noteq> ''latest'') (map fst data)"

definition reordered :: "str_dict \<Rightarrow> string list \<Rightarrow> str_dict" where
  "reordered data ks = map (\<lambda>k. (k, the (map_of data k))) ks"

definition update_versions_json :: "json_files \<Rightarrow> string \<Rightarrow> files \<Rightarrow> (exn + bool) \<times> files" where
  "update_versions_json J version fs =
     (case read_text versions_json_path fs of Inl e \<Rightarrow> (Inl e, fs)
      | Inr text \<Rightarrow>
      (case jf_loads J text of Inl e \<Rightarrow> (Inl e, fs)
       | Inr data \<Rightarrow>
         if map_of data version \<noteq> None \<and> map_of data ''latest'' = Some version then (Inr True, fs)
         else let added = map_of data version = None;
                  data1 = (if added then AList.update version version data else data)
           in case is_latest version (not_latest data1) of Inl e \<Rightarrow> (Inl e, fs)
              | Inr newest \<Rightarrow>
                let moved = newest \<and> map_of data1 ''latest'' \<noteq> Some version;
                    data2 = (if moved then AList.update ''latest'' version data1 else data1)
                in if \<not> (added \<or> moved) then (Inr True, fs)
                   else (Inr True, write_text versions_json_path
                     (jf_dumps J (reordered data2 (sorted_versions_descending (not_latest data2)
                        @ (if map_of data2 ''latest'' \<noteq> None then [''latest''] else []))) @ [newline]) fs)))"

section \<open>Changelogs\<close>

fun contains :: "string \<Rightarrow> string \<Rightarrow> bool" where
  "contains p [] = (p = [])"
| "contains p (c # cs) = (starts_with p (c # cs) \<or> contains p cs)"

text \<open>The pattern \<open>^v\d+\.\d+\.\d+ \(\<close> at the start of a line.\<close>

definition skip_digits :: "string \<Rightarrow> string option" where
  "skip_digits s = (if s \<noteq> [] \<and> is_digit (hd s) then Some (dropWhile is_digit s) else None)"

definition match_header :: "string \<Rightarrow> bool" where
  "match_header s =
     (case strip_prefix ''v'' s of None \<Rightarrow> False | Some a \<Rightarrow>
     (case skip_digits a of None \<Rightarrow> False | Some b \<Rightarrow>
     (case strip_prefix ''.'' b of None \<Rightarrow> False | Some c \<Rightarrow>
     (case skip_digits c of None \<Rightarrow> False | Some d \<Rightarrow>
     (case strip_prefix ''.'' d of None \<Rightarrow> False | Some e \<Rightarrow>
     (case skip_digits e of None \<Rightarrow> False | Some f \<Rightarrow> strip_prefix '' ('' f \<noteq> None))))))"

text \<open>\<open>search\<close>: the text before and from the first match.\<close>

fun split_at_header :: "bool \<Rightarrow> string \<Rightarrow> (string \<times> string) option" where
  "split_at_header start [] = None"
| "split_at_header start (c # cs) =
     (if start \<and> match_header (c # cs) then Some ([], c # cs)
      else map_option (\<lambda>(a, b). (c # a, b)) (split_at_header (c = newline) cs))"

definition rstrip :: "string \<Rightarrow> string" where
  "rstrip s = rev (dropWhile is_space (rev s))"

definition entry_mark :: "string \<Rightarrow> string" where
  "entry_mark version = ''v'' @ version @ '' (''"

definition scaffold :: "string \<Rightarrow> string \<Rightarrow> string" where
  "scaffold today version =
     entry_mark version @ today @ '')'' @ [newline]
     @ ''-------------------'' @ [newline] @ [newline]
     @ ''TITLE (v'' @ version @ '')'' @ [newline]
     @ ''------------'' @ [newline] @ [newline]
     @ ''CONTENT'' @ [newline] @ [newline] @ ''___'' @ [newline] @ [newline]"

definition insert_changelog_scaffold :: "string \<Rightarrow> string \<Rightarrow> string \<Rightarrow> files \<Rightarrow> (exn + bool) \<times> files" where
  "insert_changelog_scaffold today path version fs =
     (case read_text path fs of Inl e \<Rightarrow> (Inl e, fs)
      | Inr content \<Rightarrow>
          if contains (entry_mark version) content then (Inr True, fs)
          else (Inr True, write_text path
            (case split_at_header True content of
               Some (before, after) \<Rightarrow> before @ scaffold today version @ after
             | None \<Rightarrow> rstrip content @ [newline, newline] @ scaffold today version) fs))"

definition changelog_path :: string where "changelog_path = ''CHANGELOG.md''"

definition release_notes_path :: string where "release_notes_path = ''docs/release-notes.md''"

definition update_changelogs :: "string \<Rightarrow> string \<Rightarrow> files \<Rightarrow> (exn + bool) \<times> files" where
  "update_changelogs today version fs =
     (case insert_changelog_scaffold today changelog_path version fs of
        (Inl e, fs1) \<Rightarrow> (Inl e, fs1)
      | (Inr ok1, fs1) \<Rightarrow>
          (case insert_changelog_scaffold today release_notes_path version fs1 of
             (Inl e, fs2) \<Rightarrow> (Inl e, fs2)
           | (Inr ok2, fs2) \<Rightarrow> (Inr (ok2 \<and> ok1), fs2)))"

section \<open>The script\<close>

text \<open>
  The loop over the updaters: one that returns False or raises is reported, and the next one runs.
  The clock is read once here; the two changelogs could in fact see two dates.
\<close>

fun run_updaters :: "(string \<Rightarrow> files \<Rightarrow> (exn + bool) \<times> files) list \<Rightarrow> string \<Rightarrow> bool \<times> files \<Rightarrow> bool \<times> files" where
  "run_updaters [] version s = s"
| "run_updaters (u # us) version (all_ok, fs) =
     (case u version fs of (res, fs') \<Rightarrow> run_updaters us version (all_ok \<and> res = Inr True, fs'))"

definition updaters :: "json_files \<Rightarrow> string \<Rightarrow> (string \<Rightarrow> files \<Rightarrow> (exn + bool) \<times> files) list" where
  "updaters J today = [update_pyproject_toml, update_package_version_module, update_mike_yml,
     update_versions_json J, update_changelogs today]"

text \<open>\<open>main\<close>, on \<open>sys.argv\<close>: the exit code and the files it leaves.\<close>

definition bump_main :: "json_files \<Rightarrow> string \<Rightarrow> string list \<Rightarrow> files \<Rightarrow> int \<times> files" where
  "bump_main J today argv fs =
     (if length argv \<noteq> 2 then (1, fs)
      else let version = argv ! 1
        in if \<not> valid_version version then (1, fs)
           else (case run_updaters (updaters J today) version (True, fs) of
                   (all_ok, fs') \<Rightarrow> (if all_ok then 0 else 1, fs')))"

end
