(* ===== verification/ReleaseFiles.thy ===== *)
theory ReleaseFiles
  imports ReleaseFacts
begin

text \<open>
  The files the release script rewrites line by line: the block of versions of \<open>.mike.yml\<close>, with what
  happens when it is empty, the changelogs, and the whole run.
\<close>

section \<open>Lines\<close>

definition one_line :: "string \<Rightarrow> bool" where
  "one_line l \<longleftrightarrow> list_all (\<lambda>c. \<not> is_line_break c) l"

lemma splitlines_one_line: "l \<in> set (splitlines s) \<Longrightarrow> one_line l"
  by (induction s arbitrary: l) (auto simp: one_line_def split: if_splits list.splits)

lemma newline_break [simp]: "is_line_break newline" "is_line_break carriage_return"
  by (simp_all add: is_line_break_def)

lemma splitlines_line: "one_line l \<Longrightarrow> splitlines (l @ newline # r) = l # splitlines r"
  by (induction l) (auto simp: one_line_def)

lemma splitlines_join:
  "ls \<noteq> [] \<Longrightarrow> list_all one_line ls \<Longrightarrow> splitlines (join [newline] ls @ [newline]) = ls"
proof (induction "[newline]" ls rule: join.induct)
  case (2 x)
  then show ?case using splitlines_line [of x "[]"] by simp
next
  case (3 x y zs)
  then show ?case by (simp add: splitlines_line)
qed simp

text \<open>What \<open>strip\<close> leaves: nothing, or text that starts and ends without white space.\<close>

definition trimmed :: "string \<Rightarrow> bool" where
  "trimmed s \<longleftrightarrow> s \<noteq> [] \<and> \<not> is_space (hd s) \<and> \<not> is_space (last s)"

lemma dropWhile_hd: "xs \<noteq> [] \<Longrightarrow> \<not> P (hd xs) \<Longrightarrow> dropWhile P xs = xs"
  by (cases xs) auto

lemma strip_trimmed: "trimmed s \<Longrightarrow> strip s = s"
  by (simp add: trimmed_def strip_def lstrip_def dropWhile_hd hd_rev)

lemma lstrip_Cons: "is_space c \<Longrightarrow> lstrip (c # s) = lstrip s" "\<not> is_space c \<Longrightarrow> lstrip (c # s) = c # s"
  by (simp_all add: lstrip_def)

lemma strip_cases: "strip s = [] \<or> trimmed (strip s)"
proof (cases "lstrip s")
  case Nil
  then show ?thesis by (simp add: strip_def)
next
  case (Cons x xs)
  then have x: "\<not> is_space x" using hd_dropWhile [of is_space s] by (simp add: lstrip_def)
  have "strip s = rev (dropWhile is_space (rev xs @ [x]))" by (simp add: strip_def Cons)
  moreover have "dropWhile is_space (rev xs @ [x]) = dropWhile is_space (rev xs) @ [x]"
    using x by (induction "rev xs") (auto simp: dropWhile_append)
  ultimately have s: "strip s = x # rev (dropWhile is_space (rev xs))" by simp
  moreover have "\<not> is_space (last (x # rev (dropWhile is_space (rev xs))))"
    using x hd_dropWhile [of is_space "rev xs"] by (auto simp: last_rev)
  ultimately show ?thesis using x by (simp add: trimmed_def)
qed

lemma strip_hd: "lstrip s = x # xs \<Longrightarrow> \<exists>ys. strip s = x # ys"
proof -
  assume l: "lstrip s = x # xs"
  then have x: "\<not> is_space x" using hd_dropWhile [of is_space s] by (simp add: lstrip_def)
  have "dropWhile is_space (rev xs @ [x]) = dropWhile is_space (rev xs) @ [x]"
    using x by (simp add: dropWhile_append)
  then show ?thesis by (simp add: strip_def l)
qed

section \<open>The block of versions\<close>

abbreviation is_heading :: "string \<Rightarrow> bool" where
  "is_heading l \<equiv> starts_with ''versions:'' l"

definition is_entry :: "string \<Rightarrow> bool" where
  "is_entry l \<longleftrightarrow> \<not> is_heading l \<and> starts_with ''- '' (strip l)"

definition entry :: "string \<Rightarrow> string" where
  "entry l = strip (drop 2 (strip l))"

text \<open>A file with one block: lines before it, its heading, its entries, and a rest that does not continue it.\<close>

definition mike_block :: "string list \<Rightarrow> string list \<Rightarrow> string \<Rightarrow> string list \<Rightarrow> string list \<Rightarrow> bool" where
  "mike_block lines a h es c \<longleftrightarrow> lines = a @ h # es @ c \<and> list_all (\<lambda>l. \<not> is_heading l) a \<and> is_heading h
     \<and> list_all is_entry es \<and> (c \<noteq> [] \<longrightarrow> \<not> is_entry (hd c) \<and> \<not> is_heading (hd c))"

lemma scan_before:
  "list_all (\<lambda>l. \<not> is_heading l) a \<Longrightarrow>
   scan_versions i False (a @ ls) acc = scan_versions (i + int (length a)) False ls acc"
  by (induction a arbitrary: i; cases acc) (auto simp: algebra_simps)

lemma scan_entries:
  "list_all is_entry es \<Longrightarrow> c \<noteq> [] \<longrightarrow> \<not> is_entry (hd c) \<and> \<not> is_heading (hd c) \<Longrightarrow>
   scan_versions i True (es @ c) (existing, start, stop)
     = (existing @ map entry es, start, if es = [] then stop else i + int (length es) - 1)"
proof (induction es arbitrary: i existing stop)
  case Nil
  then show ?case by (cases c) (auto simp: is_entry_def Let_def)
next
  case (Cons l es)
  have "scan_versions i True ((l # es) @ c) (existing, start, stop)
      = scan_versions (i + 1) True (es @ c) (existing @ [entry l], start, i)"
    using Cons.prems(1) by (simp add: is_entry_def entry_def Let_def)
  also have "\<dots> = ((existing @ [entry l]) @ map entry es, start, if es = [] then i else i + 1 + int (length es) - 1)"
    using Cons.prems by (intro Cons.IH) simp_all
  finally show ?case by (cases "es = []") simp_all
qed

lemma scan_block:
  "mike_block lines a h es c \<Longrightarrow> scan_versions 0 False lines ([], -1, -1)
     = (map entry es, int (length a), if es = [] then -1 else int (length a + length es))"
  by (auto simp: mike_block_def scan_before scan_entries simp del: append_assoc)

lemma mike_lines_block:
  assumes "mike_block lines a h es c" and "v \<notin> entry ` set es"
  shows "mike_lines v lines (map entry es, int (length a), if es = [] then -1 else int (length a + length es))
    = a @ h # map bullet (new_entries v (map entry es)) @ (if es = [] then lines else c)"
proof -
  have lines: "lines = a @ h # es @ c" using assms(1) by (simp add: mike_block_def)
  have "take (nat (int (length a) + 1)) lines = a @ [h]" by (simp add: lines nat_add_distrib)
  moreover have "es \<noteq> [] \<Longrightarrow> drop (nat (int (length a + length es) + 1)) lines = c" by (simp add: lines nat_add_distrib)
  ultimately show ?thesis using assms(2) by (auto simp: mike_lines_def)
qed

text \<open>Entries are trimmed, and a trimmed entry reads back from its line.\<close>

lemma entry_trimmed:
  assumes "is_entry l"
  shows "trimmed (entry l)"
proof -
  have s: "starts_with ''- '' (strip l)" using assms by (simp add: is_entry_def)
  then have "trimmed (strip l)" using strip_cases [of l] by (auto simp: starts_with_def)
  moreover from s obtain z where z: "strip l = ''- '' @ z" by (metis append_take_drop_id starts_with_def)
  ultimately have "z \<noteq> []" "\<not> is_space (last z)" by (auto simp: trimmed_def is_space_def split: if_splits)
  then have "lstrip z \<noteq> []" by (auto simp: lstrip_def dropWhile_eq_Nil_conv)
  then obtain x xs where "lstrip z = x # xs" by (cases "lstrip z") auto
  from strip_hd [OF this] have "strip z \<noteq> []" by auto
  with strip_cases [of z] z show ?thesis by (simp add: entry_def)
qed

lemma entry_line:
  assumes "trimmed v"
  shows "is_entry (bullet v)" "entry (bullet v) = v"
proof -
  have t: "trimmed (''- '' @ v)" using assms by (auto simp: trimmed_def is_space_def)
  have "strip (''  - '' @ v) = strip (''- '' @ v)"
    by (simp add: strip_def lstrip_def is_space_def)
  then have s: "strip (''  - '' @ v) = ''- '' @ v" using strip_trimmed [OF t] by simp
  then show "is_entry (bullet v)" by (simp add: is_entry_def starts_with_def bullet_def)
  show "entry (bullet v) = v" using s strip_trimmed [OF assms] by (simp add: entry_def bullet_def)
qed

section \<open>The alias\<close>

text \<open>Pointing the alias elsewhere changes alias lines only, which are neither headings nor entries.\<close>

definition alias_changed :: "string \<Rightarrow> string \<Rightarrow> string \<Rightarrow> bool" where
  "alias_changed v l l' \<longleftrightarrow> l' = l \<or> is_alias_line l \<and> l' = ''  latest: '' @ v"

lemma point_latest_changes: "list_all2 (alias_changed v) ls (point_latest_at v ls)"
  by (induction ls) (auto simp: alias_changed_def list_all2_refl list_all2_same)

lemma alias_plain:
  assumes "is_alias_line l"
  shows "\<not> is_heading l" "\<not> is_entry l"
proof -
  from assms have s: "starts_with ''latest:'' (lstrip l)" by (simp add: is_alias_line_def)
  then obtain xs where x: "lstrip l = CHR ''l'' # xs" by (cases "lstrip l") (auto simp: starts_with_def)
  show "\<not> is_heading l"
  proof
    assume "is_heading l"
    then obtain ys where "l = CHR ''v'' # ys" by (cases l) (auto simp: starts_with_def)
    moreover have "\<not> is_space (CHR ''v'')" by (simp add: is_space_def)
    ultimately show False using x by (simp add: lstrip_def)
  qed
  from strip_hd [OF x] show "\<not> is_entry l" by (auto simp: is_entry_def starts_with_def)
qed

lemma alias_new: "\<not> is_heading (''  latest: '' @ v)" "\<not> is_entry (''  latest: '' @ v)"
proof -
  show "\<not> is_heading (''  latest: '' @ v)" by (simp add: starts_with_def)
  have "lstrip (''  latest: '' @ v) = ''latest: '' @ v" by (simp add: lstrip_def is_space_def)
  then obtain ys where "strip (''  latest: '' @ v) = CHR ''l'' # ys" using strip_hd by fastforce
  then show "\<not> is_entry (''  latest: '' @ v)" by (simp add: is_entry_def starts_with_def)
qed

lemma alias_changed_plain:
  "alias_changed v l l' \<Longrightarrow> is_heading l' = is_heading l" "alias_changed v l l' \<Longrightarrow> is_entry l' = is_entry l"
  using alias_plain alias_new by (auto simp: alias_changed_def)

lemma alias_changed_marked: "alias_changed v l l' \<Longrightarrow> is_heading l \<or> is_entry l \<Longrightarrow> l' = l"
  using alias_plain by (auto simp: alias_changed_def)

lemma alias_headings:
  "list_all2 (alias_changed v) ls ls' \<Longrightarrow> list_all (\<lambda>l. \<not> is_heading l) ls' = list_all (\<lambda>l. \<not> is_heading l) ls"
  by (induction rule: list_all2_induct) (simp_all add: alias_changed_plain(1))

text \<open>A file with a block keeps its heading and its entries.\<close>

lemma alias_keeps_block:
  assumes m: "mike_block ls a h es c" and ch: "list_all2 (alias_changed v) ls ls'"
  shows "\<exists>a' c'. mike_block ls' a' h es c' \<and> length a' = length a \<and> length c' = length c"
proof -
  have ls: "ls = a @ h # es @ c" using m by (simp add: mike_block_def)
  from ch obtain a' h' es' c' where ls': "ls' = a' @ h' # es' @ c'"
      and a: "list_all2 (alias_changed v) a a'" and h: "alias_changed v h h'"
      and es: "list_all2 (alias_changed v) es es'" and c: "list_all2 (alias_changed v) c c'"
    unfolding ls by (auto simp: list_all2_append1 list_all2_Cons1)
  have "h' = h" using alias_changed_marked [OF h] m by (simp add: mike_block_def)
  moreover have "es' = es"
  proof (rule nth_equalityI)
    show "length es' = length es" using es list_all2_lengthD by metis
    fix i assume "i < length es'"
    with es m show "es' ! i = es ! i"
      using alias_changed_marked [of v "es ! i" "es' ! i"]
      by (simp add: list_all2_conv_all_nth list_all_length mike_block_def)
  qed
  moreover have "list_all (\<lambda>l. \<not> is_heading l) a'" using alias_headings [OF a] m by (simp add: mike_block_def)
  moreover have "c' \<noteq> [] \<longrightarrow> \<not> is_entry (hd c') \<and> \<not> is_heading (hd c')" using c m unfolding mike_block_def
    by (cases c; cases c') (auto dest: alias_changed_plain)
  ultimately have "mike_block ls' a' h es c'" using m ls' by (simp add: mike_block_def)
  with a c show ?thesis using list_all2_lengthD by metis
qed

section \<open>Adding a version\<close>

text \<open>A plain version: three runs of digits, as a caller gives it without a final newline.\<close>

definition plain_version :: "string \<Rightarrow> bool" where
  "plain_version v \<longleftrightarrow> valid_version v \<and> newline \<notin> set v"

lemma set_split_on: "c \<in> set s \<Longrightarrow> c = sep \<or> (\<exists>w \<in> set (split_on sep s). c \<in> set w)"
  by (induction s) (auto split: list.splits)

lemma valid_version_chars:
  assumes "valid_version v" and "c \<in> set v"
  shows "is_digit c \<or> c = CHR ''.'' \<or> c = newline"
proof -
  let ?t = "if v \<noteq> [] \<and> last v = newline then butlast v else v"
  have "set v \<subseteq> insert newline (set ?t)" by (cases v rule: rev_cases) auto
  moreover have "\<forall>w \<in> set (split_on (CHR ''.'') ?t). \<forall>d \<in> set w. is_digit d"
    using assms(1) unfolding valid_version_def Let_def list_all_iff by blast
  then have "is_digit d \<or> d = CHR ''.''" if "d \<in> set ?t" for d
    using set_split_on [OF that, of "CHR ''.''"] by blast
  ultimately show ?thesis using assms(2) by blast
qed

lemma digit_facts:
  assumes "is_digit c \<or> c = CHR ''.''"
  shows "\<not> is_space c" "\<not> is_line_break c" "c \<noteq> quote" "c \<noteq> carriage_return"
proof -
  have n: "46 \<le> (of_char c :: nat)" "(of_char c :: nat) \<le> 57" using assms by (auto simp: is_digit_def Let_def)
  show "\<not> is_space c" "\<not> is_line_break c"
    unfolding is_space_def is_line_break_def Let_def using n by linarith+
  show "c \<noteq> quote" "c \<noteq> carriage_return" using n(1) by (intro notI; simp)+
qed

lemma valid_version_text:
  assumes "valid_version v"
  shows "quote \<notin> set v" "carriage_return \<notin> set v"
proof -
  have "c \<noteq> quote \<and> c \<noteq> carriage_return" if "c \<in> set v" for c
    using valid_version_chars [OF assms that] digit_facts [of c] by auto
  then show "quote \<notin> set v" "carriage_return \<notin> set v" by blast+
qed

lemma plain_version_text:
  assumes "plain_version v"
  shows "trimmed v" "one_line v"
proof -
  have all: "\<not> is_space c \<and> \<not> is_line_break c" if "c \<in> set v" for c
    using assms valid_version_chars [of v c] digit_facts [of c] that by (auto simp: plain_version_def)
  moreover have "v \<noteq> []" using assms by (auto simp: plain_version_def valid_version_def)
  ultimately show "trimmed v" "one_line v"
    by (auto simp: trimmed_def one_line_def list_all_iff)
qed

lemma new_entries_set: "set (new_entries v existing) = insert v (set existing)"
proof -
  have "set (sorted_versions_descending vs) = set vs" for vs using sorted_versions_mset by (metis set_mset_mset)
  then show ?thesis by (auto simp: new_entries_def)
qed

lemma entry_one_line: "one_line l \<Longrightarrow> one_line (entry l)"
proof -
  have drop: "set (dropWhile is_space s) \<subseteq> set s" for s by (auto dest: set_dropWhileD)
  have strip: "set (strip s) \<subseteq> set s" for s
    using drop [of s] drop [of "rev (dropWhile is_space s)"] by (auto simp: strip_def lstrip_def)
  have "set (entry l) \<subseteq> set l"
    using strip [of "drop 2 (strip l)"] strip [of l] set_drop_subset [of 2 "strip l"] by (auto simp: entry_def)
  then show "one_line l \<Longrightarrow> one_line (entry l)" by (auto simp: one_line_def list_all_iff)
qed

lemma new_block_entries:
  assumes "plain_version v" and "list_all is_entry es" and "list_all one_line es"
  defines "ls \<equiv> map bullet (new_entries v (map entry es))"
  shows "list_all is_entry ls" "map entry ls = new_entries v (map entry es)" "list_all one_line ls"
proof -
  have "trimmed w \<and> one_line w" if "w \<in> set (new_entries v (map entry es))" for w
    using that assms(1-3) entry_trimmed entry_one_line plain_version_text(1,2)
    by (auto simp: new_entries_set list_all_iff)
  then show "list_all is_entry ls" "map entry ls = new_entries v (map entry es)" "list_all one_line ls"
    using entry_line by (auto simp: ls_def list_all_iff one_line_def is_line_break_def bullet_def [abs_def] intro!: map_idI)
qed

lemma point_latest_one_line: "one_line v \<Longrightarrow> list_all one_line ls \<Longrightarrow> list_all one_line (point_latest_at v ls)"
  by (induction ls) (auto simp: one_line_def is_line_break_def)

lemma written_lines:
  assumes "ls \<noteq> []" and "list_all one_line ls"
  shows "read_text path (write_text path (join [newline] ls @ [newline]) fs) = Inr (join [newline] ls @ [newline])"
    and "splitlines (join [newline] ls @ [newline]) = ls"
proof -
  have "\<forall>l \<in> set ls. carriage_return \<notin> set l" using assms(2) newline_break(2) unfolding list_all_iff one_line_def by blast
  then have "carriage_return \<notin> set (join [newline] ls @ [newline])" using set_join [of carriage_return "[newline]" ls] by auto
  then show "read_text path (write_text path (join [newline] ls @ [newline]) fs) = Inr (join [newline] ls @ [newline])"
    by (rule read_written)
qed (rule splitlines_join [OF assms])


text \<open>
  When the block of versions is empty, the index of its last entry is still -1, and the script
  writes the whole old file again after the new entry.
\<close>

theorem empty_block_repeats_file:
  assumes read: "read_text mike_path fs = Inr content" and block: "mike_block (splitlines content) a h [] c"
    and v: "plain_version v" "parse_semver v = Inr t"
  shows "\<exists>fs' content'. update_mike_yml v fs = (Inr True, fs') \<and> read_text mike_path fs' = Inr content'
    \<and> splitlines content' = point_latest_at v (a @ h # bullet v # splitlines content)"
proof -
  let ?out = "point_latest_at v (a @ h # bullet v # splitlines content)"
  have lines: "list_all one_line (splitlines content)" using splitlines_one_line by (auto simp: list_all_iff)
  have parts: "splitlines content = a @ h # c" using block by (simp add: mike_block_def)
  have "mset (sorted_versions_descending [v]) = {#v#}" by (simp add: sorted_versions_mset)
  then have new: "new_entries v [] = [v]" by (simp add: new_entries_def)
  have "one_line (bullet v)" using plain_version_text(2) [OF v(1)] by (simp add: one_line_def bullet_def is_line_break_def)
  with lines have "list_all one_line (a @ h # bullet v # splitlines content)" by (simp add: parts)
  then have "list_all one_line ?out" by (rule point_latest_one_line [OF plain_version_text(2) [OF v(1)]])
  moreover have "?out \<noteq> []" by (cases a) simp_all
  ultimately have w: "read_text mike_path (write_text mike_path (join [newline] ?out @ [newline]) fs) = Inr (join [newline] ?out @ [newline])"
      "splitlines (join [newline] ?out @ [newline]) = ?out"
    using written_lines by blast+
  have "mike_lines v (splitlines content) ([], int (length a), -1) = a @ h # bullet v # splitlines content"
    using mike_lines_block [OF block, of v] new by simp
  moreover have "is_latest v (filter (\<lambda>v. v \<noteq> ''latest'') [v]) = Inr True" using v(2) by (simp add: is_latest_def)
  ultimately have "update_mike_yml v fs = (Inr True, write_text mike_path (join [newline] ?out @ [newline]) fs)"
    using read scan_block [OF block]
    by (simp add: update_mike_yml_def Let_def del: filter.simps)
  with w show ?thesis by blast
qed

section \<open>Changelogs\<close>

lemma contains_split: "contains p s \<longleftrightarrow> (\<exists>x y. s = x @ p @ y)"
proof (induction s)
  case (Cons c cs)
  have "starts_with p (c # cs) \<longleftrightarrow> (\<exists>y. c # cs = p @ y)"
    by (metis append_eq_conv_conj starts_with_def append_take_drop_id)
  with Cons show ?case by (auto simp: Cons_eq_append_conv)
qed simp

lemma split_at_header_split: "split_at_header b s = Some (x, y) \<Longrightarrow> s = x @ y"
  by (induction s arbitrary: b x) (auto split: if_splits)

lemma scaffold_inserted:
  assumes i: "insert_changelog_scaffold today path v fs = (Inr ok, fs')"
    and chars: "carriage_return \<notin> set today" "carriage_return \<notin> set v"
  shows "ok \<and> (\<exists>content. read_text path fs' = Inr content \<and> contains (entry_mark v) content)
    \<and> (\<forall>p. p \<noteq> path \<longrightarrow> fs' p = fs p) \<and> insert_changelog_scaffold today path v fs' = (Inr True, fs')"
proof -
  obtain content where c: "read_text path fs = Inr content"
    using i by (auto simp: insert_changelog_scaffold_def split: sum.splits)
  let ?s = "scaffold today v"
  have s: "carriage_return \<notin> set ?s" using chars by (simp add: scaffold_def entry_mark_def)
  have mark: "contains (entry_mark v) (x @ ?s @ y)" for x y
    unfolding contains_split scaffold_def by (metis append.assoc)
  define new where "new = (case split_at_header True content of Some (before, after) \<Rightarrow> before @ ?s @ after
     | None \<Rightarrow> rstrip content @ [newline, newline] @ ?s)"
  have "contains (entry_mark v) new"
  proof (cases "split_at_header True content")
    case None
    then show ?thesis using mark [of "rstrip content @ [newline, newline]" "[]"] by (simp add: new_def)
  next
    case (Some p)
    then show ?thesis using mark by (cases p) (simp add: new_def)
  qed
  moreover have "carriage_return \<notin> set new"
    using read_text_no_cr [OF c] s
    by (auto simp: new_def rstrip_def split: option.splits dest!: split_at_header_split dest: set_dropWhileD)
  then have "read_text path (write_text path new fs) = Inr new" by (rule read_written)
  moreover have "fs' = (if contains (entry_mark v) content then fs else write_text path new fs) \<and> ok"
    using i c by (auto simp: insert_changelog_scaffold_def new_def split: if_splits)
  ultimately show ?thesis using c by (auto simp: insert_changelog_scaffold_def write_text_def)
qed

section \<open>The whole run\<close>

lemma update_mike_frame: "update_mike_yml v fs = (res, fs') \<Longrightarrow> p \<noteq> mike_path \<Longrightarrow> fs' p = fs p"
  by (auto simp: update_mike_yml_def write_text_def Let_def split: sum.splits prod.splits if_splits)

lemma update_versions_frame: "update_versions_json J v fs = (res, fs') \<Longrightarrow> p \<noteq> versions_json_path \<Longrightarrow> fs' p = fs p"
  by (auto simp: update_versions_json_def write_text_def Let_def split: sum.splits if_splits)

lemma read_text_frame: "fs' p = fs p \<Longrightarrow> read_text p fs' = read_text p fs"
  by (simp add: read_text_def)

lemmas release_paths = pyproject_path_def version_module_path_def mike_path_def versions_json_path_def
  changelog_path_def release_notes_path_def

lemma run_updaters_ok:
  "run_updaters (u # us) v (ok, fs) = (True, fs') \<Longrightarrow>
   \<exists>fs1. u v fs = (Inr True, fs1) \<and> run_updaters us v (True, fs1) = (True, fs')"
proof -
  assume run: "run_updaters (u # us) v (ok, fs) = (True, fs')"
  have stuck: "run_updaters us v (False, fs1) \<noteq> (True, fs')" for us fs1
    by (induction us arbitrary: fs1) (simp_all split: prod.splits)
  obtain res fs1 where u: "u v fs = (res, fs1)" by (meson prod.exhaust)
  with run have "run_updaters us v (ok \<and> res = Inr True, fs1) = (True, fs')" by simp
  moreover from this stuck have "ok \<and> res = Inr True" by metis
  ultimately show ?thesis using u by auto
qed

text \<open>What it means that a file carries a version in a field, or an entry for it.\<close>

definition field_reads :: "string \<Rightarrow> string \<Rightarrow> string \<Rightarrow> files \<Rightarrow> bool" where
  "field_reads path name v fs \<longleftrightarrow> (\<exists>content g rest. read_text path fs = Inr content
     \<and> search_field name True content = Some (g, v, rest))"

definition has_entry :: "string \<Rightarrow> string \<Rightarrow> files \<Rightarrow> bool" where
  "has_entry path v fs \<longleftrightarrow> (\<exists>content. read_text path fs = Inr content \<and> contains (entry_mark v) content)"

lemma field_reads_frame: "fs' path = fs path \<Longrightarrow> field_reads path name v fs' = field_reads path name v fs"
  using read_text_frame [of fs' path fs] by (simp add: field_reads_def)

lemma has_entry_frame: "fs' path = fs path \<Longrightarrow> has_entry path v fs' = has_entry path v fs"
  using read_text_frame [of fs' path fs] by (simp add: has_entry_def)

lemma changelogs_updated:
  assumes "update_changelogs today v fs = (Inr True, fs')"
    and chars: "carriage_return \<notin> set today" "carriage_return \<notin> set v"
  shows "has_entry changelog_path v fs'" "has_entry release_notes_path v fs'"
    "p \<noteq> changelog_path \<Longrightarrow> p \<noteq> release_notes_path \<Longrightarrow> fs' p = fs p"
proof -
  obtain fs1 where i: "insert_changelog_scaffold today changelog_path v fs = (Inr True, fs1)"
      "insert_changelog_scaffold today release_notes_path v fs1 = (Inr True, fs')"
    using assms(1) by (auto simp: update_changelogs_def split: prod.splits sum.splits)
  note s1 = scaffold_inserted [OF i(1) chars] and s2 = scaffold_inserted [OF i(2) chars]
  have "changelog_path \<noteq> release_notes_path" by (simp add: release_paths)
  with s2 have "fs' changelog_path = fs1 changelog_path" by blast
  from has_entry_frame [of fs' changelog_path fs1, OF this] s1 show "has_entry changelog_path v fs'" by (simp add: has_entry_def)
  from s2 show "has_entry release_notes_path v fs'" by (simp add: has_entry_def)
  show "p \<noteq> changelog_path \<Longrightarrow> p \<noteq> release_notes_path \<Longrightarrow> fs' p = fs p" using s1 s2 by metis
qed

text \<open>
  C40: a bump that exits with 0 has reached the files: \<open>pyproject.toml\<close> and \<open>guard_agent/_version.py\<close>
  read the new version in their fields, both changelogs have an entry for it, and the argument was
  a version. Running the script on a malformed argument changes nothing.
\<close>

theorem bump_reaches_all_files:
  assumes "bump_main J today argv fs = (code, fs')" and "carriage_return \<notin> set today"
  shows "if length argv = 2 \<and> valid_version (argv ! 1)
    then code = 0 \<longrightarrow> field_reads pyproject_path ''version'' (argv ! 1) fs'
      \<and> field_reads version_module_path ''__version__'' (argv ! 1) fs'
      \<and> has_entry changelog_path (argv ! 1) fs' \<and> has_entry release_notes_path (argv ! 1) fs'
    else code = 1 \<and> fs' = fs"
proof (cases "length argv = 2 \<and> valid_version (argv ! 1)")
  case False
  then have "bump_main J today argv fs = (1, fs)" unfolding bump_main_def Let_def by meson
  with False assms(1) show ?thesis by simp
next
  case True
  let ?v = "argv ! 1"
  note v = valid_version_text [OF conjunct2 [OF True]]
  {
    assume "code = 0"
    then have "run_updaters (updaters J today) ?v (True, fs) = (True, fs')"
      using assms(1) True by (auto simp: bump_main_def Let_def split: prod.splits if_splits)
    then obtain f1 f2 f3 f4 where
      u: "update_pyproject_toml ?v fs = (Inr True, f1)" "update_package_version_module ?v f1 = (Inr True, f2)"
        "update_mike_yml ?v f2 = (Inr True, f3)" "update_versions_json J ?v f3 = (Inr True, f4)"
        "update_changelogs today ?v f4 = (Inr True, fs')"
      unfolding updaters_def by (auto dest!: run_updaters_ok simp del: run_updaters.simps(2))
    note f = update_field_sets(1,2) [OF _ _ v]
    have p: "field_reads pyproject_path ''version'' ?v f1"
      using f [OF u(1) [unfolded update_pyproject_toml_def]] by (simp add: field_reads_def)
    have m: "update_field version_module_path ''__version__'' ?v f1 = (Inr True, f2)"
      using u(2) by (auto simp: update_package_version_module_def split: if_splits)
    have w: "field_reads version_module_path ''__version__'' ?v f2" using f [OF m] by (simp add: field_reads_def)
    note c = changelogs_updated [OF u(5) assms(2) v(2)]
    have kept: "fs' pyproject_path = f1 pyproject_path" "fs' version_module_path = f2 version_module_path"
      using f(2) [OF m] update_mike_frame [OF u(3)] update_versions_frame [OF u(4)] c(3)
      by (simp_all add: release_paths)
    from p w c(1,2) field_reads_frame [of fs' pyproject_path f1, OF kept(1)]
      field_reads_frame [of fs' version_module_path f2, OF kept(2)] have "field_reads pyproject_path ''version'' ?v fs'
      \<and> field_reads version_module_path ''__version__'' ?v fs'
      \<and> has_entry changelog_path ?v fs' \<and> has_entry release_notes_path ?v fs'"
      by simp
  }
  with True show ?thesis by simp
qed

section \<open>Concrete files\<close>

definition text_of :: "string list \<Rightarrow> string" where
  "text_of ls = join [newline] ls @ [newline]"

definition sample_repo :: "string list \<Rightarrow> files" where
  "sample_repo es = [pyproject_path \<mapsto> text_of [''#'', ''version = '' @ [quote] @ ''1.0.0'' @ [quote]],
     version_module_path \<mapsto> text_of [''__version__ = '' @ [quote] @ ''1.0.0'' @ [quote]],
     mike_path \<mapsto> text_of (''versions:'' # es @ [''aliases:'', ''  latest: 1.0.0'']),
     versions_json_path \<mapsto> ''{}'',
     changelog_path \<mapsto> text_of [''News'', ''v1.0.0 (first)''],
     release_notes_path \<mapsto> ''News'']"

definition sample_json :: json_files where
  "sample_json = \<lparr>jf_loads = (\<lambda>_. Inr [(''1.0.0'', ''1.0.0''), (''latest'', ''1.0.0'')]), jf_dumps = (\<lambda>_. ''{}'')\<rparr>"

lemma sample_mike:
  assumes "list_all one_line es" and "list_all (\<lambda>l. carriage_return \<notin> set l) es"
  shows "read_text mike_path (sample_repo es) = Inr (text_of (''versions:'' # es @ [''aliases:'', ''  latest: 1.0.0'']))"
    and "splitlines (text_of (''versions:'' # es @ [''aliases:'', ''  latest: 1.0.0'']))
      = ''versions:'' # es @ [''aliases:'', ''  latest: 1.0.0'']"
proof -
  let ?ls = "''versions:'' # es @ [''aliases:'', ''  latest: 1.0.0'']"
  have "carriage_return \<notin> set (text_of ?ls)"
    using set_join [of carriage_return "[newline]" ?ls] assms(2) by (auto simp: text_of_def list_all_iff)
  then show "read_text mike_path (sample_repo es) = Inr (text_of ?ls)"
    by (simp add: read_text_def sample_repo_def release_paths universal_newlines_def newlines_id)
  have "list_all one_line ?ls" using assms(1) by (simp add: one_line_def is_line_break_def)
  then show "splitlines (text_of ?ls) = ?ls" unfolding text_of_def by (intro splitlines_join) simp_all
qed

lemma sample_version: "plain_version ''1.1.0''" "parse_semver ''1.1.0'' = Inr [1, 1, 0]"
  by code_simp+


theorem empty_block_repeats_file_witness:
  "\<exists>fs' content'. update_mike_yml ''1.1.0'' (sample_repo []) = (Inr True, fs') \<and> read_text mike_path fs' = Inr content'
    \<and> splitlines content' = [''versions:'', ''  - 1.1.0'', ''versions:'', ''aliases:'', ''  latest: 1.1.0'']"
proof -
  have es: "list_all one_line []" "list_all (\<lambda>l. carriage_return \<notin> set l) []" by simp_all
  have block: "mike_block (splitlines (text_of (''versions:'' # [] @ [''aliases:'', ''  latest: 1.0.0''])))
      [] ''versions:'' [] [''aliases:'', ''  latest: 1.0.0'']"
    unfolding sample_mike(2) [OF es] by code_simp
  have "point_latest_at ''1.1.0'' ([] @ ''versions:'' # bullet ''1.1.0'' # ''versions:'' # [] @ [''aliases:'', ''  latest: 1.0.0''])
      = [''versions:'', ''  - 1.1.0'', ''versions:'', ''aliases:'', ''  latest: 1.1.0'']"
    by code_simp
  with empty_block_repeats_file [OF sample_mike(1) [OF es] block sample_version] sample_mike(2) [OF es]
  show ?thesis by (simp del: point_latest_at.simps)
qed

theorem bump_reaches_all_files_witness:
  "\<exists>fs'. bump_main sample_json ''2026-02-02'' [''bump'', ''1.1.0''] (sample_repo [''  - 1.0.0'']) = (0, fs')
    \<and> field_reads pyproject_path ''version'' ''1.1.0'' fs' \<and> has_entry changelog_path ''1.1.0'' fs'"
proof -
  let ?run = "bump_main sample_json ''2026-02-02'' [''bump'', ''1.1.0''] (sample_repo [''  - 1.0.0''])"
  have zero: "fst ?run = 0" by code_simp
  have "valid_version ''1.1.0''" using sample_version(1) by (simp add: plain_version_def)
  moreover have run: "?run = (fst ?run, snd ?run)" by (rule prod.collapse [symmetric])
  ultimately have "field_reads pyproject_path ''version'' ''1.1.0'' (snd ?run) \<and> has_entry changelog_path ''1.1.0'' (snd ?run)"
    using bump_reaches_all_files [OF run] zero by simp
  moreover have "?run = (0, snd ?run)" using run unfolding zero .
  ultimately show ?thesis by blast
qed

end
