(* ===== verification/Delivery.thy ===== *)
theory Delivery
  imports ClientFlush
begin

text \<open>
  Progress: what a working server and an idle transport get delivered. The other facts on sending say
  what a success means and what every run is bounded by; here a batch, a flush and a stop are shown to
  succeed, with exactly the requests that are needed, whenever nothing outside fails.
\<close>

section \<open>Operations that return\<close>

text \<open>\<open>works P m Q\<close>: from every run with \<open>P\<close> the operation returns, raising nothing, in a run with \<open>Q\<close>.\<close>

definition works :: "(run \<Rightarrow> bool) \<Rightarrow> 'a op \<Rightarrow> ('a \<Rightarrow> run \<Rightarrow> bool) \<Rightarrow> bool" where
  "works P m Q \<longleftrightarrow> (\<forall>s. P s \<longrightarrow> (\<exists>x s'. m s = (Inr x, s') \<and> Q x s'))"

lemma worksD:
  assumes "works P m Q" and "P s"
  obtains x s' where "m s = (Inr x, s')" "Q x s'"
  using assms by (auto simp: works_def)

lemma works_bind:
  assumes "works P m Q" and "\<And>x. works (Q x) (f x) R"
  shows "works P (bind_op m f) R"
  unfolding works_def
proof (intro allI impI)
  fix s assume "P s"
  with assms(1) obtain x s1 where 1: "m s = (Inr x, s1)" "Q x s1" by (rule worksD)
  from assms(2) 1(2) obtain y s2 where "f x s1 = (Inr y, s2)" "R y s2" by (rule worksD)
  with 1(1) show "\<exists>y s'. bind_op m f s = (Inr y, s') \<and> R y s'" by (simp add: bind_op_def)
qed

lemma works_catch: "works P m Q \<Longrightarrow> works P (catch_op m h) Q"
  by (fastforce simp: works_def catch_op_def)

lemma works_weaken: "works P m Q \<Longrightarrow> (\<And>s. P' s \<Longrightarrow> P s) \<Longrightarrow> (\<And>x s. Q x s \<Longrightarrow> Q' x s) \<Longrightarrow> works P' m Q'"
  unfolding works_def by meson

lemma works_pure: "(\<And>s. P s \<Longrightarrow> c) \<Longrightarrow> (c \<Longrightarrow> works P m Q) \<Longrightarrow> works P m Q"
  unfolding works_def by meson

section \<open>A transport with room\<close>

text \<open>
  From the time \<open>T\<close> on, the breaker lets calls through (it is not open, or its recovery timeout has
  passed) and the limiter has room for \<open>n\<close> of them. The limit of a transport is 100 calls, also after a
  fork has replaced the limiter.
\<close>

definition room :: "time \<Rightarrow> nat \<Rightarrow> transport \<Rightarrow> bool" where
  "room T n tp \<longleftrightarrow> (cb_state (tp_breaker tp) = Open \<longrightarrow> cb_recovered T (tp_breaker tp)) \<and> n \<le> 100
     \<and> 0 < rl_time_window (tp_limiter tp)
     \<and> int (length (filter (\<lambda>t. T - t < rl_time_window (tp_limiter tp)) (rl_calls (tp_limiter tp))) + n) \<le> rl_max_calls (tp_limiter tp)"

text \<open>The state of a run that matters here: its trace, the dict of the batch, the room left.\<close>

definition stage :: "time \<Rightarrow> effect list \<Rightarrow> pydict \<Rightarrow> nat \<Rightarrow> run \<Rightarrow> bool" where
  "stage T tr d n s \<longleftrightarrow> rn_trace s = tr \<and> rn_data s = d \<and> room T n (rn_transport s)"

text \<open>Every request is answered with an acceptance of the whole batch.\<close>

definition accepting :: "net_result \<Rightarrow> bool" where
  "accepting r \<longleftrightarrow> (\<exists>h v. r = Response h \<and> handle_response h = Inr v \<and> truthy v \<and> \<not> partial_failure v)"

text \<open>
  The outside as it should be: a server that accepts, an HTTP client that can be opened, and other
  tasks that leave the transport its room.
\<close>

definition fair_weather :: "time \<Rightarrow> kit \<Rightarrow> agent_env \<Rightarrow> world \<Rightarrow> bool" where
  "fair_weather T K env w \<longleftrightarrow> (\<forall>i. accepting (wd_reply w i)) \<and> kt_open_client K (client_headers env) = None
     \<and> (\<forall>i n tp. room T n tp \<longrightarrow> room T n (wd_others w i tp)) \<and> 0 \<le> cf_retry_attempts (ae_config env)
     \<and> (\<forall>i. T \<le> wd_clock w i)"

lemma fair_weatherD:
  assumes "fair_weather T K env w"
  shows "accepting (wd_reply w i)" "kt_open_client K (client_headers env) = None"
    "room T n tp \<Longrightarrow> room T n (wd_others w i tp)" "0 \<le> cf_retry_attempts (ae_config env)" "T \<le> wd_clock w i"
  using assms by (simp_all add: fair_weather_def)

lemma works_ask: "works (stage T tr d n) (ask f) (\<lambda>x. stage T tr d n)"
  by (simp add: works_def ask_def stage_def)

lemma works_emit: "works (stage T tr d n) (emit es) (\<lambda>x. stage T (tr @ es) d n)"
  by (simp add: works_def emit_def stage_def)

lemma works_ret: "works (stage T tr d n) (ret x) (\<lambda>y s. y = x \<and> stage T tr d n s)"
  by (simp add: works_def ret_def)

lemma works_modify:
  "(\<And>tp. room T n tp \<Longrightarrow> room T n (f tp)) \<Longrightarrow> works (stage T tr d n) (modify_transport f) (\<lambda>x. stage T tr d n)"
  by (simp add: works_def modify_transport_def stage_def)

lemma room_frame [simp]:
  "room T n (tp\<lparr>tp_client := c\<rparr>) = room T n tp" "room T n (tp\<lparr>tp_requests_sent := i\<rparr>) = room T n tp"
  "room T n (tp\<lparr>tp_requests_failed := i\<rparr>) = room T n tp" "room T n (tp\<lparr>tp_bytes_sent := i\<rparr>) = room T n tp"
  by (simp_all add: room_def)

lemma room_reset: "room T n tp \<Longrightarrow> room T n (reset_after_fork pid tp)"
  by (simp add: room_def reset_after_fork_def circuit_breaker_init_def rate_limiter_init_def)

lemma rl_acquire_room:
  assumes room: "int (length (filter (\<lambda>t. T - t < rl_time_window rl) (rl_calls rl)) + Suc n) \<le> rl_max_calls rl"
    and "T \<le> now" "0 < rl_time_window rl"
  obtains rl' where "rl_acquire now rl = (True, rl')" "rl_time_window rl' = rl_time_window rl"
    "int (length (filter (\<lambda>t. T - t < rl_time_window rl') (rl_calls rl')) + n) \<le> rl_max_calls rl'"
proof -
  let ?live = "filter (\<lambda>t. now - t < rl_time_window rl) (rl_calls rl)"
  have "?live = filter (\<lambda>t. now - t < rl_time_window rl) (filter (\<lambda>t. T - t < rl_time_window rl) (rl_calls rl))"
    using assms(2) by (auto simp: filter_filter intro: filter_cong)
  then have len: "length ?live \<le> length (filter (\<lambda>t. T - t < rl_time_window rl) (rl_calls rl))" by (metis length_filter_le)
  have "length (filter (\<lambda>t. T - t < rl_time_window rl) (?live @ [now])) \<le> length (?live @ [now])"
    by (rule length_filter_le)
  with len room assms(2,3) that [of "rl\<lparr>rl_calls := ?live @ [now]\<rparr>"] show thesis by (simp add: rl_acquire_def Let_def)
qed

lemma works_limiter:
  assumes "fair_weather T K env w"
  shows "works (stage T tr d (Suc n)) (limiter_acquire w) (\<lambda>ok s. ok \<and> stage T tr d n s)"
  unfolding works_def
proof (intro allI impI)
  fix s assume s: "stage T tr d (Suc n) s"
  obtain rl' where rl: "rl_acquire (wd_clock w (rn_tick s)) (tp_limiter (rn_transport s)) = (True, rl')"
      "rl_time_window rl' = rl_time_window (tp_limiter (rn_transport s))"
      "int (length (filter (\<lambda>t. T - t < rl_time_window rl') (rl_calls rl')) + n) \<le> rl_max_calls rl'"
    by (rule rl_acquire_room [where T = T and rl = "tp_limiter (rn_transport s)" and n = n and now = "wd_clock w (rn_tick s)"])
      (use s fair_weatherD(5) [OF assms] in \<open>auto simp: stage_def room_def\<close>)
  with s show "\<exists>x s'. limiter_acquire w s = (Inr x, s') \<and> x \<and> stage T tr d n s'"
    by (intro exI [of _ True]) (simp add: limiter_acquire_def bind_op_def ask_def get_transport_def modify_transport_def ret_def stage_def room_def)
qed

lemma works_ensure_client:
  assumes "fair_weather T K env w"
  shows "works (stage T tr d n) (ensure_client K env w) (\<lambda>_. stage T tr d n)"
  unfolding works_def
proof (intro allI impI)
  fix s assume "stage T tr d n s"
  then show "\<exists>x s'. ensure_client K env w s = (Inr x, s') \<and> stage T tr d n s'"
    using fair_weatherD(2) [OF assms] room_reset
    by (auto simp: ensure_client_def initialize_def bind_op_def ask_def get_transport_def modify_transport_def ret_def
        throw_def stage_def)
qed

lemma works_http:
  assumes "fair_weather T K env w"
  shows "works (stage T tr d n) (http_op w request) (\<lambda>h s. accepting (Response h) \<and> stage T (tr @ [request, Replied (Response h)]) d n s)"
  unfolding works_def
proof (intro allI impI)
  fix s assume s: "stage T tr d n s"
  obtain h where h: "wd_reply w (rn_tick s) = Response h" "accepting (Response h)"
    using fair_weatherD(1) [OF assms, of "rn_tick s"] by (auto simp: accepting_def)
  have "room T n (rn_transport s)" using s by (simp add: stage_def)
  then have "room T n (wd_others w (Suc (rn_tick s)) (rn_transport s))" by (rule fair_weatherD(3) [OF assms])
  with s h show "\<exists>x s'. http_op w request s = (Inr x, s') \<and> accepting (Response x) \<and> stage T (tr @ [request, Replied (Response x)]) d n s'"
    by (simp add: http_op_def bind_op_def emit_def ask_def suspend_def of_result_def net_exn_def stage_def)
qed

section \<open>One batch\<close>

text \<open>
  What can be posted: the redacted dict can be encoded, and encrypted first if its endpoint asks for
  it. Whether that is so is up to the data and pydantic's encoding of it.
\<close>

definition postable :: "kit \<Rightarrow> agent_env \<Rightarrow> string \<Rightarrow> pydict \<Rightarrow> bool" where
  "postable K env endpoint d \<longleftrightarrow> d \<noteq> [] \<and>
     (if is_encrypted_target env ''POST'' endpoint d
      then \<exists>key payload. ae_encryptor env = Some key \<and> build_encrypted_payload d = Inr payload
        \<and> (\<forall>nonce. \<exists>ct t. encrypt_payload (kt_crypt K) key nonce (PDict payload) None = Inr ct
             \<and> kt_dumps K (encrypted_data env ct d) = Inr t)
      else \<exists>t. kt_dumps K d = Inr t)"

definition sendable_dict :: "kit \<Rightarrow> agent_env \<Rightarrow> string \<Rightarrow> pydict \<Rightarrow> bool" where
  "sendable_dict K env endpoint d \<longleftrightarrow> d \<noteq> [] \<and>
     (\<exists>d'. redact_sensitive_headers K (ae_config env) d = Inr d' \<and> postable K env endpoint d')"

text \<open>The trace of one accepted request.\<close>

definition accepted_request :: "effect list \<Rightarrow> bool" where
  "accepted_request es \<longleftrightarrow> (\<exists>url body hs pd h. es = [Posted url body hs pd, Replied (Response h)] \<and> accepting (Response h))"

definition good_value :: "pyval \<Rightarrow> bool" where
  "good_value v \<longleftrightarrow> truthy v \<and> \<not> partial_failure v"

definition replied_stage :: "time \<Rightarrow> effect list \<Rightarrow> nat \<Rightarrow> pyval \<Rightarrow> run \<Rightarrow> bool" where
  "replied_stage T tr n v s \<longleftrightarrow> good_value v \<and> (\<exists>es d. accepted_request es \<and> stage T (tr @ es) d n s)"

lemma works_verdict:
  "works (\<lambda>s. accepting (Response h) \<and> stage T (tr @ [Posted url body hs pd, Replied (Response h)]) d n s)
     (of_result (handle_response h)) (replied_stage T tr n)"
  unfolding works_def
proof (intro allI impI)
  fix s assume s: "accepting (Response h) \<and> stage T (tr @ [Posted url body hs pd, Replied (Response h)]) d n s"
  then obtain v where "handle_response h = Inr v" "good_value v" by (auto simp: accepting_def good_value_def)
  moreover from s have "accepted_request [Posted url body hs pd, Replied (Response h)]" by (auto simp: accepted_request_def)
  ultimately show "\<exists>v s'. of_result (handle_response h) s = (Inr v, s') \<and> replied_stage T tr n v s'"
    using s by (auto simp: of_result_def replied_stage_def)
qed

lemma works_post_json:
  assumes fair: "fair_weather T K env w" and t: "kt_dumps K pd = Inr t"
  shows "works (stage T tr d n) (post_json K env w stg url pd) (replied_stage T tr n)"
proof -
  obtain body hs where b: "build_post_body K (ae_config env) t = (body, hs)" by fastforce
  have "works (stage T tr d n)
     (bind_op (modify_transport (\<lambda>tp. tp\<lparr>tp_bytes_sent := tp_bytes_sent tp + int (length body)\<rparr>)) (\<lambda>_.
      bind_op (http_op w (Posted url body hs pd)) (\<lambda>response. of_result (handle_response response))))
     (replied_stage T tr n)"
    by (rule works_bind [OF works_modify]) (simp, rule works_bind [OF works_http [OF fair]], rule works_verdict)
  then show ?thesis using t b by (simp add: post_json_def safe_json_serialize_def)
qed

lemma works_dispatch:
  assumes fair: "fair_weather T K env w" and d: "postable K env endpoint d"
  shows "works (stage T tr d n) (dispatch_request K env w ''POST'' endpoint url d) (replied_stage T tr n)"
proof (cases "is_encrypted_target env ''POST'' endpoint d")
  case True
  with d obtain key payload where p: "ae_encryptor env = Some key" "build_encrypted_payload d = Inr payload"
      "\<And>nonce. \<exists>ct t. encrypt_payload (kt_crypt K) key nonce (PDict payload) None = Inr ct
         \<and> kt_dumps K (encrypted_data env ct d) = Inr t"
    by (auto simp: postable_def)
  have "works (stage T tr d n)
     (bind_op (of_result (encrypt_payload (kt_crypt K) key nonce (PDict payload) None)) (\<lambda>ct.
      post_json K env w ''encryption'' (encrypted_url env) (encrypted_data env ct d))) (replied_stage T tr n)" for nonce
  proof -
    obtain ct t where ct: "encrypt_payload (kt_crypt K) key nonce (PDict payload) None = Inr ct"
        "kt_dumps K (encrypted_data env ct d) = Inr t"
      using p(3) by blast
    from works_post_json [OF fair ct(2)] ct(1) show ?thesis by (simp add: works_def bind_op_def of_result_def)
  qed
  then have "works (stage T tr d n) (post_encrypted K env w d) (replied_stage T tr n)"
    unfolding post_encrypted_def p(1) option.case p(2)
    by (simp add: works_def bind_op_def of_result_def ask_def stage_def)
  with True d show ?thesis by (simp add: dispatch_request_def postable_def)
next
  case False
  with d obtain t where "kt_dumps K d = Inr t" by (auto simp: postable_def)
  from works_post_json [OF fair this] False d show ?thesis
    by (simp add: dispatch_request_def post_unencrypted_def postable_def)
qed

lemma works_make_request:
  assumes fair: "fair_weather T K env w" and d: "sendable_dict K env endpoint d"
  shows "works (stage T tr d n) (make_request K env w ''POST'' endpoint) (replied_stage T tr n)"
proof -
  obtain d' where d': "d \<noteq> []" "redact_sensitive_headers K (ae_config env) d = Inr d'" "postable K env endpoint d'"
    using d by (auto simp: sendable_dict_def)
  have "works (stage T tr d n)
    (bind_op get_data (\<lambda>data.
     bind_op (if data = [] then ret [] else of_result (redact_sensitive_headers K (ae_config env) data)) (\<lambda>data'.
     bind_op (put_data data') (\<lambda>_.
     dispatch_request K env w ''POST'' endpoint (endpoint_base env @ endpoint) data')))) (replied_stage T tr n)"
    using works_dispatch [OF fair d'(3), of tr n "endpoint_base env @ endpoint"] d'(1,2)
    by (simp add: works_def bind_op_def get_data_def put_data_def of_result_def stage_def)
  then show ?thesis unfolding make_request_def by (rule works_bind [OF works_ensure_client [OF fair]])
qed

lemma room_settle: "room T n tp \<Longrightarrow> room T n (tp\<lparr>tp_breaker := cb_settle t (Inr v) (tp_breaker tp)\<rparr>)"
  by (simp add: room_def cb_settle_def cb_on_success_def)

lemma admit_room:
  assumes "room T n tp" and "T \<le> now"
  obtains cb where "cb_admit now (tp_breaker tp) = (Inr (), cb)" "room T n (tp\<lparr>tp_breaker := cb\<rparr>)"
proof -
  have "cb_state (tp_breaker tp) = Open \<Longrightarrow> cb_recovered now (tp_breaker tp)"
    using assms by (auto simp: room_def cb_recovered_def split: option.splits)
  with assms(1) that show thesis by (cases "cb_state (tp_breaker tp) = Open") (auto simp: cb_admit_def room_def)
qed

lemma works_breaker:
  assumes fair: "fair_weather T K env w" and "works (stage T tr d n) m (replied_stage T tr n)"
  shows "works (stage T tr d n) (breaker_call w m) (replied_stage T tr n)"
  unfolding works_def
proof (intro allI impI)
  fix s assume s: "stage T tr d n s"
  obtain cb where cb: "cb_admit (wd_clock w (rn_tick s)) (tp_breaker (rn_transport s)) = (Inr (), cb)"
      "room T n ((rn_transport s)\<lparr>tp_breaker := cb\<rparr>)"
    using s fair_weatherD(5) [OF fair] by (auto simp: stage_def elim: admit_room)
  let ?s1 = "s\<lparr>rn_tick := Suc (rn_tick s), rn_transport := (rn_transport s)\<lparr>tp_breaker := cb\<rparr>\<rparr>"
  have "stage T tr d n ?s1" using s cb(2) by (simp add: stage_def)
  with assms(2) obtain v s2 where m: "m ?s1 = (Inr v, s2)" "replied_stage T tr n v s2" by (rule worksD)
  let ?s3 = "s2\<lparr>rn_tick := Suc (rn_tick s2)\<rparr>"
  have "replied_stage T tr n v (?s3\<lparr>rn_transport := if tp_generation (rn_transport s2) = tp_generation (rn_transport s)
      then (rn_transport s2)\<lparr>tp_breaker := cb_settle t (Inr v) (tp_breaker (rn_transport s2))\<rparr> else rn_transport s2\<rparr>)" for t
    using m(2) room_settle by (auto simp: replied_stage_def stage_def)
  with m(1) cb(1) show "\<exists>x s'. breaker_call w m s = (Inr x, s') \<and> replied_stage T tr n x s'"
    by (auto simp: breaker_call_def bind_op_def ask_def get_transport_def modify_transport_def always_op_def of_result_def)
qed

lemma works_evaluate:
  "works (replied_stage T tr n v) (evaluate_send_result v)
     (\<lambda>outcome s. outcome = Some True \<and> (\<exists>es d. accepted_request es \<and> stage T (tr @ es) d n s))"
  unfolding works_def
  by (auto simp: replied_stage_def good_value_def evaluate_send_result_def count_sent_def bind_op_def
      modify_transport_def ret_def stage_def)

text \<open>One attempt is enough.\<close>

lemma works_send_with_retry:
  assumes fair: "fair_weather T K env w" and d: "sendable_dict K env endpoint d"
  shows "works (\<lambda>s. rn_trace s = tr \<and> room T (Suc n) (rn_transport s)) (send_with_retry K env w endpoint d data_type)
     (\<lambda>ok s. ok \<and> (\<exists>es d. accepted_request es \<and> stage T (tr @ es) d n s))"
proof -
  have "works (stage T tr d (Suc n)) (send_attempt K env w endpoint data_type 0)
     (\<lambda>outcome s. outcome = Some True \<and> (\<exists>es d. accepted_request es \<and> stage T (tr @ es) d n s))"
    unfolding send_attempt_def
  proof (rule works_catch, rule works_bind [OF works_limiter [OF fair]])
    fix ok
    show "works (\<lambda>s. ok \<and> stage T tr d n s)
       (if \<not> ok then bind_op (limiter_retry_after w) (\<lambda>retry_after. bind_op (sleep_op w LimiterWait (Fin retry_after)) (\<lambda>_. ret None))
        else bind_op (breaker_call w (make_request K env w ''POST'' endpoint)) evaluate_send_result)
       (\<lambda>outcome s. outcome = Some True \<and> (\<exists>es d. accepted_request es \<and> stage T (tr @ es) d n s))"
    proof (rule works_pure)
      assume ok
      with works_bind [OF works_breaker [OF fair works_make_request [OF fair d]] works_evaluate]
      show ?thesis by simp
    qed simp
  qed
  note attempt = this
  obtain rest where rest: "attempt_numbers env = 0 # rest"
    using fair_weatherD(4) [OF fair] by (simp add: attempt_numbers_def upt_rec)
  show ?thesis
    unfolding works_def
  proof (intro allI impI)
    fix s :: run assume s: "rn_trace s = tr \<and> room T (Suc n) (rn_transport s)"
    then have "stage T tr d (Suc n) (s\<lparr>rn_data := d\<rparr>)" by (simp add: stage_def)
    with attempt obtain outcome s' where "send_attempt K env w endpoint data_type 0 (s\<lparr>rn_data := d\<rparr>) = (Inr outcome, s')"
        "outcome = Some True \<and> (\<exists>es d. accepted_request es \<and> stage T (tr @ es) d n s')"
      by (rule worksD)
    then show "\<exists>ok s'. send_with_retry K env w endpoint d data_type s = (Inr ok, s')
        \<and> ok \<and> (\<exists>es d. accepted_request es \<and> stage T (tr @ es) d n s')"
      by (intro exI [of _ True] exI [of _ s']) (simp add: send_with_retry_def rest bind_op_def put_data_def ret_def)
  qed
qed

text \<open>The batches of some items can be posted, under any id and time.\<close>

definition sendable :: "kit \<Rightarrow> agent_env \<Rightarrow> 'a send_kind \<Rightarrow> 'a list \<Rightarrow> bool" where
  "sendable K env k items \<longleftrightarrow> (\<forall>batch_id created_at.
     sendable_dict K env (sk_endpoint k) (kt_dump_batch K (sk_batch k (ae_config env) items batch_id created_at)))"

lemma batch_is_sent:
  assumes fair: "fair_weather T K env w" and d: "sendable K env k items" and items: "items \<noteq> []"
    and room: "room T (Suc n) (rn_transport s)"
  shows "\<exists>es s'. send_items K env w k items s = (Inr True, s') \<and> accepted_request es
    \<and> rn_trace s' = rn_trace s @ es @ [Settled (map (sk_item k) items)] \<and> room T n (rn_transport s')"
proof -
  let ?d = "kt_dump_batch K (sk_batch k (ae_config env) items (wd_batch_id w (rn_tick s)) (wd_timestamp w (Suc (rn_tick s))))"
  let ?s2 = "s\<lparr>rn_tick := Suc (Suc (rn_tick s))\<rparr>"
  have "sendable_dict K env (sk_endpoint k) ?d" using d by (simp add: sendable_def)
  note works_send_with_retry [OF fair this, of "rn_trace s" n "sk_data_type k"]
  moreover have "rn_trace ?s2 = rn_trace s \<and> room T (Suc n) (rn_transport ?s2)" using room by simp
  ultimately obtain ok s' where "send_with_retry K env w (sk_endpoint k) ?d (sk_data_type k) ?s2 = (Inr ok, s')"
      "ok \<and> (\<exists>es d. accepted_request es \<and> stage T (rn_trace s @ es) d n s')"
    by (rule worksD)
  then show ?thesis
    using items by (auto simp: send_items.simps [of K env w k items] catch_op_def bind_op_def ask_def emit_def ret_def stage_def)
qed

section \<open>One flush\<close>

context flush_buffer_contract
begin

text \<open>A flush that is due, with a transport that succeeds and a confirmation that is not cancelled.\<close>

lemma flush_sends:
  assumes inv: "inv b" and due: "ls_retry_after (fo_stats F b) \<le> now"
    and confirmed: "\<And>ks ks' b'. fo_drain F now b = (xs, ks', b') \<Longrightarrow> fst (fo_confirm F ks b') \<noteq> Inl CancelledError"
    and xs: "xs = queue b" and send: "if xs = [] then s' = s else send (map snd xs) s = (Inr True, s')"
  obtains b' where "flush_lane F c now now' send id b s = (Inr (), b', s', [])" "queue b' = []" "inv b'"
    "ls_sent (fo_stats F b') = ls_sent (fo_stats F b) + int (length xs)"
proof -
  obtain ks b1 where d: "fo_drain F now b = (xs, ks, b1)" using drain [OF inv] xs by (metis prod_cases3)
  note facts = drain [OF inv d]
  have begin': "flush_begin F now b = (if xs = [] then None else Some (xs, ks), b1)"
    using due d by (simp add: flush_begin_def)
  show thesis
  proof (cases "xs = []")
    case True
    with begin' facts send show ?thesis by (intro that [of b1]) (simp_all add: flush_lane_def)
  next
    case False
    obtain res b2 calls where e: "flush_end F c now' (Inr True) xs ks b1 = (res, b2, calls)" by (metis prod_cases3)
    have inv1: "inv b1" using facts by simp
    have "res \<noteq> Inl CancelledError" "calls = []"
      using e confirmed [OF d, of ks] by (auto simp: flush_end_def split: prod.splits sum.splits)
    with end_sent [OF inv1 e] facts have "res = Inr ()" "queue b2 = []" "inv b2"
        "fo_stats F b2 = stats_sent (length xs) (fo_stats F b)" by simp_all
    with False begin' send e \<open>calls = []\<close> show ?thesis
      by (intro that [of b2]) (simp_all add: flush_lane_def stats_sent_def)
  qed
qed

end

text \<open>Redis, if there is any, does not cancel the task that deletes a record.\<close>

definition redis_confirms :: "('e, 'm, 'r) client \<Rightarrow> bool" where
  "redis_confirms cl \<longleftrightarrow> (\<forall>h. bf_redis (fst (cl_buffer cl)) = Some h \<longrightarrow> (\<forall>ns k r. fst (rh_delete h ns k r) \<noteq> Inl CancelledError))"

lemma confirm_keys_calm:
  assumes "\<And>h ns k r. R = Some h \<Longrightarrow> fst (rh_delete h ns k r) \<noteq> Inl CancelledError"
  shows "fst (confirm_keys R ns ks r) \<noteq> Inl CancelledError"
  using assms
proof (induction R ns ks r rule: confirm_keys.induct)
  case (3 h ns key keys r)
  show ?case
  proof (cases "rh_delete h ns key r")
    case (Pair res r')
    with 3 have "res \<noteq> Inl CancelledError" by (metis fst_conv)
    with 3 Pair show ?thesis by (auto simp: not_catchable split: sum.splits)
  qed
qed simp_all

text \<open>The two lanes are independent: a flush of events leaves the metrics alone.\<close>

definition metric_view :: "('e, 'm, 'r) client \<Rightarrow> _" where
  "metric_view cl = (bf_metrics (fst (cl_buffer cl)), bf_config (fst (cl_buffer cl)), bf_redis (fst (cl_buffer cl)),
     cl_metrics cl, cl_config cl)"

lemma event_flush_metric_view:
  assumes "flush_lane event_flush_ops c now now' send id cl s = (res, cl', s', calls)"
  shows "metric_view cl' = metric_view cl"
proof -
  have ops: "fo_drain event_flush_ops now cl = (xs, ks, cl') \<Longrightarrow> metric_view cl' = metric_view cl"
    "fo_confirm event_flush_ops ks cl = (r, cl') \<Longrightarrow> metric_view cl' = metric_view cl"
    "fo_requeue event_flush_ops xs ks cl = (rs, cl') \<Longrightarrow> metric_view cl' = metric_view cl"
    "metric_view (fo_set_stats event_flush_ops st cl) = metric_view cl" for now xs ks cl cl' r rs st
    by (auto simp: event_flush_ops_def metric_view_def flush_events_with_keys_def confirm_event_redis_keys_def
        requeue_events_in_memory_def split: prod.splits)
  show ?thesis
    by (rule flush_lane_view [where V = metric_view, OF _ _ _ _ _ assms]) (erule ops(1-3) | rule ops(4) | simp)+
qed

lemma settled_accepted [simp]:
  "accepted_request es \<Longrightarrow> settled_items es = []" "accepted_request es \<Longrightarrow> requests es = 1"
  by (auto simp: accepted_request_def requests_def)

text \<open>Sending the items of a lane, if there are any.\<close>

lemma lane_sent:
  assumes "fair_weather T K env w" and "xs \<noteq> [] \<longrightarrow> sendable K env k (map snd xs)" and "room T (Suc n) (rn_transport s)"
  obtains es s' where "if xs = [] then s' = s else send_items K env w k (map snd xs) s = (Inr True, s')"
    "rn_trace s' = rn_trace s @ es" "settled_items es = map (sk_item k \<circ> snd) xs" "requests es \<le> 1" "room T n (rn_transport s')"
proof (cases "xs = []")
  case True
  with assms(3) show thesis by (intro that [of s "[]"]) (simp_all add: room_def requests_def)
next
  case False
  with assms(2) have "sendable K env k (map snd xs)" "map snd xs \<noteq> []" by simp_all
  from batch_is_sent [OF assms(1) this assms(3)] obtain es s' where
      "send_items K env w k (map snd xs) s = (Inr True, s')" "accepted_request es"
      "rn_trace s' = rn_trace s @ es @ [Settled (map (sk_item k) (map snd xs))]" "room T n (rn_transport s')" by blast
  with False show thesis by (intro that [of s' "es @ [Settled (map (sk_item k) (map snd xs))]"])
      (simp_all add: settled_accepted(2) [unfolded requests_def])
qed

text \<open>The confirmations after a drain are those of the same Redis handler.\<close>

lemma event_confirm_calm:
  assumes "redis_confirms cl" and "fo_drain event_flush_ops now cl = (xs, ks', cl')"
  shows "fst (fo_confirm event_flush_ops ks cl') \<noteq> Inl CancelledError"
proof -
  obtain B r where B: "cl_buffer cl = (B, r)" by fastforce
  then obtain B' where "cl_buffer cl' = (B', r)" "bf_redis B' = bf_redis B"
    using assms(2) by (auto simp: event_flush_ops_def flush_events_with_keys_def split: prod.splits)
  then show ?thesis
    using confirm_keys_calm [of "bf_redis B" "''agent_events''" ks r] assms(1) B
    by (auto simp: event_flush_ops_def confirm_event_redis_keys_def redis_confirms_def split: prod.splits)
qed

lemma metric_confirm_calm:
  assumes "redis_confirms cl" and "fo_drain metric_flush_ops now cl = (xs, ks', cl')"
  shows "fst (fo_confirm metric_flush_ops ks cl') \<noteq> Inl CancelledError"
proof -
  obtain B r where B: "cl_buffer cl = (B, r)" by fastforce
  then obtain B' where "cl_buffer cl' = (B', r)" "bf_redis B' = bf_redis B"
    using assms(2) by (auto simp: metric_flush_ops_def flush_metrics_with_keys_def split: prod.splits)
  then show ?thesis
    using confirm_keys_calm [of "bf_redis B" "''agent_metrics''" ks r] assms(1) B
    by (auto simp: metric_flush_ops_def confirm_metric_redis_keys_def redis_confirms_def split: prod.splits)
qed

lemma metric_view_facts:
  assumes "metric_view cl' = metric_view cl"
  shows "metric_queue cl' = metric_queue cl" "metrics_wf cl' = metrics_wf cl" "cl_metrics cl' = cl_metrics cl"
    "cl_config cl' = cl_config cl" "redis_confirms cl' = redis_confirms cl"
  using assms
  by (auto simp: metric_view_def metric_queue_def metrics_wf_def redis_confirms_def buffer_maxlen_def split: prod.splits)

definition queues_sendable :: "kit \<Rightarrow> agent_env \<Rightarrow> (security_event, security_metric, 'r) client \<Rightarrow> bool" where
  "queues_sendable K env cl \<longleftrightarrow>
     (event_queue cl \<noteq> [] \<longrightarrow> sendable K env events_kind (map snd (event_queue cl)))
   \<and> (metric_queue cl \<noteq> [] \<longrightarrow> sendable K env metrics_kind (map snd (metric_queue cl)))"

lemma event_queue_metrics [simp]: "event_queue (cl\<lparr>cl_metrics := st\<rparr>) = event_queue cl"
  by (simp add: event_queue_def)

text \<open>A flush of metrics leaves the events alone.\<close>

definition event_view :: "('e, 'm, 'r) client \<Rightarrow> _" where
  "event_view cl = (bf_events (fst (cl_buffer cl)), bf_config (fst (cl_buffer cl)), bf_redis (fst (cl_buffer cl)), cl_events cl)"

lemma metric_flush_event_view:
  assumes "flush_lane metric_flush_ops c now now' send id cl s = (res, cl', s', calls)"
  shows "event_view cl' = event_view cl"
proof -
  have ops: "fo_drain metric_flush_ops now cl = (xs, ks, cl') \<Longrightarrow> event_view cl' = event_view cl"
    "fo_confirm metric_flush_ops ks cl = (r, cl') \<Longrightarrow> event_view cl' = event_view cl"
    "fo_requeue metric_flush_ops xs ks cl = (rs, cl') \<Longrightarrow> event_view cl' = event_view cl"
    "event_view (fo_set_stats metric_flush_ops st cl) = event_view cl" for now xs ks cl cl' r rs st
    by (auto simp: metric_flush_ops_def event_view_def flush_metrics_with_keys_def confirm_metric_redis_keys_def
        requeue_metrics_in_memory_def split: prod.splits)
  show ?thesis
    by (rule flush_lane_view [where V = event_view, OF _ _ _ _ _ assms]) (erule ops(1-3) | rule ops(4) | simp)+
qed

lemma event_view_facts:
  assumes "event_view cl' = event_view cl"
  shows "event_queue cl' = event_queue cl" "events_wf cl' = events_wf cl" "cl_events cl' = cl_events cl"
    "redis_confirms cl' = redis_confirms cl"
  using assms
  by (auto simp: event_view_def event_queue_def events_wf_def redis_confirms_def buffer_maxlen_def split: prod.splits)

lemma flush_delivers:
  assumes fair: "fair_weather T K env w" and wf: "events_wf cl" "metrics_wf cl" and redis: "redis_confirms cl"
    and due: "ls_retry_after (cl_events cl) \<le> clock ! 0" "ls_retry_after (cl_metrics cl) \<le> clock ! 2"
    and ok: "queues_sendable K env cl" and room: "room T 2 (rn_transport s)"
  obtains cl' s' es where "flush_buffer K env w clock id id cl s = (Inr (), cl', s', [])"
    "event_queue cl' = []" "metric_queue cl' = []" "rn_trace s' = rn_trace s @ es" "requests es \<le> 2"
    "settled_items es = map (ItemEvent \<circ> snd) (event_queue cl) @ map (ItemMetric \<circ> snd) (metric_queue cl)"
    "ls_sent (cl_events cl') = ls_sent (cl_events cl) + int (length (event_queue cl))"
    "ls_sent (cl_metrics cl') = ls_sent (cl_metrics cl) + int (length (metric_queue cl))"
proof -
  have sendable: "event_queue cl \<noteq> [] \<longrightarrow> sendable K env events_kind (map snd (event_queue cl))"
    "metric_queue cl \<noteq> [] \<longrightarrow> sendable K env metrics_kind (map snd (metric_queue cl))"
    using ok by (simp_all add: queues_sendable_def)
  obtain es1 s1 where 1: "if event_queue cl = [] then s1 = s
      else send_items K env w events_kind (map snd (event_queue cl)) s = (Inr True, s1)"
    "rn_trace s1 = rn_trace s @ es1" "settled_items es1 = map (sk_item events_kind \<circ> snd) (event_queue cl)"
    "requests es1 \<le> 1" "room T 1 (rn_transport s1)"
    by (rule lane_sent [OF fair sendable(1) room [unfolded numeral_2_eq_2]]) simp
  obtain cl1 where f1: "flush_lane event_flush_ops (cl_config cl) (clock ! 0) (clock ! 1) (send_events K env w) id cl s = (Inr (), cl1, s1, [])"
      "event_queue cl1 = []" "ls_sent (cl_events cl1) = ls_sent (cl_events cl) + int (length (event_queue cl))"
    by (rule ev.flush_sends [of cl "clock ! 0" "event_queue cl" s1 s "send_events K env w" "cl_config cl" "clock ! 1"])
       (use wf(1) due(1) 1(1) redis in \<open>simp_all add: event_flush_ops_def send_events_def
          event_confirm_calm [unfolded event_flush_ops_def, simplified]\<close>)
  note view = metric_view_facts [OF event_flush_metric_view [OF f1(1)]]
  obtain es2 s2 where 2: "if metric_queue cl = [] then s2 = s1
      else send_items K env w metrics_kind (map snd (metric_queue cl)) s1 = (Inr True, s2)"
    "rn_trace s2 = rn_trace s1 @ es2" "settled_items es2 = map (sk_item metrics_kind \<circ> snd) (metric_queue cl)"
    "requests es2 \<le> 1" "room T 0 (rn_transport s2)"
    by (rule lane_sent [OF fair sendable(2) 1(5) [unfolded One_nat_def]])
  obtain cl2 where f2: "flush_lane metric_flush_ops (cl_config cl) (clock ! 2) (clock ! 3) (send_metrics K env w) id cl1 s1 = (Inr (), cl2, s2, [])"
      "metric_queue cl2 = []" "ls_sent (cl_metrics cl2) = ls_sent (cl_metrics cl) + int (length (metric_queue cl))"
    by (rule mt.flush_sends [of cl1 "clock ! 2" "metric_queue cl" s2 s1 "send_metrics K env w" "cl_config cl" "clock ! 3"])
       (use wf(2) due(2) 2(1) view redis in \<open>simp_all add: metric_flush_ops_def send_metrics_def
          metric_confirm_calm [unfolded metric_flush_ops_def, simplified]\<close>)
  from event_view_facts [OF metric_flush_event_view [OF f2(1)]] f1 f2 1 2 show thesis
    by (intro that [of cl2 s2 "es1 @ es2"]) (simp_all add: flush_buffer_def events_kind_def metrics_kind_def)
qed

section \<open>What is guaranteed\<close>


section \<open>Concrete runs\<close>

lemma sample_weather:
  "0 \<le> cf_retry_attempts (ae_config env) \<Longrightarrow> fair_weather 500 sample_kit env (sample_world (status_reply 201))"
  by (simp add: fair_weather_def accepting_def sample_simps handle_response_def partial_failure_def Let_def)

lemma sample_postable: "\<not> ae_encryption_enabled env \<Longrightarrow> sendable sample_kit env k items"
  by (simp add: sendable_def sendable_dict_def postable_def sample_kit_def redact_sensitive_headers_def
      redact_field_def redact_entry_def dict_get_def sanitize_headers_def sanitize_value_eval max_sanitize_depth_def
      is_encrypted_target_def)

lemma sample_fair: "fair_weather 500 sample_kit sample_env (sample_world (status_reply 201))"
  by (rule sample_weather) (simp add: sample_env_def default_config_def)

lemma sample_sendable: "sendable sample_kit sample_env k items"
  by (rule sample_postable) (simp add: sample_env_def)

lemma sample_room: "n \<le> 100 \<Longrightarrow> room T n (rn_transport sample_run)"
  by (simp add: room_def sample_run_def circuit_breaker_init_def rate_limiter_init_def)


end
