(* ===== verification/Shutdown.thy ===== *)
theory Shutdown
  imports Lifecycle Delivery
begin

text \<open>
  A graceful shutdown: what is buffered when \<open>stop\<close> is called gets delivered by its last flush when the
  outside works. The facts of Lifecycle say what a stop leaves behind in general; here it is shown that
  nothing is left behind in memory when nothing fails.
\<close>

text \<open>The client as the last flush finds it: the tasks have ended, the buffer's loop is stopped.\<close>

definition stopping_client :: "'r stop_env \<Rightarrow> (security_event, security_metric, 'r) handler
   \<Rightarrow> (security_event, security_metric, 'r) client" where
  "stopping_client E h = hn_client (se_tasks E (h\<lparr>hn_running := False\<rparr>))"

text \<open>Nothing interferes with the last flush: no cancellation, no task at work on the client.\<close>

definition undisturbed :: "'r stop_env \<Rightarrow> bool" where
  "undisturbed E \<longleftrightarrow> calm E \<and> \<not> se_gather E \<and> se_events E = id \<and> se_metrics E = id"

lemma end_tasks_client [simp]: "hn_client (end_tasks h) = hn_client h"
  by (simp add: end_tasks_def)

text \<open>Stopping the automatic flush touches no queue, counter or Redis handler.\<close>

lemma stop_auto_flush_client:
  defines "cl' h \<equiv> hn_client (update_buffer stop_auto_flush h)"
  shows "event_queue (cl' h) = event_queue (hn_client h)" "metric_queue (cl' h) = metric_queue (hn_client h)"
    "cl_events (cl' h) = cl_events (hn_client h)" "cl_metrics (cl' h) = cl_metrics (hn_client h)"
    "events_wf (cl' h) = events_wf (hn_client h)" "metrics_wf (cl' h) = metrics_wf (hn_client h)"
    "redis_confirms (cl' h) = redis_confirms (hn_client h)"
    "queues_sendable K env (cl' h) = queues_sendable K env (hn_client h)"
  by (simp_all add: cl'_def update_buffer_def event_queue_def metric_queue_def events_wf_def metrics_wf_def
      redis_confirms_def queues_sendable_def stop_auto_flush_def buffer_maxlen_def split: prod.split)

lemma stop_delivers:
  assumes "fair_weather T K env w" and "undisturbed E" and cl: "stopping_client E h = cl"
    and "events_wf cl" "metrics_wf cl" and "redis_confirms cl" and "queues_sendable K env cl"
    and "ls_retry_after (cl_events cl) \<le> se_clock E ! 0" "ls_retry_after (cl_metrics cl) \<le> se_clock E ! 2"
    and "room T 2 (rn_transport s)"
  shows "\<exists>h' s' es. stop_agent K env w E (h, s) = (Inr (), h', s') \<and> quiet h' \<and> tp_client (rn_transport s') \<noteq> Some False
    \<and> event_queue (hn_client h') = [] \<and> metric_queue (hn_client h') = []
    \<and> rn_trace s' = rn_trace s @ es \<and> requests es \<le> 2
    \<and> settled_items es = map (ItemEvent \<circ> snd) (event_queue cl) @ map (ItemMetric \<circ> snd) (metric_queue cl)
    \<and> ls_sent (cl_events (hn_client h')) = ls_sent (cl_events cl) + int (length (event_queue cl))
    \<and> ls_sent (cl_metrics (hn_client h')) = ls_sent (cl_metrics cl) + int (length (metric_queue cl))"
proof -
  define h0 where "h0 = end_tasks (se_tasks E (h\<lparr>hn_running := False\<rparr>))"
  define h1 where "h1 = update_buffer stop_auto_flush h0"
  have "hn_client h0 = cl" using cl by (simp add: h0_def stopping_client_def)
  with stop_auto_flush_client [where h = h0] have eq: "event_queue (hn_client h1) = event_queue cl"
    "metric_queue (hn_client h1) = metric_queue cl" "cl_events (hn_client h1) = cl_events cl"
    "cl_metrics (hn_client h1) = cl_metrics cl" "events_wf (hn_client h1) = events_wf cl"
    "metrics_wf (hn_client h1) = metrics_wf cl" "redis_confirms (hn_client h1) = redis_confirms cl"
    "queues_sendable K env (hn_client h1) = queues_sendable K env cl"
    by (simp_all add: h1_def)
  have E: "calm E" "\<not> se_gather E" "se_events E = id" "se_metrics E = id" using assms(2) by (simp_all add: undisturbed_def)
  obtain cl' s1 es where f: "flush_buffer K env w (se_clock E) id id (hn_client h1) s = (Inr (), cl', s1, [])"
    "event_queue cl' = []" "metric_queue cl' = []" "rn_trace s1 = rn_trace s @ es" "requests es \<le> 2"
    "settled_items es = map (ItemEvent \<circ> snd) (event_queue cl) @ map (ItemMetric \<circ> snd) (metric_queue cl)"
    "ls_sent (cl_events cl') = ls_sent (cl_events cl) + int (length (event_queue cl))"
    "ls_sent (cl_metrics cl') = ls_sent (cl_metrics cl) + int (length (metric_queue cl))"
    by (rule flush_delivers [of T K env w "hn_client h1" "se_clock E" s]) (use assms in \<open>simp_all add: eq\<close>)
  let ?s' = "s1\<lparr>rn_transport := close_client (rn_transport s1)\<rparr>"
  have st: "stop_agent K env w E (h, s) = (Inr (), h1\<lparr>hn_client := cl'\<rparr>, ?s')"
    using f(1) E by (simp add: stop_agent_def h0_def [symmetric] h1_def [symmetric])
  with stop_agent_quiet(3) [OF E(1) st refl] f show ?thesis by (intro exI [of _ "h1\<lparr>hn_client := cl'\<rparr>"] exI [of _ ?s']) auto
qed


section \<open>A concrete stop\<close>

lemma idle_env_undisturbed: "undisturbed (idle_env t)"
  by (simp add: undisturbed_def idle_env_calm) (simp add: idle_env_def id_def)


end
