(* ===== verification/Outage.thy ===== *)
theory Outage
  imports Delivery
begin

text \<open>
  Recovery: an outage of any kind and length, whatever the server answered, the breaker counted and the
  limiter granted, ends with everything delivered once the outside works again. First what no run of
  the transport can spoil: the breaker's timeout, the limiter's window, the time of their last entries.
\<close>

section \<open>What the transport keeps\<close>

text \<open>\<open>keeps J m\<close>: the operation keeps \<open>J\<close> of the transport, whatever its result.\<close>

definition keeps :: "(transport \<Rightarrow> bool) \<Rightarrow> 'a op \<Rightarrow> bool" where
  "keeps J m \<longleftrightarrow> (\<forall>s. J (rn_transport s) \<longrightarrow> J (rn_transport (snd (m s))))"

lemma keepsD: "keeps J m \<Longrightarrow> m s = (r, s') \<Longrightarrow> J (rn_transport s) \<Longrightarrow> J (rn_transport s')"
  unfolding keeps_def by (metis snd_conv)

lemma keeps_simple:
  "keeps J (ret x)" "keeps J (throw e)" "keeps J (of_result r)" "keeps J get_transport" "keeps J get_data"
  "keeps J (put_data d)" "keeps J (emit es)" "keeps J (ask f)"
  by (simp_all add: keeps_def ret_def throw_def of_result_def get_transport_def get_data_def put_data_def emit_def ask_def)

lemma keeps_bind: "keeps J m \<Longrightarrow> (\<And>x. keeps J (f x)) \<Longrightarrow> keeps J (bind_op m f)"
  by (simp add: keeps_def bind_op_def split: prod.split sum.split) (metis snd_conv)

lemma keeps_catch: "keeps J m \<Longrightarrow> (\<And>e. keeps J (h e)) \<Longrightarrow> keeps J (catch_op m h)"
  by (simp add: keeps_def catch_op_def split: prod.split sum.split) (metis snd_conv)

lemma keeps_always: "keeps J m \<Longrightarrow> (\<And>r. keeps J (f r)) \<Longrightarrow> keeps J (always_op m f)"
  by (simp add: keeps_def always_op_def split: prod.split) (metis snd_conv)

lemma keeps_modify: "(\<And>tp. J tp \<Longrightarrow> J (f tp)) \<Longrightarrow> keeps J (modify_transport f)"
  by (simp add: keeps_def modify_transport_def)

text \<open>Reading the outside: what is read is one of its values.\<close>

lemma keeps_ask_bind: "(\<And>k. keeps J (f (g k))) \<Longrightarrow> keeps J (bind_op (ask g) f)"
  by (simp add: keeps_def bind_op_def ask_def)

text \<open>Reading the transport: what is read satisfies \<open>J\<close>.\<close>

lemma keeps_get_bind: "(\<And>tp. J tp \<Longrightarrow> keeps J (f tp)) \<Longrightarrow> keeps J (bind_op get_transport f)"
  by (simp add: keeps_def bind_op_def get_transport_def)

lemmas keeps_intros = keeps_simple keeps_bind keeps_catch keeps_always

section \<open>The transport before a time\<close>

text \<open>
  Nothing the transport remembers is later than \<open>T\<close>: the breaker opened at a time of a failure up to
  \<open>T\<close>, the calls in the limiter's window were granted up to \<open>T\<close>. The parameters are those of its creation.
\<close>

definition before :: "time \<Rightarrow> transport \<Rightarrow> bool" where
  "before T tp \<longleftrightarrow> cb_recovery_timeout (tp_breaker tp) = 60
     \<and> (cb_state (tp_breaker tp) = Open \<longrightarrow> (\<exists>t. cb_last_failure_time (tp_breaker tp) = Some t \<and> 0 < t \<and> t \<le> T))
     \<and> rl_max_calls (tp_limiter tp) = 100 \<and> rl_time_window (tp_limiter tp) = 60
     \<and> (\<forall>t \<in> set (rl_calls (tp_limiter tp)). t \<le> T)"

lemma before_init: "transport_init C c install_id pid nonce = Inr (env, tp) \<Longrightarrow> before T tp"
  by (auto simp: transport_init_def before_def circuit_breaker_init_def rate_limiter_init_def split: sum.splits)

text \<open>A minute later there is room for a whole window of calls.\<close>

lemma before_room:
  assumes "before T0 tp" and "T0 + 60 < T" and "n \<le> 100"
  shows "room T n tp"
proof -
  have "filter (\<lambda>t. T - t < 60) (rl_calls (tp_limiter tp)) = []"
    using assms(1,2) by (fastforce simp: before_def filter_empty_conv)
  with assms show ?thesis by (auto simp: before_def room_def cb_recovered_def)
qed

text \<open>The outside during the outage: clocks up to \<open>T\<close>, and other tasks that keep to them. Replies are arbitrary.\<close>

definition outage :: "time \<Rightarrow> world \<Rightarrow> bool" where
  "outage T w \<longleftrightarrow> (\<forall>i. 0 < wd_clock w i \<and> wd_clock w i \<le> T) \<and> (\<forall>i tp. before T tp \<longrightarrow> before T (wd_others w i tp))"

lemma outageD:
  assumes "outage T w"
  shows "0 < wd_clock w i" "wd_clock w i \<le> T" "before T tp \<Longrightarrow> before T (wd_others w i tp)"
  using assms by (simp_all add: outage_def)

lemma before_frame [simp]:
  "before T (tp\<lparr>tp_client := c\<rparr>) = before T tp" "before T (tp\<lparr>tp_requests_sent := i\<rparr>) = before T tp"
  "before T (tp\<lparr>tp_requests_failed := i\<rparr>) = before T tp" "before T (tp\<lparr>tp_bytes_sent := i\<rparr>) = before T tp"
  by (simp_all add: before_def)

lemma before_steps:
  assumes "before T tp" and "before T tp'"
  shows "before T (reset_after_fork pid tp)"
    and "now \<le> T \<Longrightarrow> rl_acquire now (tp_limiter tp) = (ok, rl) \<Longrightarrow> before T (tp'\<lparr>tp_limiter := rl\<rparr>)"
    and "cb_admit now (tp_breaker tp) = (r, cb) \<Longrightarrow> before T (tp'\<lparr>tp_breaker := cb\<rparr>)"
    and "0 < now \<Longrightarrow> now \<le> T \<Longrightarrow> before T (tp\<lparr>tp_breaker := cb_settle now res (tp_breaker tp)\<rparr>)"
  using assms
  by (auto simp: before_def reset_after_fork_def circuit_breaker_init_def rate_limiter_init_def rl_acquire_def Let_def
      cb_admit_def cb_settle_def cb_on_success_def cb_on_failure_def split: if_splits sum.splits)

lemma keeps_suspend: "outage T w \<Longrightarrow> keeps (before T) (suspend w)"
  by (simp add: keeps_def suspend_def outageD(3))

lemma keeps_counters: "keeps (before T) count_sent" "keeps (before T) count_failed"
  by (simp_all add: count_sent_def count_failed_def keeps_modify)

lemma keeps_hook: "keeps J (fire_hook c stg e ctx)"
  by (auto simp: fire_hook_def split: prod.split intro: keeps_intros)

lemma keeps_awaits:
  assumes "outage T w"
  shows "keeps (before T) (sleep_op w reason d)" "keeps (before T) (http_op w request)"
  by (simp_all add: sleep_op_def http_op_def keeps_bind keeps_simple keeps_suspend [OF assms])

lemma keeps_limiter:
  assumes "outage T w"
  shows "keeps (before T) (limiter_acquire w)" "keeps (before T) (limiter_retry_after w)"
  unfolding limiter_acquire_def limiter_retry_after_def
  by (auto intro!: keeps_ask_bind keeps_get_bind keeps_bind keeps_modify keeps_simple before_steps(2) outageD(2) [OF assms]
      split: prod.split)

lemma keeps_breaker:
  assumes out: "outage T w" and m: "keeps (before T) m"
  shows "keeps (before T) (breaker_call w m)"
proof -
  have settle: "keeps (before T) (bind_op (ask (wd_clock w)) (\<lambda>now'.
      bind_op (modify_transport (\<lambda>tp'. if c tp' then tp'\<lparr>tp_breaker := cb_settle now' r (tp_breaker tp')\<rparr> else tp')) (\<lambda>_. of_result r)))" for c r
    by (intro keeps_ask_bind keeps_bind keeps_modify keeps_simple) (simp add: before_steps(4) outageD [OF out])
  show ?thesis
    unfolding breaker_call_def
    by (auto intro!: keeps_ask_bind keeps_get_bind keeps_bind [OF keeps_modify] keeps_always m settle keeps_simple before_steps(3)
        split: prod.split sum.split)
qed

section \<open>Sending\<close>

lemma keeps_ensure_client: "keeps (before T) (ensure_client K env w)"
  unfolding ensure_client_def initialize_def
  by (auto intro!: keeps_ask_bind keeps_bind keeps_modify keeps_simple before_steps(1) split: option.split)

lemma keeps_request:
  assumes out: "outage T w"
  shows "keeps (before T) (make_request K env w meth endpoint)"
proof -
  have post: "keeps (before T) (post_json K env w stg url d)" for stg url d
    unfolding post_json_def
    by (auto intro!: keeps_bind keeps_modify keeps_simple keeps_hook keeps_awaits [OF out] split: sum.split exn.split prod.split)
  have "keeps (before T) (dispatch_request K env w meth endpoint url d)" for url d
    unfolding dispatch_request_def post_encrypted_def post_unencrypted_def
    by (auto intro!: keeps_bind keeps_simple keeps_awaits [OF out] post split: option.split)
  then show ?thesis
    unfolding make_request_def by (auto intro!: keeps_bind keeps_ensure_client keeps_simple)
qed

lemma keeps_send_attempt:
  assumes out: "outage T w"
  shows "keeps (before T) (send_attempt K env w endpoint data_type attempt)"
proof -
  have "keeps (before T) (sleep_or_record_giveup env w a reason d)" for a reason d
    by (simp add: sleep_or_record_giveup_def keeps_bind keeps_simple keeps_awaits [OF out] keeps_counters)
  moreover have "keeps (before T) (evaluate_send_result v)" for v
    by (simp add: evaluate_send_result_def keeps_bind keeps_simple keeps_counters)
  ultimately show ?thesis
    unfolding send_attempt_def
    by (auto intro!: keeps_catch keeps_bind keeps_simple keeps_hook keeps_limiter [OF out] keeps_breaker [OF out]
        keeps_request [OF out] keeps_awaits [OF out] split: exn.split)
qed

lemma keeps_send_with_retry:
  assumes out: "outage T w"
  shows "keeps (before T) (send_with_retry K env w endpoint d data_type)"
proof -
  have "keeps (before T) (send_attempts K env w endpoint data_type as)" for as
    by (induction as) (auto intro!: keeps_bind keeps_simple keeps_send_attempt [OF out] split: option.split)
  then show ?thesis by (simp add: send_with_retry_def keeps_bind keeps_simple)
qed

lemma keeps_send_items:
  "outage T w \<Longrightarrow> keeps (before T) (send_items K env w k items)"
proof (induction K env w k items rule: send_items.induct)
  case (1 K env w k items)
  have drop: "keeps (before T) (drop_permanent_rejection env k xs e)" for xs e
    by (simp add: drop_permanent_rejection_def keeps_bind keeps_simple keeps_counters keeps_hook)
  note retry = keeps_send_with_retry [OF 1(3)]
  show ?case
    by (subst send_items.simps)
       (auto intro!: keeps_catch keeps_bind keeps_simple keeps_counters retry drop 1(1,2) 1(3) split: exn.split)
qed

section \<open>Flushing during an outage\<close>

text \<open>
  What an outage leaves of a lane: the queue as it was, or emptied after everything in it was settled.
  A batch that was sent in part may be settled again: delivery is at least once.
\<close>

definition kept_or_settled :: "('x \<Rightarrow> data_item) \<Rightarrow> 'x list \<Rightarrow> 'x list \<Rightarrow> effect list \<Rightarrow> bool" where
  "kept_or_settled item q q' es \<longleftrightarrow> q' = q \<or> q' = [] \<and> item ` set q \<subseteq> set (settled_items es)"

lemma kept_or_settled_trans:
  "kept_or_settled item q q' es \<Longrightarrow> kept_or_settled item q' q'' es' \<Longrightarrow> kept_or_settled item q q'' (es @ es')"
  by (auto simp: kept_or_settled_def)

lemma kept_or_settled_later:
  "kept_or_settled item q q' es \<Longrightarrow> kept_or_settled item q q' (es @ es')"
  "kept_or_settled item q q' es' \<Longrightarrow> kept_or_settled item q q' (es @ es')"
  by (auto simp: kept_or_settled_def)

lemma stats_failed_due:
  assumes "stats_failed c now n st = (r, st')" and "ls_retry_after st \<le> T + 300" and "now \<le> T"
  shows "ls_retry_after st' \<le> T + 300"
  using assms
  by (auto simp: stats_failed_def calculate_backoff_delay_def max_flush_backoff_def Let_def split: if_splits sum.splits)

context flusher
begin

lemma flush_due:
  assumes "inv b" and due: "0 \<le> T" "ls_retry_after (fo_stats F b) \<le> T + 300" and "now' \<le> T"
    and flush: "flush_lane F c now now' send' id b s = (res, b', s', calls)"
  shows "ls_retry_after (fo_stats F b') \<le> T + 300"
proof -
  obtain batch b1 where b: "flush_begin F now b = (batch, b1)" by fastforce
  obtain ys ks' b1' where d: "fo_drain F now b = (ys, ks', b1')" by (metis prod_cases3)
  have st1: "fo_stats F b1 = fo_stats F b"
    using b d drain [OF assms(1) d] by (auto simp: flush_begin_def split: if_splits)
  from assms(1) b show ?thesis
  proof (cases rule: begin_cases)
    case (batch ks)
    obtain result s1 where s1: "send' (map snd (queue b)) s = (result, s1)" by fastforce
    obtain res2 b2 calls2 where e: "flush_end F c now' result (queue b) ks b1 = (res2, b2, calls2)" by (metis prod_cases3)
    with flush b batch(1) s1 have b2: "b' = b2" by (simp add: flush_lane_def)
    obtain evicted b3 where r: "fo_requeue F (queue b) ks b1 = (Inr evicted, b3)" "inv b3" "fo_stats F b3 = fo_stats F b1"
      using requeue [OF batch(4,6,7)] batch(3) by auto
    have c: "fo_stats F b5 = fo_stats F b4" if "fo_confirm F ks4 b4 = (r4, b5)" "inv b4" for ks4 b4 r4 b5
      using confirm [OF that(2,1)] by simp
    have rc: "fo_stats F b4 = fo_stats F b1" if "requeue_and_confirm F (queue b) ks b1 = (r4, b4)" for r4 b4
      using that r c by (auto simp: requeue_and_confirm_def split: if_splits)
    show ?thesis
      unfolding b2 using e due st1 batch(4) assms(4)
      by (auto simp: flush_end_def stats stats_sent_def split: if_splits sum.splits prod.splits
          dest!: c rc elim!: stats_failed_due)
  qed (use flush b st1 due in \<open>auto simp: flush_lane_def\<close>)
qed

lemma flush_keeps_or_settles:
  assumes "good k" and "inv b" and "length (queue b) \<le> cap b"
    and flush: "flush_lane F c now now' (send k) id b s = (res, b', s', calls)"
  shows "inv b'" "\<exists>es. rn_trace s' = rn_trace s @ es \<and> kept_or_settled (item \<circ> snd) (queue b) (queue b') es"
proof -
  have calm: "harmless inv queue cap id (fst ` set (queue b))" by (simp add: harmless_def)
  note acc = flush_accounts [OF assms(1,2) calm flush]
  then show "inv b'" by simp
  obtain batch b1 where b: "flush_begin F now b = (batch, b1)" by fastforce
  from assms(2) b show "\<exists>es. rn_trace s' = rn_trace s @ es \<and> kept_or_settled (item \<circ> snd) (queue b) (queue b') es"
  proof (cases rule: begin_cases)
    case (batch ks)
    with acc b assms(3) show ?thesis by (auto simp: kept_or_settled_def)
  qed (use flush b in \<open>auto simp: flush_lane_def kept_or_settled_def\<close>)
qed

end

section \<open>The client during an outage\<close>

text \<open>
  What holds after any number of flushes since \<open>(cl0, s0)\<close>: the invariants, no retry time more than
  five minutes after the outage, a transport that remembers nothing later than it, and no item lost.
\<close>

definition surviving :: "time \<Rightarrow> (security_event, security_metric, 'r) client \<Rightarrow> effect list
    \<Rightarrow> (security_event, security_metric, 'r) client \<Rightarrow> run \<Rightarrow> bool" where
  "surviving T cl0 tr0 cl s \<longleftrightarrow> events_wf cl \<and> metrics_wf cl \<and> redis_confirms cl \<and> before T (rn_transport s)
     \<and> ls_retry_after (cl_events cl) \<le> T + 300 \<and> ls_retry_after (cl_metrics cl) \<le> T + 300
     \<and> (\<exists>es. rn_trace s = tr0 @ es \<and> kept_or_settled (ItemEvent \<circ> snd) (event_queue cl0) (event_queue cl) es
            \<and> kept_or_settled (ItemMetric \<circ> snd) (metric_queue cl0) (metric_queue cl) es)"

lemma queue_fits:
  "events_wf cl \<Longrightarrow> length (event_queue cl) \<le> buffer_cap cl" "metrics_wf cl \<Longrightarrow> length (metric_queue cl) \<le> buffer_cap cl"
  by (auto simp: events_wf_def metrics_wf_def event_queue_def metric_queue_def buffer_cap_def lane_wf_def split: prod.splits)

text \<open>The transport across a flush of a lane.\<close>

lemma flush_lane_before:
  assumes "\<And>vs. keeps (before T) (send vs)" and "flush_lane F c now now' send others b s = (res, b', s', calls)"
    and "before T (rn_transport s)"
  shows "before T (rn_transport s')"
  using assms(2,3)
  by (auto simp: flush_lane_def split: option.splits prod.splits dest: keepsD [OF assms(1)])

lemma surviving_events:
  assumes laws: "kit_laws K" and out: "outage T w" "0 \<le> T" "now' \<le> T" and live: "surviving T cl0 tr0 cl s"
    and flush: "flush_lane event_flush_ops c now now' (send_events K env w) id cl s = (res, cl', s', calls)"
  shows "surviving T cl0 tr0 cl' s'"
proof -
  have good: "sends_lawfully (K, env, w)" using laws by (simp add: sends_lawfully_def)
  have flush': "flush_lane event_flush_ops c now now' (events_sender (K, env, w)) id cl s = (res, cl', s', calls)"
    using flush by (simp add: events_sender_def)
  have wf: "events_wf cl" using live by (simp add: surviving_def)
  obtain es where es: "rn_trace s = tr0 @ es" "kept_or_settled (ItemEvent \<circ> snd) (event_queue cl0) (event_queue cl) es"
      "kept_or_settled (ItemMetric \<circ> snd) (metric_queue cl0) (metric_queue cl) es"
    using live by (auto simp: surviving_def)
  obtain es' where es': "rn_trace s' = rn_trace s @ es'"
      "kept_or_settled (ItemEvent \<circ> snd) (event_queue cl) (event_queue cl') es'"
    using evf.flush_keeps_or_settles(2) [OF good wf queue_fits(1) [OF wf] flush'] by blast
  have "ls_retry_after (cl_events cl') \<le> T + 300"
    using evf.flush_due [OF wf out(2) _ out(3) flush'] live by (simp add: surviving_def event_flush_ops_def)
  moreover have "before T (rn_transport s')"
    by (rule flush_lane_before [OF _ flush]) (use live in \<open>simp_all add: send_events_def keeps_send_items [OF out(1)] surviving_def\<close>)
  moreover note metric_view_facts [OF event_flush_metric_view [OF flush]]
    evf.flush_keeps_or_settles(1) [OF good wf queue_fits(1) [OF wf] flush']
  ultimately show ?thesis
    using live es es' kept_or_settled_trans [OF es(2) es'(2)] kept_or_settled_later(1) [OF es(3), of es']
    by (auto simp: surviving_def)
qed

lemma surviving_metrics:
  assumes laws: "kit_laws K" and out: "outage T w" "0 \<le> T" "now' \<le> T" and live: "surviving T cl0 tr0 cl s"
    and flush: "flush_lane metric_flush_ops c now now' (send_metrics K env w) id cl s = (res, cl', s', calls)"
  shows "surviving T cl0 tr0 cl' s'"
proof -
  have good: "sends_lawfully (K, env, w)" using laws by (simp add: sends_lawfully_def)
  have flush': "flush_lane metric_flush_ops c now now' (metrics_sender (K, env, w)) id cl s = (res, cl', s', calls)"
    using flush by (simp add: metrics_sender_def)
  have wf: "metrics_wf cl" using live by (simp add: surviving_def)
  obtain es where es: "rn_trace s = tr0 @ es" "kept_or_settled (ItemEvent \<circ> snd) (event_queue cl0) (event_queue cl) es"
      "kept_or_settled (ItemMetric \<circ> snd) (metric_queue cl0) (metric_queue cl) es"
    using live by (auto simp: surviving_def)
  obtain es' where es': "rn_trace s' = rn_trace s @ es'"
      "kept_or_settled (ItemMetric \<circ> snd) (metric_queue cl) (metric_queue cl') es'"
    using mtf.flush_keeps_or_settles(2) [OF good wf queue_fits(2) [OF wf] flush'] by blast
  have "ls_retry_after (cl_metrics cl') \<le> T + 300"
    using mtf.flush_due [OF wf out(2) _ out(3) flush'] live by (simp add: surviving_def metric_flush_ops_def)
  moreover have "before T (rn_transport s')"
    by (rule flush_lane_before [OF _ flush]) (use live in \<open>simp_all add: send_metrics_def keeps_send_items [OF out(1)] surviving_def\<close>)
  moreover note event_view_facts [OF metric_flush_event_view [OF flush]]
    mtf.flush_keeps_or_settles(1) [OF good wf queue_fits(2) [OF wf] flush']
  ultimately show ?thesis
    using live es es' kept_or_settled_trans [OF es(3) es'(2)] kept_or_settled_later(1) [OF es(2), of es']
    by (auto simp: surviving_def)
qed

text \<open>The flushes of an outage, each in its own world and at its own times; exceptions end a flush, not the sequence.\<close>

fun flushes :: "kit \<Rightarrow> agent_env \<Rightarrow> (world \<times> time list) list \<Rightarrow> (security_event, security_metric, 'r) client \<Rightarrow> run
    \<Rightarrow> (security_event, security_metric, 'r) client \<times> run" where
  "flushes K env [] cl s = (cl, s)"
| "flushes K env ((w, clock) # rounds) cl s =
     (case flush_buffer K env w clock id id cl s of (_, cl', s', _) \<Rightarrow> flushes K env rounds cl' s')"

definition outage_round :: "time \<Rightarrow> world \<times> time list \<Rightarrow> bool" where
  "outage_round T = (\<lambda>(w, clock). outage T w \<and> (\<forall>t \<in> set clock. t \<le> T) \<and> length clock = 4)"

lemma surviving_flush:
  assumes laws: "kit_laws K" and out: "outage_round T (w, clock)" "0 \<le> T" and live: "surviving T cl0 tr0 cl s"
    and flush: "flush_buffer K env w clock id id cl s = (res, cl', s', calls)"
  shows "surviving T cl0 tr0 cl' s'"
proof -
  have w: "outage T w" and now: "clock ! 1 \<le> T" "clock ! 3 \<le> T" using out(1) by (auto simp: outage_round_def)
  obtain r1 cl1 s1 c1 where f1: "flush_lane event_flush_ops (cl_config cl) (clock ! 0) (clock ! 1) (send_events K env w) id cl s
      = (r1, cl1, s1, c1)" by (metis prod_cases4)
  obtain r2 cl2 s2 c2 where f2: "flush_lane metric_flush_ops (cl_config cl) (clock ! 2) (clock ! 3) (send_metrics K env w) id cl1 s1
      = (r2, cl2, s2, c2)" by (metis prod_cases4)
  note live1 = surviving_events [OF laws w out(2) now(1) live f1]
  note live2 = surviving_metrics [OF laws w out(2) now(2) live1 f2]
  from flush f1 f2 live1 live2 show ?thesis
    by (cases r1) (auto simp: flush_buffer_def split: sum.splits)
qed

lemma surviving_flushes:
  assumes laws: "kit_laws K" and "0 \<le> T"
  shows "\<forall>r \<in> set rounds. outage_round T r \<Longrightarrow> surviving T cl0 tr0 cl s \<Longrightarrow> flushes K env rounds cl s = (cl', s')
    \<Longrightarrow> surviving T cl0 tr0 cl' s'"
proof (induction rounds arbitrary: cl s)
  case (Cons r rounds)
  obtain w clock where r: "r = (w, clock)" by fastforce
  obtain res cl1 s1 calls where f: "flush_buffer K env w clock id id cl s = (res, cl1, s1, calls)" by (metis prod_cases4)
  have "surviving T cl0 tr0 cl1 s1"
    using surviving_flush [OF laws _ assms(2) Cons.prems(2) f] Cons.prems(1) r by simp
  with Cons f r show ?case by simp
qed simp

section \<open>What is guaranteed\<close>

text \<open>
  C4: The agent recovers from any outage. During it, until the time \<open>T0\<close>, any number of flushes may have run
  against any replies: timeouts, errors, refusals, partial failures, cancellations; the breaker may have
  opened, the limiter may be full, the lanes may be backing off. Once nothing outside fails, a minute later
  for the transport and five minutes later for the backoff, the next flush returns with both queues empty,
  and every event and metric that was queued before the outage has been settled.
\<close>

theorem outage_recovers:
  assumes "kit_laws K" and "0 \<le> T0" and "\<forall>r \<in> set rounds. outage_round T0 r"
    and "events_wf cl" "metrics_wf cl" and "redis_confirms cl" and "queues_sendable K env cl"
    and "ls_retry_after (cl_events cl) \<le> T0 + 300" "ls_retry_after (cl_metrics cl) \<le> T0 + 300"
    and "before T0 (rn_transport s)" and "flushes K env rounds cl s = (cl', s')"
    and "fair_weather T K env w" and "T0 + 60 < T" and "T0 + 300 \<le> clock ! 0" "T0 + 300 \<le> clock ! 2"
  shows "\<exists>cl'' s'' es. flush_buffer K env w clock id id cl' s' = (Inr (), cl'', s'', [])
    \<and> event_queue cl'' = [] \<and> metric_queue cl'' = [] \<and> rn_trace s'' = rn_trace s @ es
    \<and> (ItemEvent \<circ> snd) ` set (event_queue cl) \<union> (ItemMetric \<circ> snd) ` set (metric_queue cl) \<subseteq> set (settled_items es)"
proof -
  have "surviving T0 cl (rn_trace s) cl s"
    using assms by (auto simp: surviving_def kept_or_settled_def)
  from surviving_flushes [OF assms(1-3) this assms(11)] have live: "surviving T0 cl (rn_trace s) cl' s'" .
  then obtain es where es: "rn_trace s' = rn_trace s @ es"
      "kept_or_settled (ItemEvent \<circ> snd) (event_queue cl) (event_queue cl') es"
      "kept_or_settled (ItemMetric \<circ> snd) (metric_queue cl) (metric_queue cl') es"
    by (auto simp: surviving_def)
  have ok: "queues_sendable K env cl'"
    using es(2,3) assms(7) by (auto simp: queues_sendable_def kept_or_settled_def)
  have room: "room T 2 (rn_transport s')"
    by (rule before_room [OF _ assms(13)]) (use live in \<open>simp_all add: surviving_def\<close>)
  obtain cl'' s'' es' where f: "flush_buffer K env w clock id id cl' s' = (Inr (), cl'', s'', [])"
      "event_queue cl'' = []" "metric_queue cl'' = []" "rn_trace s'' = rn_trace s' @ es'"
      "settled_items es' = map (ItemEvent \<circ> snd) (event_queue cl') @ map (ItemMetric \<circ> snd) (metric_queue cl')"
    by (rule flush_delivers [OF assms(12), of cl' clock s']) (use ok room live assms(14,15) in \<open>auto simp: surviving_def\<close>)
  with es show ?thesis
    by (intro exI [of _ cl''] exI [of _ s''] exI [of _ "es @ es'"]) (auto simp: kept_or_settled_def)
qed

section \<open>A concrete outage\<close>

text \<open>Two flushes meet a timeout and a server error; the clock of the sample world shows 1000, later 2000.\<close>

definition rough_rounds :: "(world \<times> time list) list" where
  "rough_rounds = [(sample_world NetTimeout, [10, 20, 30, 40]), (sample_world (status_reply 500), [900, 901, 902, 903])]"

definition late_world :: world where
  "late_world = (sample_world (status_reply 201))\<lparr>wd_clock := (\<lambda>k. 2000)\<rparr>"

lemma sample_outage: "outage 1000 (sample_world r)"
  by (simp add: outage_def sample_world_def)

lemma late_weather: "fair_weather 2000 sample_kit sample_env late_world"
  using sample_fair by (simp add: fair_weather_def late_world_def sample_world_def)

theorem outage_recovers_witness:
  "\<exists>cl s. flush_buffer sample_kit sample_env late_world [2000, 2001, 2002, 2003] id id
       (fst (flushes sample_kit sample_env rough_rounds sample_client sample_run))
       (snd (flushes sample_kit sample_env rough_rounds sample_client sample_run)) = (Inr (), cl, s, [])
     \<and> event_queue cl = [] \<and> ItemEvent (new_event ''k'' ''t'' ''e'') \<in> set (settled_items (rn_trace s))"
proof -
  have "\<forall>r \<in> set rough_rounds. outage_round 1000 r" by (simp add: rough_rounds_def outage_round_def sample_outage)
  moreover have "redis_confirms sample_client" by (simp add: redis_confirms_def sample_client_def event_buffer_init_def)
  moreover have "queues_sendable sample_kit sample_env sample_client" by (simp add: queues_sendable_def sample_sendable)
  moreover have "ls_retry_after (cl_events sample_client) \<le> 1000 + 300" "ls_retry_after (cl_metrics sample_client) \<le> 1000 + 300"
    by (simp_all add: sample_client_def lane_stats_init_def)
  moreover have "before 1000 (rn_transport sample_run)"
    by (simp add: before_def sample_run_def circuit_breaker_init_def rate_limiter_init_def)
  ultimately show ?thesis
    using outage_recovers [OF sample_kit_laws _ _ sample_client_wf _ _ _ _ _ surjective_pairing late_weather, of 1000 rough_rounds
        sample_run "[2000, 2001, 2002, 2003]"]
    by (fastforce simp: sample_client_queues sample_run_def)
qed

end
