(* ===== verification/Examples.thy ===== *)
theory Examples
  imports Shutdown ClientIngest
begin

text \<open>
  The programs under \<open>examples/\<close> that use the agent directly: the demo application
  (\<open>demo_app/main.py\<close>) and the first part of \<open>basic_usage.py\<close>. They compose construction, start, ingest
  and stop, so that what the components promise can be stated of a whole program.
\<close>

section \<open>The demo application\<close>

text \<open>The outside of a program: the library, the server, the clock readings and the other tasks.\<close>

record 'r surroundings =
  su_kit :: kit
  su_world :: world
  su_stop :: "'r stop_env"
  su_waits :: "nat \<Rightarrow> (security_event, security_metric, 'r) buffer_state \<Rightarrow> (security_event, security_metric, 'r) buffer_state option"
  su_event_kind :: "security_event lane_kind"
  su_metric_kind :: "security_metric lane_kind"
  su_timestamp :: string
  su_key :: string

definition getenv :: "(string \<Rightarrow> string option) \<Rightarrow> string \<Rightarrow> string \<Rightarrow> string" where
  "getenv environ name otherwise = (case environ name of None \<Rightarrow> otherwise | Some v \<Rightarrow> v)"

definition agent_endpoint :: "(string \<Rightarrow> string option) \<Rightarrow> string" where
  "agent_endpoint environ = getenv environ ''GUARD_AGENT_ENDPOINT'' ''https://api.guard-core.com''"

definition agent_project_id :: "(string \<Rightarrow> string option) \<Rightarrow> string" where
  "agent_project_id environ = getenv environ ''GUARD_AGENT_PROJECT_ID'' ''demo-project''"

text \<open>The arguments are the generated idempotency key and the current timestamp.\<close>

definition build_test_event :: "string \<Rightarrow> string \<Rightarrow> security_event" where
  "build_test_event key ts = (new_event key ts ''custom_request_check'')
     \<lparr>ev_ip_address := ''192.168.1.100'', ev_action_taken := ''logged'',
      ev_reason := ''Guard Agent demo container test event'', ev_endpoint := Some ''/demo/test-event'',
      ev_method := Some ''POST'', ev_metadata := PDict [(PStr ''source'', PStr ''guard-agent-demo-container'')]\<rparr>"

text \<open>The module's configuration; the endpoint goes through the validator of the model.\<close>

definition demo_config :: "(string \<Rightarrow> string option) \<Rightarrow> exn + agent_config" where
  "demo_config environ = map_sum id (\<lambda>endpoint.
     (default_config (getenv environ ''GUARD_AGENT_API_KEY'' ''demo-api-key-12345''))
       \<lparr>cf_project_id := Some (agent_project_id environ), cf_endpoint := endpoint, cf_buffer_size := 10,
        cf_flush_interval := 5\<rparr>)
     (fst (validate_endpoint (agent_endpoint environ) False))"

text \<open>The module's agent, the first handler of its process; and the run its transport starts with.\<close>

definition demo_agent :: "crypt \<Rightarrow> (string \<Rightarrow> string option) \<Rightarrow> int \<Rightarrow> time \<Rightarrow> string \<Rightarrow> string \<Rightarrow> 'r
   \<Rightarrow> (exn + unit) \<times> 'r agent option" where
  "demo_agent C environ pid now install_id nonce r =
     (case demo_config environ of
        Inl e \<Rightarrow> (Inl e, None)
      | Inr c \<Rightarrow> (case construct_handler C c pid now install_id nonce r \<lparr>ac_instance = None, ac_fork_hook_registered = False\<rparr> of
          (res, cls) \<Rightarrow> (res, Option.bind (ac_instance cls) in_agent)))"

definition first_run :: "transport \<Rightarrow> run" where
  "first_run tp = \<lparr>rn_transport = tp, rn_data = [], rn_tick = 0, rn_trace = []\<rparr>"

text \<open>\<open>await agent.send_event(...)\<close>, \<open>send_metric\<close> on the handler, whose buffer they work on.\<close>

definition handler_send_event :: "'r surroundings \<Rightarrow> nat \<Rightarrow> oid \<Rightarrow> security_event
   \<Rightarrow> (security_event, security_metric, 'r) handler \<Rightarrow> ((exn + unit) \<times> (security_event, security_metric, 'r) handler) option" where
  "handler_send_event U fuel i event h =
     map_option (\<lambda>(res, b). (res, h\<lparr>hn_client := (hn_client h)\<lparr>cl_buffer := b\<rparr>\<rparr>))
       (send_event (kt_values (su_kit U)) (\<lambda>d. Inl (TypeError [])) (hn_config h) fuel (su_waits U) (su_event_kind U)
          (su_key U) i (Instance event) (cl_buffer (hn_client h)))"

definition handler_send_metric :: "'r surroundings \<Rightarrow> nat \<Rightarrow> oid \<Rightarrow> security_metric
   \<Rightarrow> (security_event, security_metric, 'r) handler \<Rightarrow> ((exn + unit) \<times> (security_event, security_metric, 'r) handler) option" where
  "handler_send_metric U fuel i metric h =
     map_option (\<lambda>(res, b). (res, h\<lparr>hn_client := (hn_client h)\<lparr>cl_buffer := b\<rparr>\<rparr>))
       (send_metric (kt_values (su_kit U)) (\<lambda>d. Inl (TypeError [])) (hn_config h) fuel (su_waits U) (su_metric_kind U)
          (su_key U) i (Instance metric) (cl_buffer (hn_client h)))"

text \<open>
  \<open>lifespan\<close>: \<open>app\<close> is what runs between the \<open>yield\<close> and its return; an exception it throws into the
  generator comes out at the \<open>yield\<close>, with no \<open>finally\<close> around it.
\<close>

definition lifespan :: "'r surroundings \<Rightarrow> nat \<Rightarrow> oid \<Rightarrow> agent_env
   \<Rightarrow> ((security_event, security_metric, 'r) agent_state \<Rightarrow> (exn + unit) \<times> (security_event, security_metric, 'r) agent_state)
   \<Rightarrow> (security_event, security_metric, 'r) agent_state
   \<Rightarrow> ((exn + unit) \<times> (security_event, security_metric, 'r) agent_state) option" where
  "lifespan U fuel i env app hs =
     (case start_agent (su_kit U) env (su_world U) (su_stop U) hs of
        (Inl e, hs1) \<Rightarrow> Some (Inl e, hs1)
      | (Inr _, h1, s1) \<Rightarrow>
          (case handler_send_event U fuel i (build_test_event (su_key U) (su_timestamp U)) h1 of
             None \<Rightarrow> None
           | Some (Inl e, h2) \<Rightarrow> Some (Inl e, h2, s1)
           | Some (Inr _, h2) \<Rightarrow>
               (case app (h2, s1) of
                  (Inl e, hs3) \<Rightarrow> Some (Inl e, hs3)
                | (Inr _, hs3) \<Rightarrow> Some (stop_agent (su_kit U) env (su_world U) (su_stop U) hs3))))"

definition root :: "(string \<Rightarrow> string option) \<Rightarrow> pydict" where
  "root environ = [(PStr ''service'', PStr ''guard-agent-demo''), (PStr ''endpoint'', PStr (agent_endpoint environ)),
     (PStr ''project_id'', PStr (agent_project_id environ))]"

fun health_name :: "health \<Rightarrow> string" where
  "health_name Healthy = ''healthy''"
| "health_name Degraded = ''degraded''"
| "health_name Failed = ''failed''"

definition health_route :: "string \<Rightarrow> time \<Rightarrow> (security_event, security_metric, 'r) agent_state \<Rightarrow> pydict" where
  "health_route current_time now = (\<lambda>(h, s).
     [(PStr ''status'', PStr (health_name (as_status (get_status current_time now h (rn_transport s)))))])"

definition emit_test_event :: "'r surroundings \<Rightarrow> nat \<Rightarrow> oid \<Rightarrow> (security_event, security_metric, 'r) handler
   \<Rightarrow> ((exn + pydict) \<times> (security_event, security_metric, 'r) handler) option" where
  "emit_test_event U fuel i h =
     (let event = build_test_event (su_key U) (su_timestamp U)
      in map_option (\<lambda>(res, h'). (map_sum id (\<lambda>_. [(PStr ''emitted'', PStr (ev_event_type event))]) res, h'))
           (handler_send_event U fuel i event h))"

section \<open>Direct usage\<close>

definition usage_config :: agent_config where
  "usage_config = (default_config ''demo-api-key-12345'')
     \<lparr>cf_project_id := Some ''demo-project'', cf_buffer_size := 10, cf_flush_interval := 5\<rparr>"

definition custom_event :: "string \<Rightarrow> string \<Rightarrow> security_event" where
  "custom_event key ts = (new_event key ts ''custom_business_rule'')
     \<lparr>ev_ip_address := ''192.168.1.100'', ev_action_taken := ''logged'', ev_reason := ''Custom validation failed'',
      ev_endpoint := Some ''/api/custom'', ev_method := Some ''POST'',
      ev_metadata := PDict [(PStr ''rule'', PStr ''business_logic_1''), (PStr ''severity'', PStr ''medium'')]\<rparr>"

definition custom_metric :: "string \<Rightarrow> security_metric" where
  "custom_metric ts = \<lparr>mt_timestamp = ts, mt_metric_type = RequestCount, mt_value = 42, mt_endpoint = Some ''/api/custom'',
     mt_tags = PDict [(PStr ''type'', PStr ''business_metric''), (PStr ''category'', PStr ''validation'')]\<rparr>"

text \<open>
  \<open>basic_agent_usage\<close> after the construction: what stands in the \<open>try\<close>, then in the \<open>finally\<close>. The
  status that is printed is computed from the state; printing it is left out.
\<close>

definition usage_body :: "'r surroundings \<Rightarrow> nat \<Rightarrow> oid \<Rightarrow> oid \<Rightarrow> agent_env
   \<Rightarrow> (security_event, security_metric, 'r) agent_state
   \<Rightarrow> ((exn + unit) \<times> (security_event, security_metric, 'r) agent_state) option" where
  "usage_body U fuel i j env hs =
     (case start_agent (su_kit U) env (su_world U) (su_stop U) hs of
        (Inl e, hs1) \<Rightarrow> Some (Inl e, hs1)
      | (Inr _, h1, s1) \<Rightarrow>
          (case handler_send_event U fuel i (custom_event (su_key U) (su_timestamp U)) h1 of
             None \<Rightarrow> None
           | Some (Inl e, h2) \<Rightarrow> Some (Inl e, h2, s1)
           | Some (Inr _, h2) \<Rightarrow>
               map_option (\<lambda>(res, h3). (res, h3, s1)) (handler_send_metric U fuel j (custom_metric (su_timestamp U)) h2)))"

definition basic_agent_usage :: "'r surroundings \<Rightarrow> nat \<Rightarrow> oid \<Rightarrow> oid \<Rightarrow> agent_env
   \<Rightarrow> (security_event, security_metric, 'r) agent_state
   \<Rightarrow> ((exn + unit) \<times> (security_event, security_metric, 'r) agent_state) option" where
  "basic_agent_usage U fuel i j env hs =
     map_option (\<lambda>(res, hs').
        case stop_agent (su_kit U) env (su_world U) (su_stop U) hs' of
          (Inl e, hs'') \<Rightarrow> (Inl e, hs'') | (Inr _, hs'') \<Rightarrow> (res, hs''))
       (usage_body U fuel i j env hs)"

text \<open>The demo sends an event of a known type; the type of the example's event is one of its own.\<close>

lemma example_event_types:
  "ev_event_type (build_test_event key ts) \<in> set known_event_types"
  "ev_event_type (custom_event key ts) \<notin> set known_event_types"
  by (simp_all add: build_test_event_def custom_event_def new_event_def known_event_types_def)

section \<open>What the programs achieve\<close>

lemmas example_defs = handler_send_event_def handler_send_metric_def send_event_def send_metric_def normalize_given_def

text \<open>A configuration under which neither ingest waits nor refuses: the default policy.\<close>

lemma drop_round: "add_round K R Drop n key x s \<noteq> (Inr False, s')"
  by (cases s) (auto simp: add_round_def resolve_overflow_def append_item_def split: prod.splits sum.splits bool.splits option.splits if_splits)

text \<open>An agent after its construction: nothing buffered, no task, the configuration everywhere the same.\<close>

definition fresh_agent :: "agent_config \<Rightarrow> 'r agent \<Rightarrow> bool" where
  "fresh_agent c a \<longleftrightarrow> (\<exists>C pid now install_id nonce r. an_handler a = new_handler c now r
     \<and> transport_init C c install_id pid nonce = Inr (an_env a, an_transport a))"

lemma demo_agent_fresh:
  assumes "demo_agent C environ pid now install_id nonce r = (Inr (), Some a)"
  obtains c where "demo_config environ = Inr c" "fresh_agent c a"
proof -
  from assms obtain c where c: "demo_config environ = Inr c"
    by (auto simp: demo_agent_def split: sum.splits)
  with assms have "fresh_agent c a"
    by (auto simp: demo_agent_def construct_handler_def handler_new_def handler_init_def fresh_agent_def split: sum.splits if_splits prod.splits)
      blast+
  with c that show thesis by blast
qed

lemma demo_config_simps:
  assumes "demo_config environ = Inr c"
  shows "cf_buffer_size c = 10" "cf_overflow_policy c = Drop" "cf_enable_events c" "cf_enable_metrics c"
    "cf_high_watermark_ratio c = 8 / 10" "cf_retry_attempts c = 3"
  using assms by (cases "fst (validate_endpoint (agent_endpoint environ) False)"; auto simp: demo_config_def default_config_def)+

text \<open>A fresh agent starts when its HTTP client can be opened, and has room for a hundred calls.\<close>

lemma fresh_start:
  assumes "fresh_agent c a" and "kt_open_client K (client_headers (an_env a)) = None"
  obtains h s r where "start_agent K (an_env a) w E (an_handler a, first_run (an_transport a)) = (Inr (), h, s)"
    "hn_client h = (new_client c r)\<lparr>cl_buffer := (start_auto_flush (event_buffer_init c), r)\<rparr>"
    "rn_trace s = []" "room T 2 (rn_transport s)"
proof -
  obtain C pid now install_id nonce r where a: "an_handler a = new_handler c now r"
      "transport_init C c install_id pid nonce = Inr (an_env a, an_transport a)"
    using assms(1) by (auto simp: fresh_agent_def)
  let ?tp = "an_transport a"
  have tp: "tp_client ?tp = None" "tp_breaker ?tp = circuit_breaker_init 5 60" "tp_limiter ?tp = rate_limiter_init 100 60"
    using a(2) by (auto simp: transport_init_def split: sum.splits dest!: sym [of _ "an_transport a"])
  have "initialize K (an_env a) (first_run ?tp) = (Inr (), first_run (?tp\<lparr>tp_client := Some False\<rparr>))"
    using assms(2) tp by (simp add: initialize_def op_simps first_run_def)
  moreover have "room T 2 (?tp\<lparr>tp_client := Some False\<rparr>)"
    using tp by (simp add: room_def circuit_breaker_init_def rate_limiter_init_def)
  moreover obtain h where "hn_client h = (new_client c r)\<lparr>cl_buffer := (start_auto_flush (event_buffer_init c), r)\<rparr>"
    "start_agent K (an_env a) w E (an_handler a, first_run ?tp) = (Inr (), h, first_run (?tp\<lparr>tp_client := Some False\<rparr>))"
    using calculation(1) by (fastforce simp: start_agent_def Let_def a(1) new_handler_def update_buffer_def new_client_def)
  ultimately show thesis by (intro that) (auto simp: first_run_def)
qed

text \<open>Its first event is redacted and queued, alone.\<close>

lemma fresh_send_event:
  fixes U :: "'r surroundings"
  assumes h: "hn_client h = (new_client c r)\<lparr>cl_buffer := (start_auto_flush (event_buffer_init c), r)\<rparr>"
    and c: "cf_buffer_size c = 10" "cf_enable_events c" "cf_high_watermark_ratio c = 8 / 10"
    and x: "x = (i, redact_event_metadata (kt_values (su_kit U)) c event)"
  obtains h' where "handler_send_event U (Suc fuel) i event h = Some (Inr (), h')"
    "event_queue (hn_client h') = [x]" "metric_queue (hn_client h') = []" "cl_events (hn_client h') = lane_stats_init"
    "cl_metrics (hn_client h') = lane_stats_init" "events_wf (hn_client h')" "metrics_wf (hn_client h')"
    "redis_confirms (hn_client h')"
proof -
  obtain h' where "handler_send_event U (Suc fuel) i event h = Some (Inr (), h')"
    "hn_client h' = (new_client c r)\<lparr>cl_buffer := ((start_auto_flush (event_buffer_init c))
       \<lparr>bf_events := empty_lane\<lparr>ln_items := [x], ln_buffered := 1\<rparr>\<rparr>, r)\<rparr>"
    using c by (simp add: example_defs h hn_config_def new_client_def add_event_def add_event_round_def add_round_def
        resolve_overflow_def append_item_def lane_full_def deque_append_def start_auto_flush_def event_buffer_init_def
        buffer_maxlen_def empty_lane_def swallow_def early_flush_due_def x)
  moreover from this(2) have "event_queue (hn_client h') = [x]" "metric_queue (hn_client h') = []" "cl_events (hn_client h') = lane_stats_init"
    "cl_metrics (hn_client h') = lane_stats_init" "events_wf (hn_client h')" "metrics_wf (hn_client h')"
    "redis_confirms (hn_client h')"
    by (simp_all add: new_client_def event_queue_def metric_queue_def events_wf_def metrics_wf_def
        redis_confirms_def start_auto_flush_def event_buffer_init_def buffer_maxlen_def lane_wf_def empty_lane_def c(1))
  ultimately show thesis using that by blast
qed

text \<open>The event has been settled, or is buffered in a state from which a graceful stop delivers it.\<close>

definition on_its_way :: "time \<Rightarrow> kit \<Rightarrow> agent_env \<Rightarrow> 'r stop_env \<Rightarrow> security_event
   \<Rightarrow> (security_event, security_metric, 'r) agent_state \<Rightarrow> bool" where
  "on_its_way T K env E event = (\<lambda>(h, s). let cl = hn_client h in
     events_wf cl \<and> metrics_wf cl \<and> redis_confirms cl \<and> queues_sendable K env cl
     \<and> ls_retry_after (cl_events cl) \<le> se_clock E ! 0 \<and> ls_retry_after (cl_metrics cl) \<le> se_clock E ! 2
     \<and> room T 2 (rn_transport s)
     \<and> (ItemEvent event \<in> set (settled_items (rn_trace s)) \<or> event \<in> snd ` set (event_queue cl)))"

definition tasks_keep :: "((security_event, security_metric, 'r) agent_state \<Rightarrow> bool) \<Rightarrow> 'r stop_env \<Rightarrow> bool" where
  "tasks_keep P E \<longleftrightarrow> (\<forall>h s. P (h, s) \<longrightarrow> P (se_tasks E (h\<lparr>hn_running := False\<rparr>), s))"

lemma stop_settles:
  assumes fair: "fair_weather T K env w" and E: "undisturbed E" "tasks_keep (on_its_way T K env E event) E"
    and way: "on_its_way T K env E event (h, s)"
  obtains h' s' where "stop_agent K env w E (h, s) = (Inr (), h', s')" "quiet h'"
    "ItemEvent event \<in> set (settled_items (rn_trace s'))"
proof -
  let ?cl = "stopping_client E h"
  have "on_its_way T K env E event (se_tasks E (h\<lparr>hn_running := False\<rparr>), s)"
    using E(2) way by (simp add: tasks_keep_def)
  then have *: "events_wf ?cl" "metrics_wf ?cl" "redis_confirms ?cl" "queues_sendable K env ?cl"
      "ls_retry_after (cl_events ?cl) \<le> se_clock E ! 0" "ls_retry_after (cl_metrics ?cl) \<le> se_clock E ! 2"
      "room T 2 (rn_transport s)"
    and e: "ItemEvent event \<in> set (settled_items (rn_trace s)) \<or> event \<in> snd ` set (event_queue ?cl)"
    by (simp_all add: on_its_way_def Let_def stopping_client_def)
  from stop_delivers [OF fair E(1) refl *] obtain h' s' es where
      "stop_agent K env w E (h, s) = (Inr (), h', s')" "quiet h'" "rn_trace s' = rn_trace s @ es"
      "settled_items es = map (ItemEvent \<circ> snd) (event_queue ?cl) @ map (ItemMetric \<circ> snd) (metric_queue ?cl)"
    by blast
  with e show thesis by (intro that) (auto simp: image_def, force)
qed


text \<open>Under the default overflow policy an ingest ends in its first round and keeps the configuration.\<close>

lemma drop_loop:
  assumes "fst (attempt s) \<noteq> Inr False"
  obtains res where "wait_loop (Suc fuel) env k attempt s = Some (res, snd (attempt s))"
  using assms by (cases "attempt s"; cases "fst (attempt s)"; cases "projr (fst (attempt s))") auto

lemma drop_send_event:
  fixes U :: "'r surroundings"
  assumes "cf_overflow_policy (bf_config (hn_buffer h)) = Drop"
  obtains res h' where "handler_send_event U (Suc fuel) i event h = Some (res, h')" "bf_config (hn_buffer h') = bf_config (hn_buffer h)"
proof (cases "cf_enable_events (hn_config h)")
  case True
  let ?x = "(i, redact_event_metadata (kt_values (su_kit U)) (hn_config h) event)"
  let ?round = "add_event_round (su_event_kind U) (su_key U) ?x"
  have "fst (?round (cl_buffer (hn_client h))) \<noteq> Inr False"
    using assms by (cases "cl_buffer (hn_client h)") (auto simp: add_event_round_def hn_buffer_def drop_round split: prod.splits)
  then obtain res where "wait_loop (Suc fuel) (su_waits U) 0 ?round (cl_buffer (hn_client h))
      = Some (res, snd (?round (cl_buffer (hn_client h))))"
    by (rule drop_loop)
  with True that show thesis
    by (auto simp: example_defs add_event_def hn_buffer_def swallow_def add_event_round_def simp del: wait_loop.simps split: prod.splits)
qed (use that in \<open>simp add: example_defs hn_buffer_def\<close>)

lemma drop_send_metric:
  fixes U :: "'r surroundings"
  assumes "cf_overflow_policy (bf_config (hn_buffer h)) = Drop"
  shows "handler_send_metric U (Suc fuel) i metric h \<noteq> None"
proof (cases "cf_enable_metrics (hn_config h)")
  case True
  let ?x = "(i, redact_metric_tags (kt_values (su_kit U)) (hn_config h) metric)"
  let ?round = "add_metric_round (su_metric_kind U) (su_key U) ?x"
  have "fst (?round (cl_buffer (hn_client h))) \<noteq> Inr False"
    using assms by (cases "cl_buffer (hn_client h)") (auto simp: add_metric_round_def hn_buffer_def drop_round split: prod.splits)
  then obtain res where "wait_loop (Suc fuel) (su_waits U) 0 ?round (cl_buffer (hn_client h))
      = Some (res, snd (?round (cl_buffer (hn_client h))))"
    by (rule drop_loop)
  with True show ?thesis by (simp add: example_defs add_metric_def del: wait_loop.simps)
qed (simp add: example_defs)

lemma usage_body_returns:
  fixes U :: "'r surroundings"
  assumes "cf_overflow_policy (bf_config (hn_buffer h)) = Drop"
  obtains res h' s' where "usage_body U (Suc fuel) i j env (h, s) = Some (res, h', s')"
proof -
  obtain r h1 s1 where st: "start_agent (su_kit U) env (su_world U) (su_stop U) (h, s) = (r, h1, s1)" by (metis prod_cases3)
  show thesis
  proof (cases r)
    case (Inl e)
    with st that show thesis by (simp add: usage_body_def)
  next
    case (Inr u)
    then have "cf_overflow_policy (bf_config (hn_buffer h1)) = Drop"
      using st assms by (auto simp: start_agent_def Let_def start_auto_flush_def update_buffer_def hn_buffer_def
          split: if_splits sum.splits prod.splits)
    then obtain r2 h2 where 2: "handler_send_event U (Suc fuel) i (custom_event (su_key U) (su_timestamp U)) h1 = Some (r2, h2)"
        "cf_overflow_policy (bf_config (hn_buffer h2)) = Drop"
      by (metis drop_send_event)
    from 2(2) obtain r3 h3 where "handler_send_metric U (Suc fuel) j (custom_metric (su_timestamp U)) h2 = Some (r3, h3)"
      by (metis drop_send_metric not_None_eq surj_pair)
    with st Inr 2(1) that show thesis by (cases r2) (auto simp: usage_body_def)
  qed
qed

text \<open>
  The example for direct usage always ends and cleans up. With its configuration, whatever the server
  answers, the other tasks do and the calls raise, \<open>basic_agent_usage\<close> returns or raises, and at its end no
  loop of the agent runs; unless it was cancelled, no early flush is left and the HTTP client is closed.
\<close>

lemma basic_usage_cleans_up:
  fixes U :: "'r surroundings"
  assumes "calm (su_stop U)" and "bf_config (hn_buffer h) = usage_config"
  shows "\<exists>res h' s'. basic_agent_usage U (Suc fuel) i j env (h, s) = Some (res, h', s') \<and> loops_over h'
    \<and> (res = Inl CancelledError \<or> quiet h' \<and> tp_client (rn_transport s') \<noteq> Some False)"
proof -
  have "cf_overflow_policy (bf_config (hn_buffer h)) = Drop"
    by (simp add: assms(2) usage_config_def default_config_def)
  then obtain r1 h1 s1 where 1: "usage_body U (Suc fuel) i j env (h, s) = Some (r1, h1, s1)" by (rule usage_body_returns)
  obtain r2 h2 s2 where 2: "stop_agent (su_kit U) env (su_world U) (su_stop U) (h1, s1) = (r2, h2, s2)" by (metis prod_cases3)
  show ?thesis using stop_agent_quiet [OF assms(1) 2] 1 2 by (auto simp: basic_agent_usage_def)
qed

section \<open>Concrete programs\<close>

definition sample_surroundings :: "unit surroundings" where
  "sample_surroundings = \<lparr>su_kit = sample_kit, su_world = sample_world (status_reply 201), su_stop = idle_env 500,
     su_waits = (\<lambda>k. Some), su_event_kind = sample_event_kind, su_metric_kind = sample_metric_kind,
     su_timestamp = ''2025-01-01T00:00:00'', su_key = ''k''\<rparr>"

lemma sample_stop:
  "undisturbed (su_stop sample_surroundings)" "tasks_keep (on_its_way T K env E event) (su_stop sample_surroundings)"
  "0 \<le> se_clock (su_stop sample_surroundings) ! 0" "0 \<le> se_clock (su_stop sample_surroundings) ! 2"
  by (simp_all add: sample_surroundings_def undisturbed_def idle_env_calm tasks_keep_def on_its_way_def)
    (simp_all add: idle_env_def id_def)

lemma sample_demo_agent:
  obtains a where "demo_agent sample_crypt (\<lambda>_. None) 7 900 ''i'' [] () = (Inr (), Some a)"
    "0 \<le> cf_retry_attempts (hn_config (an_handler a))"
    "an_env a = \<lparr>ae_config = hn_config (an_handler a), ae_install_id = ''i'', ae_encryptor = None, ae_encryption_enabled = False\<rparr>"
proof -
  have "validate_endpoint ''https://api.guard-core.com'' False = (Inr ''https://api.guard-core.com'', False)" by code_simp
  then show thesis
    by (intro that [of "the (snd (demo_agent sample_crypt (\<lambda>_. None) 7 900 ''i'' [] ()))"])
      (simp_all add: demo_agent_def demo_config_def agent_endpoint_def agent_project_id_def getenv_def construct_handler_def
        handler_new_def handler_init_def validate_config_def transport_init_def init_encryption_def default_config_def
        starts_with_def new_handler_def hn_config_def new_client_def)
qed


lemma basic_usage_concrete:
  "\<exists>res h s. basic_agent_usage sample_surroundings 1 3 4 sample_env (new_handler usage_config 900 (), sample_run) = Some (res, h, s)
     \<and> loops_over h"
proof -
  have "calm (su_stop sample_surroundings)" by (simp add: sample_surroundings_def idle_env_calm)
  moreover have "bf_config (hn_buffer (new_handler usage_config 900 ())) = usage_config"
    by (simp add: new_handler_def new_client_def hn_buffer_def event_buffer_init_def)
  ultimately show ?thesis
    using basic_usage_cleans_up [of sample_surroundings "new_handler usage_config 900 ()" 0 3 4 sample_env sample_run]
    by auto
qed

end
