(* ===== verification/BasicUsage.thy ===== *)
theory BasicUsage
  imports Examples
begin

text \<open>
  The rest of \<open>examples/basic_usage.py\<close>: the FastAPI application it exports, and its \<open>main\<close>. FastAPI and
  \<open>guard\<close> are packages outside the repository, and \<open>framework\<close> is what the example calls of them: \<open>'c\<close> are
  its security configurations, \<open>'d\<close> its decorators, \<open>'e\<close> endpoints and \<open>'a\<close> applications. What is printed
  is left out.
\<close>

section \<open>The application\<close>

record ('c, 'd, 'e, 'a) framework =
  fw_security_config :: "(string \<times> pyval) list \<Rightarrow> exn + 'c"
  fw_enable_agent :: "'c \<Rightarrow> pyval"
  fw_fastapi :: "string \<Rightarrow> exn + 'a"
  fw_add_middleware :: "'c \<Rightarrow> 'a \<Rightarrow> exn + 'a"
  fw_decorator :: "'c \<Rightarrow> exn + 'd"
  fw_set_decorator :: "'d \<Rightarrow> 'a \<Rightarrow> exn + 'a"
  fw_function :: "(unit \<Rightarrow> pydict) \<Rightarrow> 'e"
  fw_rate_limit :: "'d \<Rightarrow> int \<Rightarrow> int \<Rightarrow> 'e \<Rightarrow> exn + 'e"
  fw_require_ip :: "'d \<Rightarrow> string list \<Rightarrow> 'e \<Rightarrow> exn + 'e"
  fw_block_countries :: "'d \<Rightarrow> string list \<Rightarrow> 'e \<Rightarrow> exn + 'e"
  fw_get :: "string \<Rightarrow> 'e \<Rightarrow> 'a \<Rightarrow> exn + 'a"

text \<open>One statement after another; an exception ends the function.\<close>

definition and_then :: "exn + 'x \<Rightarrow> ('x \<Rightarrow> exn + 'y) \<Rightarrow> exn + 'y" where
  "and_then res f = (case res of Inl e \<Rightarrow> Inl e | Inr x \<Rightarrow> f x)"

lemma and_then_simps [simp]: "and_then (Inl e) f = Inl e" "and_then (Inr x) f = f x"
  by (simp_all add: and_then_def)

text \<open>The keyword arguments of \<open>SecurityConfig(...)\<close>.\<close>

definition security_config_args :: "(string \<times> pyval) list" where
  "security_config_args = [
     (''auto_ban_threshold'', PInt 5), (''auto_ban_duration'', PInt 300),
     (''enable_rate_limiting'', PBool True), (''rate_limit'', PInt 100), (''rate_limit_window'', PInt 60),
     (''enable_agent'', PBool True), (''agent_api_key'', PStr ''demo-api-key-12345''),
     (''agent_project_id'', PStr ''fastapi-demo''), (''agent_endpoint'', PStr ''https://api.guard-core.com''),
     (''agent_buffer_size'', PInt 50), (''agent_flush_interval'', PInt 30),
     (''agent_enable_events'', PBool True), (''agent_enable_metrics'', PBool True),
     (''enable_dynamic_rules'', PBool True), (''dynamic_rule_interval'', PInt 300)]"

text \<open>The five routes: the decorators apply from the innermost outwards, \<open>app.get\<close> last.\<close>

definition message :: "string \<Rightarrow> string \<Rightarrow> unit \<Rightarrow> pydict" where
  "message key text u = [(PStr key, PStr text)]"

definition add_root :: "('c, 'd, 'e, 'a) framework \<Rightarrow> 'a \<Rightarrow> exn + 'a" where
  "add_root F = fw_get F ''/'' (fw_function F (message ''message'' ''Guard Agent Demo (FastAPI adapter) - Automatic Integration''))"

definition add_protected :: "('c, 'd, 'e, 'a) framework \<Rightarrow> 'd \<Rightarrow> 'a \<Rightarrow> exn + 'a" where
  "add_protected F guard app =
     and_then (fw_rate_limit F guard 5 60 (fw_function F (message ''message'' ''This endpoint is rate limited''))) (\<lambda>endpoint.
       fw_get F ''/protected'' endpoint app)"

definition add_admin :: "('c, 'd, 'e, 'a) framework \<Rightarrow> 'd \<Rightarrow> 'a \<Rightarrow> exn + 'a" where
  "add_admin F guard app =
     and_then (fw_rate_limit F guard 2 300 (fw_function F (message ''message'' ''Admin access granted''))) (\<lambda>limited.
     and_then (fw_require_ip F guard [''127.0.0.1'', ''10.0.0.0/8''] limited) (\<lambda>endpoint.
       fw_get F ''/admin'' endpoint app))"

definition add_api_data :: "('c, 'd, 'e, 'a) framework \<Rightarrow> 'd \<Rightarrow> 'a \<Rightarrow> exn + 'a" where
  "add_api_data F guard app =
     and_then (fw_rate_limit F guard 10 60 (fw_function F (message ''data'' ''Sensitive information''))) (\<lambda>limited.
     and_then (fw_block_countries F guard [''CN'', ''RU''] limited) (\<lambda>endpoint.
       fw_get F ''/api/data'' endpoint app))"

definition add_health :: "('c, 'd, 'e, 'a) framework \<Rightarrow> 'c \<Rightarrow> 'a \<Rightarrow> exn + 'a" where
  "add_health F security_config =
     fw_get F ''/health'' (fw_function F (\<lambda>u. [(PStr ''app'', PStr ''healthy''), (PStr ''agent_enabled'', fw_enable_agent F security_config)]))"

definition create_fastapi_app_with_agent :: "('c, 'd, 'e, 'a) framework \<Rightarrow> exn + 'a" where
  "create_fastapi_app_with_agent F =
     and_then (fw_security_config F security_config_args) (\<lambda>security_config.
     and_then (fw_fastapi F ''Guard Agent Example (FastAPI)'') (\<lambda>app.
     and_then (fw_add_middleware F security_config app) (\<lambda>app.
     and_then (fw_decorator F security_config) (\<lambda>guard.
     and_then (fw_set_decorator F guard app) (\<lambda>app.
     and_then (add_root F app) (\<lambda>app.
     and_then (add_protected F guard app) (\<lambda>app.
     and_then (add_admin F guard app) (\<lambda>app.
     and_then (add_api_data F guard app) (\<lambda>app.
       add_health F security_config app)))))))))"

section \<open>The program\<close>

text \<open>
  \<open>main\<close>: it makes an application, drops it, and runs the direct usage. The handler it constructs is the
  state \<open>hs\<close>; the configuration is \<open>usage_config\<close>, whose validators pass.
\<close>

definition usage_main :: "('c, 'd, 'e, 'a) framework \<Rightarrow> 'r surroundings \<Rightarrow> nat \<Rightarrow> oid \<Rightarrow> oid \<Rightarrow> agent_env
   \<Rightarrow> (security_event, security_metric, 'r) agent_state
   \<Rightarrow> ((exn + unit) \<times> (security_event, security_metric, 'r) agent_state) option" where
  "usage_main F U fuel i j env hs =
     (case create_fastapi_app_with_agent F of
        Inl e \<Rightarrow> Some (Inl e, hs)
      | Inr app \<Rightarrow> basic_agent_usage U fuel i j env hs)"

text \<open>\<open>main\<close> ends, and if the packages it needs work, it cleans up.\<close>

theorem usage_main_cleans_up:
  fixes U :: "'r surroundings"
  assumes "calm (su_stop U)" and "bf_config (hn_buffer h) = usage_config"
  shows "\<exists>res h' s'. usage_main F U (Suc fuel) i j env (h, s) = Some (res, h', s')
    \<and> ((\<exists>e. create_fastapi_app_with_agent F = Inl e \<and> res = Inl e \<and> h' = h \<and> s' = s)
       \<or> loops_over h' \<and> (res = Inl CancelledError \<or> quiet h' \<and> tp_client (rn_transport s') \<noteq> Some False))"
proof (cases "create_fastapi_app_with_agent F")
  case (Inr app)
  with basic_usage_cleans_up [OF assms, of fuel i j env s] show ?thesis by (fastforce simp: usage_main_def)
qed (simp add: usage_main_def)

text \<open>
  A framework that notes what it is told: the application has the agent on, each route once, and behind
  its rate limit every route that has one.
\<close>

definition noting :: "((string \<times> pyval) list, unit, string list \<times> pydict, (string \<times> string list \<times> pydict) list) framework" where
  "noting = \<lparr>fw_security_config = Inr, fw_enable_agent = (\<lambda>c. the (map_of c ''enable_agent'')), fw_fastapi = (\<lambda>title. Inr []),
     fw_add_middleware = (\<lambda>c. Inr), fw_decorator = (\<lambda>c. Inr ()), fw_set_decorator = (\<lambda>d. Inr), fw_function = (\<lambda>f. ([], f ())),
     fw_rate_limit = (\<lambda>d n w (marks, body). Inr (''limited'' # marks, body)),
     fw_require_ip = (\<lambda>d ips (marks, body). Inr (''by address'' # marks, body)),
     fw_block_countries = (\<lambda>d cs (marks, body). Inr (''by country'' # marks, body)),
     fw_get = (\<lambda>path endpoint app. Inr ((path, endpoint) # app))\<rparr>"

lemma noted_application:
  "\<exists>app. create_fastapi_app_with_agent noting = Inr app \<and> distinct (map fst app)
    \<and> map_of app ''/health'' = Some ([], [(PStr ''app'', PStr ''healthy''), (PStr ''agent_enabled'', PBool True)])
    \<and> (\<forall>path \<in> {''/protected'', ''/admin'', ''/api/data''}. \<exists>marks body. map_of app path = Some (marks, body) \<and> last marks = ''limited'')"
  by (simp add: create_fastapi_app_with_agent_def noting_def security_config_args_def add_root_def add_protected_def add_admin_def
      add_api_data_def add_health_def message_def)

theorem usage_main_cleans_up_witness:
  "\<exists>res h s. usage_main noting sample_surroundings 1 3 4 sample_env (new_handler usage_config 900 (), sample_run) = Some (res, h, s)
     \<and> loops_over h"
proof -
  have "calm (su_stop sample_surroundings)" by (simp add: sample_surroundings_def idle_env_calm)
  moreover have "bf_config (hn_buffer (new_handler usage_config 900 ())) = usage_config"
    by (simp add: new_handler_def new_client_def hn_buffer_def event_buffer_init_def)
  moreover obtain app where "create_fastapi_app_with_agent noting = Inr app" using noted_application by blast
  ultimately show ?thesis
    using usage_main_cleans_up [of sample_surroundings "new_handler usage_config 900 ()" noting 0 3 4 sample_env sample_run]
    by auto
qed

end
