(* ===== verification/Locking.thy ===== *)
theory Locking
  imports Mailbox
begin

text \<open>
  One queue with its lock. In \<open>Interleave\<close> a critical section is one step. Here the sections are cut
  where the code awaits inside them (the Redis calls of an add keep the lock of the condition), tasks
  wait for the lock, and a task can be cancelled at any of its awaits. It is shown that the lock does
  what the coarse model takes for granted, and where a cancellation breaks it.
\<close>

section \<open>The stretches of an add\<close>

text \<open>
  \<open>_resolve_*_overflow\<close> up to its await: what the writer does next. The lane of \<open>RoomFor\<close> may be
  appended to; \<open>Deleting\<close> has a Redis key to delete first.
\<close>

datatype 'a entry = Refused exn | MustWait | RoomFor "'a lane" | Deleting string "'a lane"

definition enter_add :: "'a lane_kind \<Rightarrow> 'r redis_handler option \<Rightarrow> overflow_policy \<Rightarrow> nat \<Rightarrow> 'a lane \<Rightarrow> 'a entry" where
  "enter_add K R policy n L =
     (if \<not> lane_full n L then RoomFor L
      else case policy of
        Raise \<Rightarrow> Refused (BufferFullError (lk_full_message K))
      | Block \<Rightarrow> MustWait
      | Drop \<Rightarrow>
          (case forget_oldest_key (L\<lparr>ln_dropped := ln_dropped L + 1\<rparr>) of
             (None, L') \<Rightarrow> RoomFor L'
           | (Some key, L') \<Rightarrow> if key = [] \<or> R = None then RoomFor L' else Deleting key L'))"

text \<open>The append, up to the await of the persist; and what follows that await.\<close>

definition append_lane :: "nat \<Rightarrow> 'a obj \<Rightarrow> 'a lane \<Rightarrow> 'a lane" where
  "append_lane n x L = L\<lparr>ln_items := deque_append n x (ln_items L), ln_buffered := ln_buffered L + 1\<rparr>"

definition note_key :: "'a obj \<Rightarrow> exn + string option \<Rightarrow> 'a lane \<Rightarrow> 'a lane" where
  "note_key x res L = (case res of Inr (Some k) \<Rightarrow> L\<lparr>ln_keys := (ln_keys L)(fst x \<mapsto> k)\<rparr> | _ \<Rightarrow> L)"

text \<open>The stretches one after the other, with nothing in between.\<close>

definition store_stretch :: "'a lane_kind \<Rightarrow> 'r redis_handler option \<Rightarrow> string \<Rightarrow> 'a obj \<Rightarrow> ('a, 'r) lane_state
   \<Rightarrow> (exn + bool) \<times> ('a, 'r) lane_state" where
  "store_stretch K R key x = (\<lambda>(L, fails, r).
     case persist_item K R key (snd x) (fails, r) of
       (res, fails', r') \<Rightarrow>
         ((case res of Inl e \<Rightarrow> if catchable e then Inr True else Inl e | Inr _ \<Rightarrow> Inr True), note_key x res L, fails', r'))"

definition add_in_stretches ::
  "'a lane_kind \<Rightarrow> 'r redis_handler option \<Rightarrow> overflow_policy \<Rightarrow> nat \<Rightarrow> string \<Rightarrow> 'a obj
   \<Rightarrow> ('a, 'r) lane_state \<Rightarrow> (exn + bool) \<times> ('a, 'r) lane_state" where
  "add_in_stretches K R policy n key x = (\<lambda>(L, fails, r).
     case enter_add K R policy n L of
       Refused e \<Rightarrow> (Inl e, L, fails, r)
     | MustWait \<Rightarrow> (Inr False, L, fails, r)
     | RoomFor L' \<Rightarrow> store_stretch K R key x (append_lane n x L', fails, r)
     | Deleting k L' \<Rightarrow>
         (case confirm_keys R (lk_namespace K) [k] r of
            (Inl e, r') \<Rightarrow> (Inl e, L', fails, r')
          | (Inr _, r') \<Rightarrow> store_stretch K R key x (append_lane n x L', fails, r')))"


section \<open>Tasks\<close>

text \<open>
  What a task wants the lock for, and where it stands. \<open>MakingRoom\<close> and \<open>Storing\<close> are the awaits
  inside an add: there the task holds the lock. A \<open>Blocked\<close> writer waits for the condition. A batch
  that is being sent is in \<open>Sending\<close>, or in \<open>Waiting (PutBack ...)\<close> once its send has failed.
\<close>

datatype 'a request = Add "'a obj" string | Drain | PutBack "'a obj list" "string list"

datatype 'a stage =
    Waiting "'a request"
  | Blocked "'a obj" string
  | MakingRoom "'a obj" string string
  | Storing "'a obj" string
  | Sending "'a obj list" "string list"
  | Ended

text \<open>
  The ghost components record what was appended, settled by the server, dropped by the bound, and
  given up by a cancellation.
\<close>

record ('a, 'r) locked =
  lq_lane :: "'a lane"
  lq_fails :: int
  lq_redis :: 'r
  lq_holder :: "nat option"
  lq_tasks :: "'a stage list"
  lq_added :: "'a obj list"
  lq_settled :: "'a obj list"
  lq_lost :: "'a obj list"
  lq_forgotten :: "'a obj list"

definition locked_init :: "'r \<Rightarrow> ('a, 'r) locked" where
  "locked_init r = \<lparr>lq_lane = empty_lane, lq_fails = 0, lq_redis = r, lq_holder = None, lq_tasks = [], lq_added = [],
     lq_settled = [], lq_lost = [], lq_forgotten = []\<rparr>"

text \<open>Task \<open>i\<close> leaves the lock (if it held it) and stands at \<open>t\<close>; or stands at \<open>t\<close> and holds the lock.\<close>

definition leave_at :: "nat \<Rightarrow> 'a stage \<Rightarrow> ('a, 'r) locked \<Rightarrow> ('a, 'r) locked" where
  "leave_at i t s = s\<lparr>lq_tasks := (lq_tasks s)[i := t], lq_holder := None\<rparr>"

definition stay_at :: "nat \<Rightarrow> 'a stage \<Rightarrow> ('a, 'r) locked \<Rightarrow> ('a, 'r) locked" where
  "stay_at i t s = s\<lparr>lq_tasks := (lq_tasks s)[i := t], lq_holder := Some i\<rparr>"

text \<open>The code from the acquired lock on, up to the next await.\<close>

definition append_section :: "'r redis_handler option \<Rightarrow> nat \<Rightarrow> nat \<Rightarrow> 'a obj \<Rightarrow> string \<Rightarrow> ('a, 'r) locked \<Rightarrow> ('a, 'r) locked" where
  "append_section R n i x key s =
     (let q = ln_items (lq_lane s);
          s' = s\<lparr>lq_lane := append_lane n x (lq_lane s), lq_added := lq_added s @ [x],
                 lq_lost := lq_lost s @ take (Suc (length q) - n) q\<rparr>
      in if R = None then leave_at i Ended s' else stay_at i (Storing x key) s')"

fun run_section :: "'a lane_kind \<Rightarrow> 'r redis_handler option \<Rightarrow> overflow_policy \<Rightarrow> nat \<Rightarrow> nat \<Rightarrow> 'a request
   \<Rightarrow> ('a, 'r) locked \<Rightarrow> ('a, 'r) locked" where
  "run_section K R policy n i (Add x key) s =
     (case enter_add K R policy n (lq_lane s) of
        Refused e \<Rightarrow> leave_at i Ended s
      | MustWait \<Rightarrow> leave_at i (Blocked x key) s
      | RoomFor L \<Rightarrow> append_section R n i x key (s\<lparr>lq_lane := L\<rparr>)
      | Deleting k L \<Rightarrow> stay_at i (MakingRoom x key k) (s\<lparr>lq_lane := L\<rparr>))"
| "run_section K R policy n i Drain s =
     (case flush_with_keys (lq_lane s) of (xs, ks, L) \<Rightarrow>
        leave_at i (if xs = [] then Ended else Sending xs ks) (s\<lparr>lq_lane := L\<rparr>))"
| "run_section K R policy n i (PutBack xs ks) s =
     leave_at i Ended (s\<lparr>lq_lane := snd (requeue_in_memory n xs ks (lq_lane s)),
       lq_lost := lq_lost s @ drop n (xs @ ln_items (lq_lane s))\<rparr>)"

text \<open>\<open>asyncio.Lock.acquire\<close>: at once when nobody holds the lock or waits for it, else the task waits.\<close>

fun is_waiting :: "'a stage \<Rightarrow> bool" where
  "is_waiting (Waiting _) = True"
| "is_waiting _ = False"

definition lock_free :: "('a, 'r) locked \<Rightarrow> bool" where
  "lock_free s \<longleftrightarrow> lq_holder s = None \<and> list_all (\<lambda>t. \<not> is_waiting t) (lq_tasks s)"

definition acquire :: "'a lane_kind \<Rightarrow> 'r redis_handler option \<Rightarrow> overflow_policy \<Rightarrow> nat \<Rightarrow> nat \<Rightarrow> 'a request
   \<Rightarrow> ('a, 'r) locked \<Rightarrow> ('a, 'r) locked" where
  "acquire K R policy n i req s =
     (let s' = s\<lparr>lq_tasks := (lq_tasks s)[i := Waiting req]\<rparr>
      in if lock_free s then run_section K R policy n i req s' else s')"

text \<open>What a task holds outside the queue; the part of it that was in the queue.\<close>

fun held :: "'a stage \<Rightarrow> 'a obj list" where
  "held (Waiting (Add x key)) = [x]"
| "held (Waiting (PutBack xs ks)) = xs"
| "held (Blocked x key) = [x]"
| "held (MakingRoom x key k) = [x]"
| "held (Sending xs ks) = xs"
| "held _ = []"

fun flown :: "'a stage \<Rightarrow> 'a obj list" where
  "flown (Waiting (PutBack xs ks)) = xs"
| "flown (Sending xs ks) = xs"
| "flown _ = []"

definition objects :: "('a, 'r) locked \<Rightarrow> 'a obj multiset" where
  "objects s = mset (ln_items (lq_lane s)) + mset (concat (map held (lq_tasks s)))"

definition in_flight :: "('a, 'r) locked \<Rightarrow> 'a obj multiset" where
  "in_flight s = mset (concat (map flown (lq_tasks s)))"

text \<open>
  The steps. A task arrives with a new object to add, or to drain the queue; a waiting task gets the
  free lock; a blocked writer wakes up, at a notification or after half a second; a Redis call ends; a
  send ends. Each await can be cancelled instead: a wait for the lock (where a batch to be put back is
  given up), a wait for the condition, the Redis calls. A cancelled send is a failed one. Other code
  changes the Redis side at any time.
\<close>

inductive locked_step ::
  "'a lane_kind \<Rightarrow> 'r redis_handler option \<Rightarrow> overflow_policy \<Rightarrow> nat \<Rightarrow> ('a, 'r) locked \<Rightarrow> ('a, 'r) locked \<Rightarrow> bool"
  for K R policy n where
  arrive: "fst x \<notin> fst ` set_mset (objects s) \<Longrightarrow> key \<noteq> [] \<Longrightarrow>
    locked_step K R policy n s (acquire K R policy n (length (lq_tasks s)) (Add x key) (s\<lparr>lq_tasks := lq_tasks s @ [Ended]\<rparr>))"
| collect: "locked_step K R policy n s (acquire K R policy n (length (lq_tasks s)) Drain (s\<lparr>lq_tasks := lq_tasks s @ [Ended]\<rparr>))"
| grant: "i < length (lq_tasks s) \<Longrightarrow> lq_tasks s ! i = Waiting req \<Longrightarrow> lq_holder s = None \<Longrightarrow>
    locked_step K R policy n s (run_section K R policy n i req s)"
| wake: "i < length (lq_tasks s) \<Longrightarrow> lq_tasks s ! i = Blocked x key \<Longrightarrow>
    locked_step K R policy n s (acquire K R policy n i (Add x key) s)"
| room_made: "i < length (lq_tasks s) \<Longrightarrow> lq_tasks s ! i = MakingRoom x key k \<Longrightarrow>
    confirm_keys R (lk_namespace K) [k] (lq_redis s) = (res, r) \<Longrightarrow>
    locked_step K R policy n s
      (case res of Inl e \<Rightarrow> leave_at i Ended (s\<lparr>lq_redis := r\<rparr>) | Inr _ \<Rightarrow> append_section R n i x key (s\<lparr>lq_redis := r\<rparr>))"
| stored: "i < length (lq_tasks s) \<Longrightarrow> lq_tasks s ! i = Storing x key \<Longrightarrow>
    persist_item K R key (snd x) (lq_fails s, lq_redis s) = (res, fails, r) \<Longrightarrow>
    locked_step K R policy n s (leave_at i Ended (s\<lparr>lq_lane := note_key x res (lq_lane s), lq_fails := fails, lq_redis := r\<rparr>))"
| sent: "i < length (lq_tasks s) \<Longrightarrow> lq_tasks s ! i = Sending xs ks \<Longrightarrow>
    locked_step K R policy n s (s\<lparr>lq_tasks := (lq_tasks s)[i := Ended], lq_settled := lq_settled s @ xs\<rparr>)"
| unsent: "i < length (lq_tasks s) \<Longrightarrow> lq_tasks s ! i = Sending xs ks \<Longrightarrow>
    locked_step K R policy n s (acquire K R policy n i (PutBack xs ks) s)"
| cancel_wait: "i < length (lq_tasks s) \<Longrightarrow> lq_tasks s ! i = Waiting req \<Longrightarrow>
    locked_step K R policy n s (s\<lparr>lq_tasks := (lq_tasks s)[i := Ended], lq_forgotten := lq_forgotten s @ flown (Waiting req)\<rparr>)"
| cancel_blocked: "i < length (lq_tasks s) \<Longrightarrow> lq_tasks s ! i = Blocked x key \<Longrightarrow>
    locked_step K R policy n s (s\<lparr>lq_tasks := (lq_tasks s)[i := Ended]\<rparr>)"
| cancel_inside: "lq_holder s = Some i \<Longrightarrow> locked_step K R policy n s (leave_at i Ended s)"
| redis: "locked_step K R policy n s (s\<lparr>lq_redis := r\<rparr>)"

inductive locked_reachable ::
  "'a lane_kind \<Rightarrow> 'r redis_handler option \<Rightarrow> overflow_policy \<Rightarrow> nat \<Rightarrow> 'r \<Rightarrow> ('a, 'r) locked \<Rightarrow> bool"
  for K R policy n r0 where
  start: "locked_reachable K R policy n r0 (locked_init r0)"
| step: "locked_reachable K R policy n r0 s \<Longrightarrow> locked_step K R policy n s s' \<Longrightarrow> locked_reachable K R policy n r0 s'"

section \<open>The invariant\<close>

text \<open>A task that holds the lock across an await, and what is known while it does.\<close>

fun inside :: "'a stage \<Rightarrow> bool" where
  "inside (MakingRoom x key k) = True"
| "inside (Storing x key) = True"
| "inside _ = False"

fun stage_ok :: "nat \<Rightarrow> 'a lane \<Rightarrow> 'a stage \<Rightarrow> bool" where
  "stage_ok n L (Waiting (Add x key)) = (key \<noteq> [])"
| "stage_ok n L (Waiting (PutBack xs ks)) = (length xs = length ks)"
| "stage_ok n L (Blocked x key) = (key \<noteq> [])"
| "stage_ok n L (MakingRoom x key k) = (key \<noteq> [] \<and> lane_ready n L)"
| "stage_ok n L (Storing x key) = (key \<noteq> [] \<and> x \<in> set (ln_items L))"
| "stage_ok n L (Sending xs ks) = (length xs = length ks)"
| "stage_ok n L _ = True"

text \<open>No two objects have one identity.\<close>

definition uniq :: "'b multiset \<Rightarrow> bool" where
  "uniq M \<longleftrightarrow> (\<forall>a. count M a \<le> 1)"

definition identities :: "'a obj multiset \<Rightarrow> oid multiset" where
  "identities M = image_mset fst M"

lemma uniq_mono: "uniq N \<Longrightarrow> M \<subseteq># N \<Longrightarrow> uniq M"
  unfolding uniq_def by (meson le_trans mset_subset_eq_count)

lemma uniq_identities_mono: "uniq (identities N) \<Longrightarrow> M \<subseteq># N \<Longrightarrow> uniq (identities M)"
  unfolding identities_def by (blast intro: uniq_mono image_mset_subseteq_mono)

lemma uniq_add: "uniq M \<Longrightarrow> a \<notin># M \<Longrightarrow> uniq (add_mset a M)"
  by (simp add: uniq_def not_in_iff)

lemma uniq_mset: "uniq (mset xs) \<longleftrightarrow> distinct xs"
  unfolding uniq_def
proof (induction xs)
  case (Cons x xs)
  have "(\<forall>a. count (mset (x # xs)) a \<le> 1) \<longleftrightarrow> x \<notin> set xs \<and> (\<forall>a. count (mset xs) a \<le> 1)"
    using count_greater_zero_iff [of "mset xs" x] by (auto simp: not_in_iff le_Suc_eq split: if_splits)
  with Cons show ?case by simp
qed simp

lemma uniq_identities_list: "uniq (identities (mset xs)) \<longleftrightarrow> distinct (map fst xs)"
  by (simp add: identities_def flip: uniq_mset)

definition excludes :: "('a, 'r) locked \<Rightarrow> bool" where
  "excludes s \<longleftrightarrow> (\<forall>i. lq_holder s = Some i \<longrightarrow> i < length (lq_tasks s))
     \<and> (\<forall>i < length (lq_tasks s). inside (lq_tasks s ! i) \<longleftrightarrow> lq_holder s = Some i)"

definition conserves :: "('a, 'r) locked \<Rightarrow> bool" where
  "conserves s \<longleftrightarrow> mset (lq_added s) = mset (ln_items (lq_lane s)) + in_flight s + mset (lq_settled s) + mset (lq_lost s)
     + mset (lq_forgotten s)"

definition locked_inv :: "nat \<Rightarrow> ('a, 'r) locked \<Rightarrow> bool" where
  "locked_inv n s \<longleftrightarrow> lane_wf n (lq_lane s) \<and> uniq (identities (objects s)) \<and> conserves s \<and> excludes s
     \<and> list_all (stage_ok n (lq_lane s)) (lq_tasks s)"

lemma locked_invD:
  assumes "locked_inv n s"
  shows "lane_wf n (lq_lane s)" "uniq (identities (objects s))" "conserves s" "excludes s"
    "\<And>t. t \<in> set (lq_tasks s) \<Longrightarrow> stage_ok n (lq_lane s) t"
  using assms by (auto simp: locked_inv_def list_all_iff)

lemma locked_inv_init: "locked_inv n (locked_init r)"
  by (simp add: locked_inv_def locked_init_def conserves_def excludes_def objects_def in_flight_def uniq_def identities_def
      empty_lane_def lane_wf_def)

subsection \<open>One task moves\<close>

lemma concat_update:
  "i < length ts \<Longrightarrow> mset (concat (map f (ts[i := t]))) + mset (f (ts ! i)) = mset (concat (map f ts)) + mset (f t)"
  by (induction ts arbitrary: i) (auto split: nat.split simp: less_Suc_eq_0_disj ac_simps)

lemmas held_update = concat_update [where f = held]
lemmas flown_update = concat_update [where f = flown]

lemma stage_ok_outside: "\<not> inside t \<Longrightarrow> stage_ok n L t = stage_ok n L' t"
  by (cases "(n, L, t)" rule: stage_ok.cases) simp_all

text \<open>
  How a step keeps the invariant: task \<open>i\<close> goes to \<open>t\<close>; the other tasks stay, and none of them holds
  the lock if the lane changes.
\<close>

lemma move_keeps:
  assumes inv: "locked_inv n s" and i: "i < length (lq_tasks s)" and free: "lq_lane s' = lq_lane s \<or> lq_holder s = None \<or> lq_holder s = Some i"
    and tasks: "lq_tasks s' = (lq_tasks s)[i := t]" and holder: "excludes s'"
    and wf: "lane_wf n (lq_lane s')" and ok: "stage_ok n (lq_lane s') t"
    and objs: "mset (ln_items (lq_lane s')) + mset (held t) \<subseteq># mset (ln_items (lq_lane s)) + mset (held (lq_tasks s ! i))"
    and moved: "mset (lq_added s') + mset (ln_items (lq_lane s)) + mset (flown (lq_tasks s ! i)) + mset (lq_settled s)
        + mset (lq_lost s) + mset (lq_forgotten s)
      = mset (lq_added s) + mset (ln_items (lq_lane s')) + mset (flown t) + mset (lq_settled s') + mset (lq_lost s')
        + mset (lq_forgotten s')"
  shows "locked_inv n s'"
proof -
  note I = locked_invD [OF inv]
  have "objects s' + mset (held (lq_tasks s ! i)) = mset (ln_items (lq_lane s')) + mset (held t) + mset (concat (map held (lq_tasks s)))"
    using held_update [OF i, of t] by (simp add: objects_def tasks ac_simps)
  also have "\<dots> \<subseteq># objects s + mset (held (lq_tasks s ! i))"
    using objs by (simp add: objects_def add.assoc subset_mset.add_right_mono ac_simps)
  finally have "objects s' \<subseteq># objects s" by simp
  with I(2) have "uniq (identities (objects s'))" by (rule uniq_identities_mono)
  moreover have "conserves s'"
  proof -
    have "in_flight s' + mset (flown (lq_tasks s ! i)) = in_flight s + mset (flown t)"
      using flown_update [OF i, of t] by (simp add: in_flight_def tasks)
    then show ?thesis
      unfolding conserves_def
    proof (intro multiset_eqI)
      fix a
      assume "in_flight s' + mset (flown (lq_tasks s ! i)) = in_flight s + mset (flown t)"
      from this [THEN arg_cong, of "\<lambda>M. count M a"] moved [THEN arg_cong, of "\<lambda>M. count M a"]
        I(3) [unfolded conserves_def, THEN arg_cong, of "\<lambda>M. count M a"]
      show "count (mset (lq_added s')) a = count (mset (ln_items (lq_lane s')) + in_flight s' + mset (lq_settled s')
          + mset (lq_lost s') + mset (lq_forgotten s')) a"
        unfolding count_union by linarith
    qed
  qed
  moreover have "stage_ok n (lq_lane s') u" if u: "u \<in> set (lq_tasks s')" for u
  proof -
    from u obtain j where j: "j < length (lq_tasks s)" "u = (if j = i then t else lq_tasks s ! j)"
      by (auto simp: tasks in_set_conv_nth nth_list_update)
    show ?thesis
    proof (cases "j = i")
      case False
      with free I(4) j have "lq_lane s' = lq_lane s \<or> \<not> inside u" by (auto simp: excludes_def)
      with False j I(5) show ?thesis using stage_ok_outside by (metis nth_mem)
    qed (use ok j in simp)
  qed
  ultimately show ?thesis using wf holder by (simp add: locked_inv_def list_all_iff)
qed

text \<open>Who holds the lock after a move: nobody or task \<open>i\<close>; or whoever held it before.\<close>

lemma excludes_leave:
  assumes "excludes s" "lq_holder s = None \<or> lq_holder s = Some i" "\<not> inside t" "i < length (lq_tasks s)"
    and "lq_tasks s' = (lq_tasks s)[i := t]" "lq_holder s' = None"
  shows "excludes s'"
  using assms by (auto simp: excludes_def nth_list_update)

lemma excludes_stay:
  assumes "excludes s" "lq_holder s = None \<or> lq_holder s = Some i" "inside t" "i < length (lq_tasks s)"
    and "lq_tasks s' = (lq_tasks s)[i := t]" "lq_holder s' = Some i"
  shows "excludes s'"
  using assms by (auto simp: excludes_def nth_list_update)

lemma excludes_outside:
  assumes "excludes s" "\<not> inside (lq_tasks s ! i)" "\<not> inside t" "i < length (lq_tasks s)"
    and "lq_tasks s' = (lq_tasks s)[i := t]" "lq_holder s' = lq_holder s"
  shows "excludes s'"
  using assms by (auto simp: excludes_def nth_list_update)

text \<open>What a task holds is distinct from what is queued.\<close>

lemma held_distinct:
  assumes inv: "locked_inv n s" and i: "i < length (lq_tasks s)"
  shows "distinct (map fst (ln_items (lq_lane s) @ held (lq_tasks s ! i)))"
proof -
  have "mset (ln_items (lq_lane s) @ held (lq_tasks s ! i)) \<subseteq># objects s"
    using held_update [OF i, of Ended] by (simp add: objects_def) (metis mset_subset_eq_add_right)
  with locked_invD(2) [OF inv] show ?thesis using uniq_identities_list uniq_identities_mono by blast
qed

subsection \<open>The sections\<close>

lemma append_lane_items:
  assumes "length q \<le> n" "0 < n"
  shows "mset (take (Suc (length q) - n) q) + mset (deque_append n x q) = add_mset x (mset q)"
proof -
  have "deque_append n x q = drop (Suc (length q) - n) q @ [x]" using assms by (simp add: deque_append_def)
  then show ?thesis by (simp add: mset_take_drop)
qed

lemma append_lane_wf:
  assumes "lane_ready n L" "0 < n" "fst x \<notin> ids (ln_items L)"
  shows "lane_wf n (append_lane n x L)"
  using append_item_wf [OF assms, of "[CHR ''k'']" undefined None 0 undefined "Inr ()" _ 0 undefined]
  by (simp add: append_item_def append_lane_def)

lemma append_section_keeps:
  assumes inv: "locked_inv n s" and n: "0 < n" and i: "i < length (lq_tasks s)"
    and free: "lq_holder s = None \<or> lq_holder s = Some i"
    and x: "held (lq_tasks s ! i) = [x]" "flown (lq_tasks s ! i) = []" "key \<noteq> []"
    and L: "ln_items L = ln_items (lq_lane s)" "lane_ready n L"
  shows "locked_inv n (append_section R n i x key (s\<lparr>lq_lane := L, lq_redis := r\<rparr>))"
proof -
  note I = locked_invD [OF inv]
  let ?q = "ln_items (lq_lane s)" and ?t = "if R = None then Ended else Storing x key"
  let ?s' = "append_section R n i x key (s\<lparr>lq_lane := L, lq_redis := r\<rparr>)"
  have fresh: "fst x \<notin> ids ?q" using held_distinct [OF inv i] x by auto
  have len: "length ?q \<le> n" by (rule lane_wfD(1) [OF I(1)])
  have s': "lq_lane ?s' = append_lane n x L" "lq_tasks ?s' = (lq_tasks s)[i := ?t]" "lq_settled ?s' = lq_settled s"
      "lq_added ?s' = lq_added s @ [x]" "lq_forgotten ?s' = lq_forgotten s"
      "lq_lost ?s' = lq_lost s @ take (Suc (length ?q) - n) ?q" "lq_holder ?s' = (if R = None then None else Some i)"
    by (simp_all add: append_section_def Let_def leave_at_def stay_at_def L(1))
  have items: "ln_items (append_lane n x L) = deque_append n x ?q" by (simp add: append_lane_def L(1))
  note split = append_lane_items [OF len n, of x]
  show ?thesis
  proof (rule move_keeps [OF inv i _ s'(2)])
    show "excludes ?s'"
    proof (cases "R = None")
      case True
      show ?thesis by (rule excludes_leave [OF I(4) free _ i s'(2)]) (simp_all add: True s'(7) [unfolded True])
    next
      case False
      show ?thesis by (rule excludes_stay [OF I(4) free _ i s'(2)]) (simp_all add: s'(7) False)
    qed
    show "lane_wf n (lq_lane ?s')" unfolding s' using append_lane_wf [OF L(2) n] fresh L(1) by simp
    show "stage_ok n (lq_lane ?s') ?t" using n x(3) by (simp add: s' items deque_append_def)
    have "mset (deque_append n x ?q) \<subseteq># add_mset x (mset ?q)" using split by (metis mset_subset_eq_add_right)
    then show "mset (ln_items (lq_lane ?s')) + mset (held ?t) \<subseteq># mset ?q + mset (held (lq_tasks s ! i))"
      by (simp add: s' items x)
    show "mset (lq_added ?s') + mset ?q + mset (flown (lq_tasks s ! i)) + mset (lq_settled s) + mset (lq_lost s) + mset (lq_forgotten s)
      = mset (lq_added s) + mset (ln_items (lq_lane ?s')) + mset (flown ?t) + mset (lq_settled ?s') + mset (lq_lost ?s')
        + mset (lq_forgotten ?s')"
      using split by (simp add: s' items x ac_simps)
  qed (use free in simp)
qed

lemma leave_keeps:
  assumes inv: "locked_inv n s" and i: "i < length (lq_tasks s)" and free: "lq_holder s = None \<or> lq_holder s = Some i"
    and tasks: "lq_tasks s1 = lq_tasks s" and t: "\<not> inside t" "stage_ok n (lq_lane s1) t" and wf: "lane_wf n (lq_lane s1)"
    and objs: "mset (ln_items (lq_lane s1)) + mset (held t) \<subseteq># mset (ln_items (lq_lane s)) + mset (held (lq_tasks s ! i))"
    and moved: "mset (lq_added s1) + mset (ln_items (lq_lane s)) + mset (flown (lq_tasks s ! i)) + mset (lq_settled s)
        + mset (lq_lost s) + mset (lq_forgotten s)
      = mset (lq_added s) + mset (ln_items (lq_lane s1)) + mset (flown t) + mset (lq_settled s1) + mset (lq_lost s1)
        + mset (lq_forgotten s1)"
  shows "locked_inv n (leave_at i t s1)"
proof (rule move_keeps [OF inv i])
  show "excludes (leave_at i t s1)"
    by (rule excludes_leave [OF locked_invD(4) [OF inv] free t(1) i]) (simp_all add: leave_at_def tasks)
qed (use assms in \<open>simp_all add: leave_at_def\<close>)

lemma enter_add_spec:
  assumes wf: "lane_wf n L"
  shows "enter_add K R policy n L = RoomFor L' \<Longrightarrow> ln_items L' = ln_items L \<and> lane_ready n L'"
    "enter_add K R policy n L = Deleting k L' \<Longrightarrow> ln_items L' = ln_items L \<and> lane_ready n L'"
proof -
  have "ln_items L1 = ln_items L \<and> lane_ready n L1"
    if f: "forget_oldest_key (L\<lparr>ln_dropped := ln_dropped L + 1\<rparr>) = (k, L1)" for k L1
  proof -
    from forget_oldest_key_facts [OF f] have "L1 = L\<lparr>ln_dropped := ln_dropped L + 1, ln_keys := ln_keys L1\<rparr>" "lane_wf n L1"
        "ln_items L \<noteq> [] \<longrightarrow> ln_keys L1 (fst (hd (ln_items L))) = None"
      using wf by simp_all
    then show ?thesis by (metis lane.select_convs(1) lane.surjective lane.update_convs(2,5) lane_ready_def)
  qed
  moreover have "\<not> lane_full n L \<Longrightarrow> lane_ready n L" using wf by (simp add: lane_ready_def)
  ultimately show "enter_add K R policy n L = RoomFor L' \<Longrightarrow> ln_items L' = ln_items L \<and> lane_ready n L'"
    "enter_add K R policy n L = Deleting k L' \<Longrightarrow> ln_items L' = ln_items L \<and> lane_ready n L'"
    by (auto simp: enter_add_def split: if_splits overflow_policy.splits prod.splits option.splits)
qed

lemma put_back_spec:
  assumes inv: "locked_inv n s" and n: "0 < n" and i: "i < length (lq_tasks s)" and t: "lq_tasks s ! i = Waiting (PutBack xs ks)"
  defines "L \<equiv> snd (requeue_in_memory n xs ks (lq_lane s))"
  shows "ln_items L = take n (xs @ ln_items (lq_lane s))" "lane_wf n L"
proof -
  note I = locked_invD [OF inv]
  have len: "length xs = length ks" using I(5) [of "Waiting (PutBack xs ks)"] i t by (metis nth_mem stage_ok.simps(2))
  have "distinct (map fst (ln_items (lq_lane s) @ xs))" using held_distinct [OF inv i] t by simp
  then have "distinct (map fst xs)" "ids xs \<inter> ids (ln_items (lq_lane s)) = {}" by auto
  from requeue_in_memory_spec [OF len I(1) n this] show "ln_items L = take n (xs @ ln_items (lq_lane s))" "lane_wf n L"
    by (auto simp: L_def requeued_def)
qed

lemma run_section_keeps:
  assumes inv: "locked_inv n s" and n: "0 < n" and i: "i < length (lq_tasks s)"
    and t: "lq_tasks s ! i = Waiting req" and free: "lq_holder s = None"
  shows "locked_inv n (run_section K R policy n i req s)"
proof (cases req)
  case (Add x key)
  note I = locked_invD [OF inv]
  have key: "key \<noteq> []" using I(5) [of "Waiting (Add x key)"] i t Add by (metis nth_mem stage_ok.simps(1))
  have h: "held (lq_tasks s ! i) = [x]" "flown (lq_tasks s ! i) = []" by (simp_all add: t Add)
  show ?thesis
  proof (cases "enter_add K R policy n (lq_lane s)")
    case (RoomFor L)
    from append_section_keeps [OF inv n i _ h key, of L R "lq_redis s"] enter_add_spec(1) [OF I(1) RoomFor] free
    show ?thesis by (simp add: Add RoomFor)
  next
    case (Deleting k L)
    note L = enter_add_spec(2) [OF I(1) Deleting]
    have "locked_inv n (stay_at i (MakingRoom x key k) (s\<lparr>lq_lane := L\<rparr>))"
      by (rule move_keeps [OF inv i, where t = "MakingRoom x key k"], unfold stay_at_def)
        (use free L key h in \<open>auto intro!: excludes_stay [OF I(4) _ _ i] simp: lane_ready_def\<close>)
    then show ?thesis by (simp add: Add Deleting)
  qed (use free h key I(1) in \<open>auto simp: Add intro!: leave_keeps [OF inv i]\<close>)
next
  case Drain
  note I = locked_invD [OF inv]
  show ?thesis
    using free t i lane_wf_drained [OF I(1)]
    by (auto simp: Drain flush_with_keys_spec [OF I(1)] intro!: leave_keeps [OF inv i])
next
  case (PutBack xs ks)
  let ?q = "xs @ ln_items (lq_lane s)"
  note L = put_back_spec [OF inv n i t [unfolded PutBack]]
  have split: "mset (take n ?q) + mset (drop n ?q) = mset xs + mset (ln_items (lq_lane s))"
    by (metis append_take_drop_id mset_append)
  then have "mset (take n ?q) \<subseteq># mset (ln_items (lq_lane s)) + mset xs" by (metis add.commute mset_subset_eq_add_left)
  with split L free t show ?thesis
    by (auto simp: PutBack ac_simps simp del: take_append drop_append intro!: leave_keeps [OF inv i])
qed

lemma acquire_keeps:
  assumes "locked_inv n (s\<lparr>lq_tasks := (lq_tasks s)[i := Waiting req]\<rparr>)" and "0 < n" and "i < length (lq_tasks s)"
  shows "locked_inv n (acquire K R policy n i req s)"
  using assms run_section_keeps [OF assms(1,2)] by (simp add: acquire_def Let_def lock_free_def)

text \<open>A task that holds nothing new may queue for the lock, be cancelled, or arrive.\<close>

lemma outside_keeps:
  assumes inv: "locked_inv n s" and i: "i < length (lq_tasks s)" and t: "\<not> inside (lq_tasks s ! i)" "\<not> inside t"
    and ok: "stage_ok n (lq_lane s) t" and h: "mset (held t) \<subseteq># mset (held (lq_tasks s ! i))"
    and moved: "mset (flown (lq_tasks s ! i)) = mset (flown t) + mset S + mset F"
  shows "locked_inv n (s\<lparr>lq_tasks := (lq_tasks s)[i := t], lq_settled := lq_settled s @ S, lq_forgotten := lq_forgotten s @ F\<rparr>)"
  by (rule move_keeps [OF inv i])
    (use assms locked_invD(1,4) [OF inv] in \<open>auto intro!: excludes_outside [where s = s and i = i and t = t] simp: ac_simps\<close>)

lemma arrive_keeps:
  assumes inv: "locked_inv n s" and fresh: "held t = [] \<or> (\<exists>x. held t = [x] \<and> fst x \<notin> fst ` set_mset (objects s))"
    and t: "\<not> inside t" "flown t = []" "stage_ok n (lq_lane s) t"
  shows "locked_inv n (s\<lparr>lq_tasks := lq_tasks s @ [t]\<rparr>)"
proof -
  note I = locked_invD [OF inv]
  let ?s' = "s\<lparr>lq_tasks := lq_tasks s @ [t]\<rparr>"
  have "objects ?s' = objects s + mset (held t)" by (simp add: objects_def)
  then have "uniq (identities (objects ?s'))"
    using I(2) fresh by (auto simp: identities_def intro!: uniq_add)
  moreover have "excludes ?s'" using I(4) t(1) by (auto simp: excludes_def nth_append less_Suc_eq)
  moreover have "conserves ?s'" using I(3) t(2) by (simp add: conserves_def in_flight_def)
  ultimately show ?thesis using I(1,5) t(3) by (auto simp: locked_inv_def list_all_iff)
qed

text \<open>A task at a new index queues for the lock.\<close>

lemma queue_up:
  "s\<lparr>lq_tasks := lq_tasks s @ [Ended]\<rparr>\<lparr>lq_tasks := (lq_tasks s @ [Ended])[length (lq_tasks s) := t]\<rparr>
    = s\<lparr>lq_tasks := lq_tasks s @ [t]\<rparr>"
  by simp

lemma locked_inv_step:
  assumes inv: "locked_inv n s" and n: "0 < n" and step: "locked_step K R policy n s s'"
  shows "locked_inv n s'"
  using step
proof cases
  case (arrive x key)
  have "locked_inv n (s\<lparr>lq_tasks := lq_tasks s @ [Waiting (Add x key)]\<rparr>)"
    by (rule arrive_keeps [OF inv]) (use arrive in simp_all)
  then show ?thesis unfolding arrive(1) by (intro acquire_keeps [OF _ n]) simp_all
next
  case collect
  have "locked_inv n (s\<lparr>lq_tasks := lq_tasks s @ [Waiting Drain]\<rparr>)"
    by (rule arrive_keeps [OF inv]) simp_all
  then show ?thesis unfolding collect(1) by (intro acquire_keeps [OF _ n]) simp_all
next
  case (grant i req)
  then show ?thesis by (simp add: run_section_keeps [OF inv n])
next
  case (wake i x key)
  have "stage_ok n (lq_lane s) (Blocked x key)" using locked_invD(5) [OF inv] wake(2,3) by (metis nth_mem)
  then have "locked_inv n (s\<lparr>lq_tasks := (lq_tasks s)[i := Waiting (Add x key)]\<rparr>)"
    using outside_keeps [OF inv wake(2), of "Waiting (Add x key)" "[]" "[]"] wake(3) by simp
  then show ?thesis unfolding wake(1) by (rule acquire_keeps [OF _ n wake(2)])
next
  case (room_made i x key k res r)
  note I = locked_invD [OF inv]
  have free: "lq_holder s = None \<or> lq_holder s = Some i" using I(4) room_made(2,3) by (auto simp: excludes_def)
  have ok: "key \<noteq> [] \<and> lane_ready n (lq_lane s)" using I(5) room_made(2,3) by (metis nth_mem stage_ok.simps(4))
  have h: "held (lq_tasks s ! i) = [x]" "flown (lq_tasks s ! i) = []" by (simp_all add: room_made(3))
  show ?thesis
  proof (cases res)
    case (Inl e)
    with room_made(1) free h I(1) show ?thesis by (auto intro!: leave_keeps [OF inv room_made(2)])
  next
    case (Inr u)
    with append_section_keeps [OF inv n room_made(2) free h, of key "lq_lane s" R r] ok room_made(1) show ?thesis by simp
  qed
next
  case (stored i x key res fails r)
  note I = locked_invD [OF inv]
  have free: "lq_holder s = None \<or> lq_holder s = Some i" using I(4) stored(2,3) by (auto simp: excludes_def)
  have "key \<noteq> [] \<and> x \<in> set (ln_items (lq_lane s))" using I(5) stored(2,3) by (metis nth_mem stage_ok.simps(5))
  moreover have "res = Inr (Some k) \<Longrightarrow> k = key" for k
    using stored(4) by (auto simp: persist_item_def split: option.splits sum.splits prod.splits if_splits)
  ultimately have "lane_wf n (note_key x res (lq_lane s))"
    using I(1) by (auto simp: note_key_def lane_wf_def ran_def split: sum.split option.split if_splits)
  moreover have "ln_items (note_key x res (lq_lane s)) = ln_items (lq_lane s)"
    by (simp add: note_key_def split: sum.split option.split)
  ultimately show ?thesis using free stored(1,3) by (auto intro!: leave_keeps [OF inv stored(2)])
next
  case (sent i xs ks)
  from outside_keeps [OF inv sent(2), of Ended xs "[]"] sent show ?thesis by simp
next
  case (unsent i xs ks)
  have "stage_ok n (lq_lane s) (Sending xs ks)" using locked_invD(5) [OF inv] unsent(2,3) by (metis nth_mem)
  then have "locked_inv n (s\<lparr>lq_tasks := (lq_tasks s)[i := Waiting (PutBack xs ks)]\<rparr>)"
    using outside_keeps [OF inv unsent(2), of "Waiting (PutBack xs ks)" "[]" "[]"] unsent(3) by simp
  then show ?thesis unfolding unsent(1) by (rule acquire_keeps [OF _ n unsent(2)])
next
  case (cancel_wait i req)
  from outside_keeps [OF inv cancel_wait(2), of Ended "[]" "flown (Waiting req)"] cancel_wait show ?thesis by simp
next
  case (cancel_blocked i x key)
  from outside_keeps [OF inv cancel_blocked(2), of Ended "[]" "[]"] cancel_blocked show ?thesis by simp
next
  case (cancel_inside i)
  note I = locked_invD [OF inv]
  have i: "i < length (lq_tasks s)" using I(4) cancel_inside(2) by (simp add: excludes_def)
  then have "inside (lq_tasks s ! i)" using I(4) cancel_inside(2) by (simp add: excludes_def)
  then have "flown (lq_tasks s ! i) = []" by (cases "lq_tasks s ! i") auto
  with cancel_inside I(1) show ?thesis by (auto intro!: leave_keeps [OF inv i])
next
  case (redis r)
  with inv show ?thesis
    by (simp add: locked_inv_def conserves_def excludes_def objects_def in_flight_def)
qed

lemma locked_inv_reachable: "locked_reachable K R policy n r0 s \<Longrightarrow> 0 < n \<Longrightarrow> locked_inv n s"
  by (induction rule: locked_reachable.induct) (auto intro: locked_inv_init locked_inv_step)

end
