(* ===== verification/LockFacts.thy ===== *)
theory LockFacts
  imports Locking "HOL-Library.Sublist"
begin

text \<open>
  What the lock gives: the queue with its lock, its awaits and its cancellations refines the bounded
  mailbox, up to the one cancellation that gives a batch up; and without Redis that never happens,
  because nobody ever waits for the lock.
\<close>

section \<open>The locked queue refines the mailbox\<close>

definition locked_mailbox :: "('a, 'r) locked \<Rightarrow> 'a obj mailbox" where
  "locked_mailbox s = \<lparr>mb_waiting = mset (ln_items (lq_lane s)), mb_flying = in_flight s,
     mb_settled = mset (lq_settled s), mb_lost = mset (lq_lost s)\<rparr>"

lemma in_flight_same:
  assumes "i < length (lq_tasks s)" "flown (lq_tasks s ! i) = flown t" "lq_tasks s' = (lq_tasks s)[i := t]"
  shows "in_flight s' = in_flight s"
  using flown_update [OF assms(1), of t] assms(2,3) by (simp add: in_flight_def)

text \<open>A move that changes neither the queue nor a batch is no step of the mailbox.\<close>

lemma mailbox_stutter:
  assumes "i < length (lq_tasks s)" "flown (lq_tasks s ! i) = flown t" "lq_tasks s' = (lq_tasks s)[i := t]"
    and "ln_items (lq_lane s') = ln_items (lq_lane s)" "lq_settled s' = lq_settled s" "lq_lost s' = lq_lost s"
  shows "locked_mailbox s' = locked_mailbox s"
  using in_flight_same [OF assms(1-3)] assms(4-6) by (simp add: locked_mailbox_def)

lemma append_simulates:
  assumes len: "length (ln_items (lq_lane s)) \<le> n" and n: "0 < n" and i: "i < length (lq_tasks s)"
    and f: "flown (lq_tasks s ! i) = []" and L: "ln_items L = ln_items (lq_lane s)"
  shows "mailbox_step n (locked_mailbox s) (locked_mailbox (append_section R n i x key (s\<lparr>lq_lane := L, lq_redis := r\<rparr>)))"
    (is "mailbox_step n ?m (locked_mailbox ?s')")
proof -
  let ?q = "ln_items (lq_lane s)"
  have "in_flight ?s' = in_flight s"
    by (rule in_flight_same [OF i, of "if R = None then Ended else Storing x key"])
      (use f in \<open>auto simp: append_section_def Let_def leave_at_def stay_at_def\<close>)
  then have m: "locked_mailbox ?s' = ?m\<lparr>mb_waiting := mset (deque_append n x ?q),
      mb_lost := mb_lost ?m + mset (take (Suc (length ?q) - n) ?q)\<rparr>"
    by (simp add: locked_mailbox_def append_section_def Let_def leave_at_def stay_at_def append_lane_def L)
  show ?thesis
  proof (cases "length ?q < n")
    case True
    with mailbox_step.post [of ?m n x] show ?thesis
      unfolding m by (simp add: locked_mailbox_def deque_append_room)
  next
    case False
    with len n obtain y q where q: "?q = y # q" "length ?q = n" by (cases ?q) auto
    with mailbox_step.replace [of ?m n y x] show ?thesis
      unfolding m by (simp add: locked_mailbox_def deque_append_full n)
  qed
qed

lemma section_simulates:
  assumes inv: "locked_inv n s" and n: "0 < n" and i: "i < length (lq_tasks s)" and t: "lq_tasks s ! i = Waiting req"
  shows "mailbox_step n (locked_mailbox s) (locked_mailbox (run_section K R policy n i req s))"
proof (cases req)
  case (Add x key)
  note wf = locked_invD(1) [OF inv]
  have f: "flown (lq_tasks s ! i) = []" by (simp add: t Add)
  show ?thesis
  proof (cases "enter_add K R policy n (lq_lane s)")
    case (RoomFor L)
    from append_simulates [OF lane_wfD(1) [OF wf] n i f, of L R x key "lq_redis s"] enter_add_spec(1) [OF wf RoomFor]
    show ?thesis by (simp add: Add RoomFor)
  next
    case (Deleting k L)
    have "locked_mailbox (run_section K R policy n i req s) = locked_mailbox s"
      by (rule mailbox_stutter [OF i, of "MakingRoom x key k"])
        (use f enter_add_spec(2) [OF wf Deleting] in \<open>simp_all add: Add Deleting stay_at_def\<close>)
    then show ?thesis by (simp add: mailbox_step.stutter)
  next
    case (Refused e)
    have "locked_mailbox (run_section K R policy n i req s) = locked_mailbox s"
      by (rule mailbox_stutter [OF i, of Ended]) (use f in \<open>simp_all add: Add Refused leave_at_def\<close>)
    then show ?thesis by (simp add: mailbox_step.stutter)
  next
    case MustWait
    have "locked_mailbox (run_section K R policy n i req s) = locked_mailbox s"
      by (rule mailbox_stutter [OF i, of "Blocked x key"]) (use f in \<open>simp_all add: Add MustWait leave_at_def\<close>)
    then show ?thesis by (simp add: mailbox_step.stutter)
  qed
next
  case Drain
  let ?s' = "run_section K R policy n i req s" and ?q = "ln_items (lq_lane s)"
  have "in_flight ?s' = in_flight s + mset ?q"
    using flown_update [OF i, of "if ?q = [] then Ended else Sending ?q (map (key_of (lq_lane s)) ?q)"] t
    by (auto simp: Drain flush_with_keys_spec [OF locked_invD(1) [OF inv]] leave_at_def in_flight_def)
  with mailbox_step.collect [of n "locked_mailbox s"] show ?thesis
    by (simp add: Drain locked_mailbox_def flush_with_keys_spec [OF locked_invD(1) [OF inv]] leave_at_def)
next
  case (PutBack xs ks)
  let ?s' = "run_section K R policy n i req s" and ?q = "xs @ ln_items (lq_lane s)" and ?m = "locked_mailbox s"
  have fl: "in_flight ?s' + mset xs = in_flight s"
    using flown_update [OF i, of Ended] t by (simp add: PutBack leave_at_def in_flight_def)
  then have "mset xs \<subseteq># mb_flying ?m" by (simp add: locked_mailbox_def) (metis mset_subset_eq_add_right)
  moreover have "mb_waiting ?m + mset xs = mset (take n ?q) + mset (drop n ?q)"
    using mset_take_drop [of n ?q] by (simp add: locked_mailbox_def del: take_append drop_append)
  moreover have "size (mset (take n ?q)) = min n (size (mb_waiting ?m + mset xs))"
    by (simp add: locked_mailbox_def min.commute del: take_append)
  ultimately have "mailbox_step n ?m (?m\<lparr>mb_waiting := mset (take n ?q), mb_flying := mb_flying ?m - mset xs,
      mb_lost := mb_lost ?m + mset (drop n ?q)\<rparr>)"
    by (rule mailbox_step.bounce)
  moreover have "in_flight ?s' = in_flight s - mset xs" using fl by (metis add_diff_cancel_right')
  ultimately show ?thesis
    using put_back_spec(1) [OF inv n i t [unfolded PutBack]]
    by (simp add: PutBack locked_mailbox_def leave_at_def del: take_append drop_append)
qed

lemma acquire_simulates:
  assumes inv: "locked_inv n (s\<lparr>lq_tasks := (lq_tasks s)[i := Waiting req]\<rparr>)" and n: "0 < n" and i: "i < length (lq_tasks s)"
    and f: "flown (lq_tasks s ! i) = flown (Waiting req)"
  shows "mailbox_step n (locked_mailbox s) (locked_mailbox (acquire K R policy n i req s))"
proof -
  let ?s1 = "s\<lparr>lq_tasks := (lq_tasks s)[i := Waiting req]\<rparr>"
  have "locked_mailbox ?s1 = locked_mailbox s" by (rule mailbox_stutter [OF i f]) simp_all
  with section_simulates [OF inv n, of i req K R policy] i show ?thesis
    by (simp add: acquire_def Let_def mailbox_step.stutter)
qed

lemma arrive_simulates:
  assumes inv: "locked_inv n (s\<lparr>lq_tasks := lq_tasks s @ [Waiting req]\<rparr>)" and n: "0 < n" and f: "flown (Waiting req) = []"
  shows "mailbox_step n (locked_mailbox s)
    (locked_mailbox (acquire K R policy n (length (lq_tasks s)) req (s\<lparr>lq_tasks := lq_tasks s @ [Ended]\<rparr>)))"
proof -
  have "locked_mailbox (s\<lparr>lq_tasks := lq_tasks s @ [Ended]\<rparr>) = locked_mailbox s"
    by (simp add: locked_mailbox_def in_flight_def)
  with acquire_simulates [of n "s\<lparr>lq_tasks := lq_tasks s @ [Ended]\<rparr>" "length (lq_tasks s)" req K R policy] inv n f
  show ?thesis by (simp add: queue_up)
qed

lemma locked_queue_simulates:
  assumes inv: "locked_inv n s" and n: "0 < n" and step: "locked_step K R policy n s s'"
    and kept: "lq_forgotten s' = lq_forgotten s"
  shows "mailbox_step n (locked_mailbox s) (locked_mailbox s')"
  using step
proof cases
  case (arrive x key)
  have "locked_inv n (s\<lparr>lq_tasks := lq_tasks s @ [Waiting (Add x key)]\<rparr>)"
    by (rule arrive_keeps [OF inv]) (use arrive in simp_all)
  then show ?thesis unfolding arrive(1) by (rule arrive_simulates [OF _ n]) simp
next
  case collect
  have "locked_inv n (s\<lparr>lq_tasks := lq_tasks s @ [Waiting Drain]\<rparr>)"
    by (rule arrive_keeps [OF inv]) simp_all
  then show ?thesis unfolding collect(1) by (rule arrive_simulates [OF _ n]) simp
next
  case (grant i req)
  then show ?thesis using section_simulates [OF inv n] by simp
next
  case (wake i x key)
  have "stage_ok n (lq_lane s) (Blocked x key)" using locked_invD(5) [OF inv] wake(2,3) by (metis nth_mem)
  then have "locked_inv n (s\<lparr>lq_tasks := (lq_tasks s)[i := Waiting (Add x key)]\<rparr>)"
    using outside_keeps [OF inv wake(2), of "Waiting (Add x key)" "[]" "[]"] wake(3) by simp
  then show ?thesis unfolding wake(1) by (rule acquire_simulates [OF _ n wake(2)]) (simp add: wake(3))
next
  case (room_made i x key k res r)
  show ?thesis
  proof (cases res)
    case (Inl e)
    have "locked_mailbox s' = locked_mailbox s"
      by (rule mailbox_stutter [OF room_made(2), of Ended]) (simp_all add: room_made(1,3) Inl leave_at_def)
    then show ?thesis by (simp add: mailbox_step.stutter)
  next
    case (Inr u)
    from append_simulates [OF lane_wfD(1) [OF locked_invD(1) [OF inv]] n room_made(2), of "lq_lane s" R x key r] Inr
    show ?thesis by (simp add: room_made(1,3))
  qed
next
  case (stored i x key res fails r)
  have "locked_mailbox s' = locked_mailbox s"
    by (rule mailbox_stutter [OF stored(2), of Ended])
      (simp_all add: stored(1,3) leave_at_def note_key_def split: sum.split option.split)
  then show ?thesis by (simp add: mailbox_step.stutter)
next
  case (sent i xs ks)
  have f: "in_flight s' + mset xs = in_flight s"
    using flown_update [OF sent(2), of Ended] by (simp add: sent(1,3) in_flight_def)
  then have "mset xs \<subseteq># mb_flying (locked_mailbox s)" by (simp add: locked_mailbox_def) (metis mset_subset_eq_add_right)
  moreover have "in_flight s' = in_flight s - mset xs" using f by (metis add_diff_cancel_right')
  ultimately show ?thesis
    using mailbox_step.settle [of "mset xs" "locked_mailbox s" n] by (simp add: sent(1) locked_mailbox_def)
next
  case (unsent i xs ks)
  have "stage_ok n (lq_lane s) (Sending xs ks)" using locked_invD(5) [OF inv] unsent(2,3) by (metis nth_mem)
  then have "locked_inv n (s\<lparr>lq_tasks := (lq_tasks s)[i := Waiting (PutBack xs ks)]\<rparr>)"
    using outside_keeps [OF inv unsent(2), of "Waiting (PutBack xs ks)" "[]" "[]"] unsent(3) by simp
  then show ?thesis unfolding unsent(1) by (rule acquire_simulates [OF _ n unsent(2)]) (simp add: unsent(3))
next
  case (cancel_wait i req)
  with kept have "locked_mailbox s' = locked_mailbox s" by (intro mailbox_stutter [OF cancel_wait(2), of Ended]) simp_all
  then show ?thesis by (simp add: mailbox_step.stutter)
next
  case (cancel_blocked i x key)
  then have "locked_mailbox s' = locked_mailbox s" by (intro mailbox_stutter [OF cancel_blocked(2), of Ended]) simp_all
  then show ?thesis by (simp add: mailbox_step.stutter)
next
  case (cancel_inside i)
  have i: "i < length (lq_tasks s)" "inside (lq_tasks s ! i)"
    using locked_invD(4) [OF inv] cancel_inside(2) by (auto simp: excludes_def)
  then have "flown (lq_tasks s ! i) = []" by (cases "lq_tasks s ! i") auto
  then have "locked_mailbox s' = locked_mailbox s"
    by (intro mailbox_stutter [OF i(1), of Ended]) (simp_all add: cancel_inside(1) leave_at_def)
  then show ?thesis by (simp add: mailbox_step.stutter)
next
  case (redis r)
  then show ?thesis by (simp add: locked_mailbox_def in_flight_def mailbox_step.stutter)
qed

text \<open>A step that gives up no batch.\<close>

definition keeping_step :: "'a lane_kind \<Rightarrow> 'r redis_handler option \<Rightarrow> overflow_policy \<Rightarrow> nat \<Rightarrow> ('a, 'r) locked \<Rightarrow> ('a, 'r) locked \<Rightarrow> bool" where
  "keeping_step K R policy n s s' \<longleftrightarrow> 0 < n \<and> locked_step K R policy n s s' \<and> lq_forgotten s' = lq_forgotten s"

interpretation lock_sim: simulation "keeping_step K R policy n" "\<lambda>s. \<exists>r. s = locked_init r" "locked_inv n"
    "mailbox_step n" "\<lambda>m. m = mailbox_empty" locked_mailbox
  for K R policy n
proof
  fix s :: "('a, 'b) locked"
  assume "\<exists>r. s = locked_init r"
  then show "locked_inv n s \<and> locked_mailbox s = mailbox_empty"
    using locked_inv_init by (auto simp: locked_mailbox_def mailbox_empty_def locked_init_def empty_lane_def in_flight_def)
next
  fix s s' :: "('a, 'b) locked"
  assume "locked_inv n s" and "keeping_step K R policy n s s'"
  then show "locked_inv n s'" "mailbox_step n (locked_mailbox s) (locked_mailbox s')"
    using locked_inv_step locked_queue_simulates by (auto simp: keeping_step_def)
qed

section \<open>Without Redis nobody waits\<close>

text \<open>No task holds the lock across an await, or waits for it; so no batch was given up.\<close>

definition unlocked :: "('a, 'r) locked \<Rightarrow> bool" where
  "unlocked s \<longleftrightarrow> lock_free s \<and> list_all (\<lambda>t. \<not> inside t) (lq_tasks s) \<and> lq_forgotten s = []"

lemma unlocked_leave:
  "list_all (\<lambda>t. \<not> is_waiting t \<and> \<not> inside t) ((lq_tasks s)[i := t]) \<Longrightarrow> lq_forgotten s = [] \<Longrightarrow> unlocked (leave_at i t s)"
  by (simp add: unlocked_def lock_free_def leave_at_def list_all_iff)

lemma unlocked_update:
  assumes "unlocked s" "\<not> is_waiting t" "\<not> inside t"
  shows "list_all (\<lambda>t. \<not> is_waiting t \<and> \<not> inside t) ((lq_tasks s)[i := u, i := t])"
  using assms set_update_subset_insert [of "lq_tasks s" i t] by (auto simp: unlocked_def lock_free_def list_all_iff)

lemma enter_add_memory: "enter_add K None policy n L \<noteq> Deleting k L'"
  by (simp add: enter_add_def split: overflow_policy.split option.split prod.split)

lemma unlocked_section:
  assumes "unlocked s"
  shows "unlocked (run_section K None policy n i req (s\<lparr>lq_tasks := (lq_tasks s)[i := u]\<rparr>))"
proof -
  have leave: "\<not> is_waiting t \<Longrightarrow> \<not> inside t \<Longrightarrow> lq_tasks s1 = (lq_tasks s)[i := u] \<Longrightarrow> lq_forgotten s1 = [] \<Longrightarrow> unlocked (leave_at i t s1)" for s1 t
    using unlocked_update [OF assms, of t i u] by (intro unlocked_leave) metis+
  have "lq_forgotten s = []" using assms by (simp add: unlocked_def)
  then show ?thesis
    by (cases req) (simp_all add: append_section_def Let_def enter_add_memory leave split: entry.split prod.split)
qed

lemma unlocked_acquire:
  assumes "unlocked s"
  shows "unlocked (acquire K None policy n i req s)"
proof -
  have "lock_free s" using assms by (simp add: unlocked_def)
  then show ?thesis by (simp only: acquire_def Let_def if_True unlocked_section [OF assms])
qed

lemma unlocked_step:
  assumes "unlocked s" and "locked_step K None policy n s s'"
  shows "unlocked s'"
proof -
  have no: "i < length (lq_tasks s) \<Longrightarrow> \<not> is_waiting (lq_tasks s ! i) \<and> \<not> inside (lq_tasks s ! i)" for i
    using assms(1) by (simp add: unlocked_def lock_free_def list_all_length)
  from assms(2) show ?thesis
  proof cases
    case (arrive x key)
    have "unlocked (s\<lparr>lq_tasks := lq_tasks s @ [Ended]\<rparr>)" using assms(1) by (simp add: unlocked_def lock_free_def)
    then show ?thesis unfolding arrive(1) by (rule unlocked_acquire)
  next
    case collect
    have "unlocked (s\<lparr>lq_tasks := lq_tasks s @ [Ended]\<rparr>)" using assms(1) by (simp add: unlocked_def lock_free_def)
    then show ?thesis unfolding collect(1) by (rule unlocked_acquire)
  next
    case (wake i x key)
    show ?thesis unfolding wake(1) by (rule unlocked_acquire [OF assms(1)])
  next
    case (unsent i xs ks)
    show ?thesis unfolding unsent(1) by (rule unlocked_acquire [OF assms(1)])
  next
    case (sent i xs ks)
    with assms(1) set_update_subset_insert [of "lq_tasks s" i Ended] show ?thesis
      by (auto simp: unlocked_def lock_free_def list_all_iff)
  next
    case (cancel_blocked i x key)
    with assms(1) set_update_subset_insert [of "lq_tasks s" i Ended] show ?thesis
      by (auto simp: unlocked_def lock_free_def list_all_iff)
  next
    case (grant i req)
    with no [of i] show ?thesis by simp
  next
    case (room_made i x key k res r)
    with no [of i] show ?thesis by simp
  next
    case (stored i x key res fails r)
    with no [of i] show ?thesis by simp
  next
    case (cancel_wait i req)
    with no [of i] show ?thesis by simp
  next
    case (cancel_inside i)
    with assms(1) show ?thesis by (simp add: unlocked_def lock_free_def)
  next
    case (redis r)
    with assms(1) show ?thesis by (simp add: unlocked_def lock_free_def)
  qed
qed

lemma unlocked_init: "unlocked (locked_init r)"
  by (simp add: unlocked_def lock_free_def locked_init_def)

lemma unlocked_reachable: "locked_reachable K None policy n r0 s \<Longrightarrow> unlocked s"
  by (induction rule: locked_reachable.induct) (blast intro: unlocked_init unlocked_step)+

section \<open>What is guaranteed\<close>

lemma section_forgets_nothing: "lq_forgotten (run_section K R policy n i req s) = lq_forgotten s"
  by (cases req) (simp_all add: leave_at_def append_section_def stay_at_def Let_def split: entry.split prod.split)

lemma acquire_forgets_nothing: "lq_forgotten (acquire K R policy n i req s) = lq_forgotten s"
  by (simp add: acquire_def Let_def section_forgets_nothing)

lemma forgotten_grows: "locked_step K R policy n s s' \<Longrightarrow> prefix (lq_forgotten s) (lq_forgotten s')"
  by (induction rule: locked_step.induct)
    (simp_all add: acquire_forgets_nothing section_forgets_nothing, simp_all add: leave_at_def append_section_def stay_at_def Let_def
      split: sum.split)

lemma kept_run:
  assumes "locked_reachable K R policy n r0 s" and "0 < n" and "lq_forgotten s = []"
  shows "(keeping_step K R policy n)\<^sup>*\<^sup>* (locked_init r0) s"
  using assms
proof (induction rule: locked_reachable.induct)
  case (step s s')
  then have "lq_forgotten s = []" using forgotten_grows [OF step.hyps(2)] by simp
  with step show ?case by (auto simp: keeping_step_def intro: rtranclp.rtrancl_into_rtrancl)
qed simp


text \<open>
  C9: The lock excludes, and no object gets lost or doubled unseen. In every reachable state, with any
  overflow policy, Redis handler and cancellations: at most one task is inside a critical section; the
  queue is within its bound and holds no object twice; and every object that was appended is in
  exactly one place: queued, in flight, settled, dropped by the bound, or given up by a cancellation.
\<close>

theorem lock_excludes_and_conserves:
  assumes "locked_reachable K R policy n r0 s" and "0 < n"
  shows "(\<forall>i j. i < length (lq_tasks s) \<longrightarrow> j < length (lq_tasks s) \<longrightarrow> inside (lq_tasks s ! i) \<longrightarrow> inside (lq_tasks s ! j) \<longrightarrow> i = j)
    \<and> length (ln_items (lq_lane s)) \<le> n \<and> distinct (map fst (ln_items (lq_lane s)))
    \<and> mset (lq_added s) = mset (ln_items (lq_lane s)) + mset (concat (map flown (lq_tasks s))) + mset (lq_settled s)
        + mset (lq_lost s) + mset (lq_forgotten s)"
proof -
  note I = locked_invD [OF locked_inv_reachable [OF assms]]
  from I(4) have "\<forall>i j. i < length (lq_tasks s) \<longrightarrow> j < length (lq_tasks s) \<longrightarrow> inside (lq_tasks s ! i) \<longrightarrow> inside (lq_tasks s ! j) \<longrightarrow> i = j"
    by (simp add: excludes_def)
  with lane_wfD(1,2) [OF I(1)] I(3) show ?thesis by (simp add: conserves_def in_flight_def)
qed

section \<open>A cancelled requeue\<close>

text \<open>
  A batch of one item is being sent. A second writer appends its item and holds the lock while Redis
  stores it; the send fails, and the flush has to wait for the lock; there it is cancelled.
\<close>

definition answering_redis :: "unit redis_handler" where
  "answering_redis = \<lparr>rh_get_key = (\<lambda>ns k r. (Inr None, r)), rh_set_key = (\<lambda>ns k v t r. (Inr (), r)),
     rh_delete = (\<lambda>ns k r. (Inr (), r)), rh_keys = (\<lambda>p r. (Inr None, r))\<rparr>"

definition race_step :: "(nat, unit) locked \<Rightarrow> (nat, unit) locked \<Rightarrow> bool" where
  "race_step = locked_step sample_kind (Some answering_redis) Drop 2"

definition race_state :: "nat obj list \<Rightarrow> (oid \<Rightarrow> string option) \<Rightarrow> int \<Rightarrow> int \<Rightarrow> nat option \<Rightarrow> nat stage list \<Rightarrow> nat obj list
   \<Rightarrow> nat obj list \<Rightarrow> (nat, unit) locked" where
  "race_state q m b f holder tasks added forgotten =
     \<lparr>lq_lane = \<lparr>ln_items = q, ln_keys = m, ln_buffered = b, ln_flushed = f, ln_dropped = 0\<rparr>, lq_fails = 0, lq_redis = (),
      lq_holder = holder, lq_tasks = tasks, lq_added = added, lq_settled = [], lq_lost = [], lq_forgotten = forgotten\<rparr>"

lemmas race_simps = race_state_def race_step_def acquire_def Let_def lock_free_def enter_add_def lane_full_def
  append_section_def append_lane_def deque_append_def leave_at_def stay_at_def note_key_def persist_item_def
  answering_redis_def sample_kind_def flush_with_keys_def objects_def

abbreviation "race_one \<equiv> (1, 10) :: nat obj"
abbreviation "race_two \<equiv> (2, 20) :: nat obj"

lemma race_run:
  "race_step\<^sup>*\<^sup>* (locked_init ()) (race_state [race_two] [2 \<mapsto> ''b''] 2 1 None [Ended, Ended, Ended] [race_one, race_two] [race_one])"
proof -
  let ?s1 = "race_state [race_one] Map.empty 1 0 (Some 0) [Storing race_one ''a''] [race_one] []"
  let ?s2 = "race_state [race_one] [1 \<mapsto> ''a''] 1 0 None [Ended] [race_one] []"
  let ?s3 = "race_state [] Map.empty 1 1 None [Ended, Sending [race_one] [''a'']] [race_one] []"
  let ?s4 = "race_state [race_two] Map.empty 2 1 (Some (Suc (Suc 0))) [Ended, Sending [race_one] [''a''], Storing race_two ''b''] [race_one, race_two] []"
  let ?s5 = "race_state [race_two] Map.empty 2 1 (Some (Suc (Suc 0))) [Ended, Waiting (PutBack [race_one] [''a'']), Storing race_two ''b''] [race_one, race_two] []"
  let ?s6 = "race_state [race_two] Map.empty 2 1 (Some (Suc (Suc 0))) [Ended, Ended, Storing race_two ''b''] [race_one, race_two] [race_one]"
  have "race_step (locked_init ()) ?s1"
    using locked_step.arrive [of race_one "locked_init ()" "''a''" sample_kind "Some answering_redis" Drop 2]
    by (simp add: race_simps locked_init_def empty_lane_def)
  moreover have "race_step ?s1 ?s2"
    using locked_step.stored [of 0 ?s1 race_one "''a''" sample_kind "Some answering_redis" "Inr (Some ''a'')" 0 "()" Drop 2]
    by (simp add: race_simps)
  moreover have "race_step ?s2 ?s3"
    using locked_step.collect [of sample_kind "Some answering_redis" Drop 2 ?s2] by (simp add: race_simps)
  moreover have "race_step ?s3 ?s4"
    using locked_step.arrive [of race_two ?s3 "''b''" sample_kind "Some answering_redis" Drop 2] by (simp add: race_simps)
  moreover have "race_step ?s4 ?s5"
    using locked_step.unsent [of 1 ?s4 "[race_one]" "[''a'']" sample_kind "Some answering_redis" Drop 2] by (simp add: race_simps)
  moreover have "race_step ?s5 ?s6"
    using locked_step.cancel_wait [of 1 ?s5 "PutBack [race_one] [''a'']" sample_kind "Some answering_redis" Drop 2] by (simp add: race_simps)
  moreover have "race_step ?s6 (race_state [race_two] [2 \<mapsto> ''b''] 2 1 None [Ended, Ended, Ended] [race_one, race_two] [race_one])"
    using locked_step.stored [of 2 ?s6 race_two "''b''" sample_kind "Some answering_redis" "Inr (Some ''b'')" 0 "()" Drop 2]
    by (simp add: race_simps)
  ultimately show ?thesis by (meson converse_rtranclp_into_rtranclp rtranclp.rtrancl_refl)
qed

lemma race_reachable:
  "race_step\<^sup>*\<^sup>* (locked_init ()) s \<Longrightarrow> locked_reachable sample_kind (Some answering_redis) Drop 2 () s"
  by (induction rule: rtranclp_induct) (auto simp: race_step_def intro: locked_reachable.intros)

text \<open>
  C11: A cancelled requeue drops its batch from memory. With Redis, a reachable state has an item that
  was appended and is nowhere in memory any more: neither queued nor in flight, not settled by the
  server, not dropped by the bound, of a queue that was never full. Its flush was cancelled while it
  waited for the lock to put it back.
\<close>

theorem cancelled_put_back_forgets:
  "\<exists>s. locked_reachable sample_kind (Some answering_redis) Drop 2 () s \<and> race_one \<in> set (lq_added s)
     \<and> length (lq_added s) \<le> 2 \<and> ln_items (lq_lane s) = [race_two] \<and> list_all ((=) Ended) (lq_tasks s)
     \<and> lq_settled s = [] \<and> lq_lost s = []"
  using race_reachable [OF race_run] by (force simp: race_state_def)


theorem lock_excludes_and_conserves_witness:
  "\<exists>s. locked_reachable sample_kind (Some answering_redis) Drop 2 () s
     \<and> mset (lq_added s) = mset (ln_items (lq_lane s)) + mset (lq_forgotten s) \<and> lq_forgotten s = [race_one]"
proof -
  let ?s = "race_state [race_two] [2 \<mapsto> ''b''] 2 1 None [Ended, Ended, Ended] [race_one, race_two] [race_one]"
  note r = race_reachable [OF race_run]
  have "mset (lq_added ?s) = mset (ln_items (lq_lane ?s)) + mset (lq_forgotten ?s)"
    using lock_excludes_and_conserves [OF r] by (simp add: race_state_def)
  with r show ?thesis by (intro exI [of _ ?s]) (simp add: race_state_def)
qed

end
