(* ===== verification/Agent.thy ===== *)
theory Agent
  imports Delivery Lifecycle ClientIngest BufferInvariant
begin

text \<open>
  The agent as its host drives it: the calls of \<open>AgentHandlerProtocol\<close> (\<open>protocols.py\<close>) on a handler, in
  any order, and the rounds of its background tasks between them. What the buffer holds across a flush and
  an ingest that other tasks interfere with; the runs are in \<open>AgentRuns\<close>.
\<close>

section \<open>Calls and answers\<close>

datatype 'r agent_call =
    InitializeRedis "'r redis_handler"
  | SendEvent "security_event given"
  | SendMetric "security_metric given"
  | Start
  | Stop
  | FlushBuffer
  | GetDynamicRules
  | HealthCheck
  | GetStatus
  | Close

text \<open>A round of one of the tasks that \<open>start\<close> creates.\<close>

datatype agent_task = FlushTask | StatusTask | RulesTask

datatype 'r agent_action = Call "'r agent_call" | Round agent_task

datatype agent_answer = Done | Rules "dynamic_rules option" | Health bool | Status agent_status

text \<open>
  The outside of one action: the transport's world; what other tasks do during a stop, a round, the wait
  for room, a fetch; the pydantic constructors; the Redis key of a new record, the identities of a new
  object and of loaded ones; the clock.
\<close>

record 'r occasion =
  oc_world :: world
  oc_stop :: "'r stop_env"
  oc_loop :: "(security_event, security_metric, 'r) loop_env"
  oc_waits :: "nat \<Rightarrow> (security_event, security_metric, 'r) buffer_state \<Rightarrow> (security_event, security_metric, 'r) buffer_state option"
  oc_others :: "(security_event, security_metric, 'r) handler \<Rightarrow> (security_event, security_metric, 'r) handler"
  oc_fuel :: nat
  oc_event_kind :: "security_event lane_kind"
  oc_metric_kind :: "security_metric lane_kind"
  oc_build_event :: "pydict \<Rightarrow> exn + security_event"
  oc_build_metric :: "pydict \<Rightarrow> exn + security_metric"
  oc_key :: string
  oc_object :: oid
  oc_loaded :: oid
  oc_timestamp :: string
  oc_now :: time

definition put_buffer :: "(security_event, security_metric, 'r) buffer_state \<Rightarrow> (security_event, security_metric, 'r) handler
   \<Rightarrow> (security_event, security_metric, 'r) handler" where
  "put_buffer b h = h\<lparr>hn_client := (hn_client h)\<lparr>cl_buffer := b\<rparr>\<rparr>"

definition answered :: "exn + unit \<Rightarrow> exn + agent_answer" where
  "answered res = map_sum id (\<lambda>_. Done) res"

text \<open>\<open>None\<close> is a \<open>send_event\<close> that still waits for room after \<open>oc_fuel\<close> rounds.\<close>

fun do_call :: "kit \<Rightarrow> agent_env \<Rightarrow> 'r occasion \<Rightarrow> 'r agent_call \<Rightarrow> (security_event, security_metric, 'r) agent_state
   \<Rightarrow> ((exn + agent_answer) \<times> (security_event, security_metric, 'r) agent_state) option" where
  "do_call K env oc (InitializeRedis R) (h, s) =
     (case handler_initialize_redis (oc_event_kind oc) (oc_metric_kind oc) (oc_loaded oc) (oc_loaded oc) R h of
        (res, h') \<Rightarrow> Some (answered res, h', s))"
| "do_call K env oc (SendEvent x) (h, s) =
     map_option (\<lambda>(res, b). (answered res, put_buffer b h, s))
       (send_event (kt_values K) (oc_build_event oc) (hn_config h) (oc_fuel oc) (oc_waits oc) (oc_event_kind oc)
          (oc_key oc) (oc_object oc) x (cl_buffer (hn_client h)))"
| "do_call K env oc (SendMetric x) (h, s) =
     map_option (\<lambda>(res, b). (answered res, put_buffer b h, s))
       (send_metric (kt_values K) (oc_build_metric oc) (hn_config h) (oc_fuel oc) (oc_waits oc) (oc_metric_kind oc)
          (oc_key oc) (oc_object oc) x (cl_buffer (hn_client h)))"
| "do_call K env oc Start hs = (case start_agent K env (oc_world oc) (oc_stop oc) hs of (res, hs') \<Rightarrow> Some (answered res, hs'))"
| "do_call K env oc Stop hs = (case stop_agent K env (oc_world oc) (oc_stop oc) hs of (res, hs') \<Rightarrow> Some (answered res, hs'))"
| "do_call K env oc FlushBuffer (h, s) =
     (case flush_buffer K env (oc_world oc) (se_clock (oc_stop oc)) (se_events (oc_stop oc)) (se_metrics (oc_stop oc)) (hn_client h) s of
        (res, cl, s', calls) \<Rightarrow> Some (answered res, h\<lparr>hn_client := cl\<rparr>, s'))"
| "do_call K env oc GetDynamicRules (h, s) =
     (case get_dynamic_rules K env (oc_world oc) (oc_now oc) (oc_others oc) h s of
        (res, h', s') \<Rightarrow> Some (map_sum id Rules res, h', s'))"
| "do_call K env oc HealthCheck (h, s) = Some (Inr (Health (health_check h (rn_transport s))), h, s)"
| "do_call K env oc GetStatus (h, s) =
     Some (Inr (Status (get_status (oc_timestamp oc) (oc_now oc) h (rn_transport s))), h, s)"
| "do_call K env oc Close hs = (case stop_agent K env (oc_world oc) (oc_stop oc) hs of (res, hs') \<Rightarrow> Some (answered res, hs'))"

text \<open>A round answers nothing; how it ends and what it logs is the loop's own concern.\<close>

fun do_round :: "kit \<Rightarrow> agent_env \<Rightarrow> 'r occasion \<Rightarrow> agent_task \<Rightarrow> (security_event, security_metric, 'r) agent_state
   \<Rightarrow> (security_event, security_metric, 'r) agent_state" where
  "do_round K env oc FlushTask hs = fst (snd (flush_round K env (oc_world oc) (oc_loop oc) 0 hs))"
| "do_round K env oc StatusTask hs = fst (snd (status_round K env (oc_world oc) (oc_loop oc) 0 hs))"
| "do_round K env oc RulesTask hs = fst (snd (rules_round K env (oc_world oc) (oc_loop oc) 0 hs))"

fun do_action :: "kit \<Rightarrow> agent_env \<Rightarrow> 'r occasion \<Rightarrow> 'r agent_action \<Rightarrow> (security_event, security_metric, 'r) agent_state
   \<Rightarrow> ((exn + agent_answer) \<times> (security_event, security_metric, 'r) agent_state) option" where
  "do_action K env oc (Call c) hs = do_call K env oc c hs"
| "do_action K env oc (Round t) hs = Some (Inr Done, do_round K env oc t hs)"

section \<open>What a buffer holds\<close>

text \<open>A well-formed buffer of capacity \<open>n\<close> whose events and metrics are among given objects.\<close>

definition holds :: "nat \<Rightarrow> oid set \<Rightarrow> oid set \<Rightarrow> ('e, 'm, 'r) event_buffer \<Rightarrow> bool" where
  "holds n Me Mm B \<longleftrightarrow> buffer_wf B \<and> buffer_maxlen B = n
     \<and> ids (ln_items (bf_events B)) \<subseteq> Me \<and> ids (ln_items (bf_metrics B)) \<subseteq> Mm"

text \<open>
  What is expected of the other tasks at an await: whatever the buffer holds, they leave it well formed
  and queue no object but new ones from \<open>N\<close>. \<open>view\<close> is where the buffer is in the state they act on.
\<close>

definition adds :: "oid set \<Rightarrow> ('s \<Rightarrow> ('e, 'm, 'r) event_buffer) \<Rightarrow> ('s \<Rightarrow> 's) \<Rightarrow> bool" where
  "adds N view f \<longleftrightarrow> (\<forall>n Me Mm x. holds n Me Mm (view x) \<longrightarrow> holds n (Me \<union> N) (Mm \<union> N) (view (f x)))"

definition client_buffer :: "('e, 'm, 'r) client \<Rightarrow> ('e, 'm, 'r) event_buffer" where
  "client_buffer cl = fst (cl_buffer cl)"

lemma addsD: "adds N view f \<Longrightarrow> holds n Me Mm (view x) \<Longrightarrow> holds n (Me \<union> N) (Mm \<union> N) (view (f x))"
  by (simp add: adds_def)

lemma holds_mono: "holds n Me Mm B \<Longrightarrow> Me \<subseteq> Me' \<Longrightarrow> Mm \<subseteq> Mm' \<Longrightarrow> holds n Me' Mm' B"
  by (auto simp: holds_def)

lemma holds_client: "holds n Me Mm (client_buffer cl) \<longleftrightarrow>
   events_wf cl \<and> metrics_wf cl \<and> buffer_cap cl = n \<and> ids (event_queue cl) \<subseteq> Me \<and> ids (metric_queue cl) \<subseteq> Mm"
  by (auto simp: holds_def client_buffer_def events_wf_def metrics_wf_def buffer_wf_def buffer_cap_def event_queue_def
      metric_queue_def split: prod.splits)

lemma hn_buffer_client: "hn_buffer h = client_buffer (hn_client h)"
  by (simp add: hn_buffer_def client_buffer_def)

section \<open>Flushing\<close>

text \<open>A predicate of the client that the operations of a lane keep holds after its flush, when the others keep it.\<close>

lemma flush_lane_keeps:
  assumes ops: "\<And>now b xs ks b'. fo_drain F now b = (xs, ks, b') \<Longrightarrow> P b \<Longrightarrow> P b'"
    "\<And>ks b r b'. fo_confirm F ks b = (r, b') \<Longrightarrow> Q b \<Longrightarrow> Q b'"
    "\<And>xs ks b r b'. fo_requeue F xs ks b = (r, b') \<Longrightarrow> Q b \<Longrightarrow> Q b'"
    "\<And>st b. Q b \<Longrightarrow> Q (fo_set_stats F st b)"
    and others: "\<And>batch b1. flush_begin F now b = (batch, b1) \<Longrightarrow> P b1 \<Longrightarrow> if batch = None then Q b1 else Q (others b1)"
    and P: "P b" and flush: "flush_lane F c now now' send others b s = (res, b', s', calls)"
  shows "Q b'"
proof -
  obtain batch b1 where b: "flush_begin F now b = (batch, b1)" by fastforce
  then have "P b1" using ops(1) P by (auto simp: flush_begin_def split: if_splits prod.splits)
  note o = others [OF b this]
  have rc: "requeue_and_confirm F xs ks b = (r, b2) \<Longrightarrow> Q b \<Longrightarrow> Q b2" for xs ks b r b2
    using ops(2,3) by (fastforce simp: requeue_and_confirm_def split: sum.splits prod.splits if_splits)
  have e: "flush_end F c t result xs ks b = (r, b2, calls2) \<Longrightarrow> Q b \<Longrightarrow> Q b2" for t result xs ks b r b2 calls2
    using ops(2,4) rc by (fastforce simp: flush_end_def split: sum.splits prod.splits if_splits)
  from flush b o show ?thesis
    by (cases batch) (auto simp: flush_lane_def split: prod.splits dest: e)
qed

lemma event_ops_metrics:
  "fo_drain event_flush_ops now cl = (xs, ks, cl') \<Longrightarrow> metric_view cl' = metric_view cl"
  "fo_confirm event_flush_ops ks cl = (r, cl') \<Longrightarrow> metric_view cl' = metric_view cl"
  "fo_requeue event_flush_ops xs ks cl = (rs, cl') \<Longrightarrow> metric_view cl' = metric_view cl"
  "metric_view (fo_set_stats event_flush_ops st cl) = metric_view cl"
  by (auto simp: event_flush_ops_def metric_view_def flush_events_with_keys_def confirm_event_redis_keys_def
      requeue_events_in_memory_def split: prod.splits)

lemma metric_ops_events:
  "fo_drain metric_flush_ops now cl = (xs, ks, cl') \<Longrightarrow> event_view cl' = event_view cl"
  "fo_confirm metric_flush_ops ks cl = (r, cl') \<Longrightarrow> event_view cl' = event_view cl"
  "fo_requeue metric_flush_ops xs ks cl = (rs, cl') \<Longrightarrow> event_view cl' = event_view cl"
  "event_view (fo_set_stats metric_flush_ops st cl) = event_view cl"
  by (auto simp: metric_flush_ops_def event_view_def flush_metrics_with_keys_def confirm_metric_redis_keys_def
      requeue_metrics_in_memory_def split: prod.splits)

text \<open>The half of \<open>holds\<close> that belongs to the other lane.\<close>

definition holds_metrics :: "nat \<Rightarrow> oid set \<Rightarrow> ('e, 'm, 'r) client \<Rightarrow> bool" where
  "holds_metrics n Mm cl \<longleftrightarrow> metrics_wf cl \<and> buffer_cap cl = n \<and> ids (metric_queue cl) \<subseteq> Mm"

definition holds_events :: "nat \<Rightarrow> oid set \<Rightarrow> ('e, 'm, 'r) client \<Rightarrow> bool" where
  "holds_events n Me cl \<longleftrightarrow> events_wf cl \<and> buffer_cap cl = n \<and> ids (event_queue cl) \<subseteq> Me"

lemma holds_halves: "holds n Me Mm (client_buffer cl) \<longleftrightarrow> holds_events n Me cl \<and> holds_metrics n Mm cl"
  by (auto simp: holds_client holds_events_def holds_metrics_def)

lemma view_halves:
  "metric_view cl' = metric_view cl \<Longrightarrow> holds_metrics n Mm cl' = holds_metrics n Mm cl"
  "event_view cl' = event_view cl \<Longrightarrow> holds_events n Me cl' = holds_events n Me cl"
  by (auto simp: metric_view_def event_view_def holds_metrics_def holds_events_def metrics_wf_def events_wf_def
      buffer_cap_def buffer_maxlen_def event_queue_def metric_queue_def split: prod.splits)

lemma event_ops_half:
  "fo_drain event_flush_ops now cl = (xs, ks, cl') \<Longrightarrow> holds_metrics n Mm cl \<Longrightarrow> holds_metrics n Mm cl'"
  "fo_confirm event_flush_ops ks cl = (r, cl') \<Longrightarrow> holds_metrics n Mm cl \<Longrightarrow> holds_metrics n Mm cl'"
  "fo_requeue event_flush_ops xs ks cl = (rs, cl') \<Longrightarrow> holds_metrics n Mm cl \<Longrightarrow> holds_metrics n Mm cl'"
  "holds_metrics n Mm (fo_set_stats event_flush_ops st cl) = holds_metrics n Mm cl"
  by (simp_all add: event_ops_metrics(1-3) [THEN view_halves(1)] event_ops_metrics(4) [THEN view_halves(1)])

lemma metric_ops_half:
  "fo_drain metric_flush_ops now cl = (xs, ks, cl') \<Longrightarrow> holds_events n Me cl \<Longrightarrow> holds_events n Me cl'"
  "fo_confirm metric_flush_ops ks cl = (r, cl') \<Longrightarrow> holds_events n Me cl \<Longrightarrow> holds_events n Me cl'"
  "fo_requeue metric_flush_ops xs ks cl = (rs, cl') \<Longrightarrow> holds_events n Me cl \<Longrightarrow> holds_events n Me cl'"
  "holds_events n Me (fo_set_stats metric_flush_ops st cl) = holds_events n Me cl"
  by (simp_all add: metric_ops_events(1-3) [THEN view_halves(2)] metric_ops_events(4) [THEN view_halves(2)])

context flusher
begin

text \<open>The lane's own half: what was in flight is put back, or not, in front of what the others queued.\<close>

lemma own_half:
  assumes "good k" "inv b" "cap b = n" "fst ` set (queue b) \<subseteq> M" "M \<inter> N = {}"
    and o: "\<And>b1. inv b1 \<Longrightarrow> cap b1 = n \<Longrightarrow> queue b1 = [] \<Longrightarrow> R b1 \<Longrightarrow>
      inv (others b1) \<and> cap (others b1) = n \<and> fst ` set (queue (others b1)) \<subseteq> N"
    and R: "\<And>batch b1. flush_begin F now b = (batch, b1) \<Longrightarrow> R b1"
    and flush: "flush_lane F c now now' (send k) others b s = (res, b', s', calls)"
  shows "inv b' \<and> cap b' = n \<and> fst ` set (queue b') \<subseteq> M \<union> N"
proof -
  obtain batch b1 where b: "flush_begin F now b = (batch, b1)" by fastforce
  note R = R [OF b]
  from assms(2) b show ?thesis
  proof (cases rule: begin_cases)
    case waiting
    with flush b assms show ?thesis by (auto simp: flush_lane_def)
  next
    case idle
    obtain xs ks b2 where d: "fo_drain F now b = (xs, ks, b2)" by (metis prod_cases3)
    with drain [OF assms(2) d] b assms(3) have "cap b1 = n" by (auto simp: flush_begin_def split: if_splits)
    with idle flush b show ?thesis by (simp add: flush_lane_def)
  next
    case (batch ks)
    from o [OF batch(4) _ batch(3) R] batch(5) assms(3) have ob: "inv (others b1)" "cap (others b1) = n"
      "fst ` set (queue (others b1)) \<subseteq> N" by auto
    obtain result s1 where s1: "send k (map snd (queue b)) s = (result, s1)" by fastforce
    obtain res2 b2 calls2 where e: "flush_end F c now' result (queue b) ks (others b1) = (res2, b2, calls2)" by (metis prod_cases3)
    with flush b batch(1) s1 have b2: "b' = b2" by (simp add: flush_lane_def)
    have dis: "fst ` set (queue b) \<inter> fst ` set (queue (others b1)) = {}" using ob(3) assms(4,5) by blast
    show ?thesis
    proof (cases "result = Inr True")
      case True
      from end_sent(1-3) [OF ob(1) e [unfolded True]] ob b2 show ?thesis by auto
    next
      case False
      note f = end_failed(1-3) [OF ob(1) batch(6,7) dis False e]
      have "set (queue b2) \<subseteq> set (queue b) \<union> set (queue (others b1))"
        using set_take_subset [of "cap (others b1)" "queue b @ queue (others b1)"] by (simp add: f(1))
      then have "fst ` set (queue b2) \<subseteq> fst ` set (queue b) \<union> fst ` set (queue (others b1))" by (simp add: image_mono image_Un [symmetric])
      also have "\<dots> \<subseteq> M \<union> N" using ob(3) assms(4) by (rule Un_mono [rotated])
      finally show ?thesis using f(2,3) ob(2) b2 by simp
    qed
  qed
qed

end

lemma event_flush_holds:
  assumes "kit_laws K" and h: "holds n Me Mm (client_buffer cl)" and others: "adds N client_buffer others" and new: "Me \<inter> N = {}"
    and flush: "flush_lane event_flush_ops c now now' (send_events K env w) others cl s = (res, cl', s', calls)"
  shows "holds n (Me \<union> N) (Mm \<union> N) (client_buffer cl')"
proof -
  have both: "holds_events n Me cl" "holds_metrics n Mm cl" using h by (simp_all add: holds_halves)
  have o: "holds_events n N (others b1) \<and> holds_metrics n (Mm \<union> N) (others b1)"
    if "events_wf b1" "buffer_cap b1 = n" "event_queue b1 = []" "holds_metrics n Mm b1" for b1
    using addsD [OF others, of n "{}" Mm b1] that by (simp add: holds_halves holds_events_def)
  have started: "holds_metrics n Mm b1" if "flush_begin event_flush_ops now cl = (batch, b1)" for batch b1
    using that both(2) by (auto simp: flush_begin_def split: if_splits prod.splits dest: event_ops_half(1))
  have good: "sends_lawfully (K, env, w)" and flush': "flush_lane event_flush_ops c now now' (events_sender (K, env, w)) others cl s
      = (res, cl', s', calls)"
    using assms(1) flush by (simp_all add: sends_lawfully_def events_sender_def)
  have "events_wf cl' \<and> buffer_cap cl' = n \<and> ids (event_queue cl') \<subseteq> Me \<union> N"
    by (rule evf.own_half [OF good _ _ _ new _ _ flush', where R = "holds_metrics n Mm"])
       (use both o started in \<open>auto simp: holds_events_def\<close>)
  moreover have "holds_metrics n (Mm \<union> N) cl'"
  proof (rule flush_lane_keeps [where P = "holds_metrics n Mm" and Q = "holds_metrics n (Mm \<union> N)", OF _ _ _ _ _ both(2) flush])
    fix batch b1
    assume b: "flush_begin event_flush_ops now cl = (batch, b1)" "holds_metrics n Mm b1"
    have "events_wf cl" using both(1) by (simp add: holds_events_def)
    from this b(1) show "if batch = None then holds_metrics n (Mm \<union> N) b1 else holds_metrics n (Mm \<union> N) (others b1)"
      by (cases rule: ev.begin_cases) (use b(2) o both(1) in \<open>auto simp: holds_metrics_def holds_events_def\<close>)
  qed (auto dest: event_ops_half(1-3) simp: event_ops_half(4))
  ultimately show ?thesis by (simp add: holds_halves holds_events_def)
qed

lemma metric_flush_holds:
  assumes "kit_laws K" and h: "holds n Me Mm (client_buffer cl)" and others: "adds N client_buffer others" and new: "Mm \<inter> N = {}"
    and flush: "flush_lane metric_flush_ops c now now' (send_metrics K env w) others cl s = (res, cl', s', calls)"
  shows "holds n (Me \<union> N) (Mm \<union> N) (client_buffer cl')"
proof -
  have both: "holds_events n Me cl" "holds_metrics n Mm cl" using h by (simp_all add: holds_halves)
  have o: "holds_metrics n N (others b1) \<and> holds_events n (Me \<union> N) (others b1)"
    if "metrics_wf b1" "buffer_cap b1 = n" "metric_queue b1 = []" "holds_events n Me b1" for b1
    using addsD [OF others, of n Me "{}" b1] that by (simp add: holds_halves holds_metrics_def)
  have started: "holds_events n Me b1" if "flush_begin metric_flush_ops now cl = (batch, b1)" for batch b1
    using that both(1) by (auto simp: flush_begin_def split: if_splits prod.splits dest: metric_ops_half(1))
  have good: "sends_lawfully (K, env, w)" and flush': "flush_lane metric_flush_ops c now now' (metrics_sender (K, env, w)) others cl s
      = (res, cl', s', calls)"
    using assms(1) flush by (simp_all add: sends_lawfully_def metrics_sender_def)
  have "metrics_wf cl' \<and> buffer_cap cl' = n \<and> ids (metric_queue cl') \<subseteq> Mm \<union> N"
    by (rule mtf.own_half [OF good _ _ _ new _ _ flush', where R = "holds_events n Me"])
       (use both o started in \<open>auto simp: holds_metrics_def\<close>)
  moreover have "holds_events n (Me \<union> N) cl'"
  proof (rule flush_lane_keeps [where P = "holds_events n Me" and Q = "holds_events n (Me \<union> N)", OF _ _ _ _ _ both(1) flush])
    fix batch b1
    assume b: "flush_begin metric_flush_ops now cl = (batch, b1)" "holds_events n Me b1"
    have "metrics_wf cl" using both(2) by (simp add: holds_metrics_def)
    from this b(1) show "if batch = None then holds_events n (Me \<union> N) b1 else holds_events n (Me \<union> N) (others b1)"
      by (cases rule: mt.begin_cases) (use b(2) o both(2) in \<open>auto simp: holds_metrics_def holds_events_def\<close>)
  qed (auto dest: metric_ops_half(1-3) simp: metric_ops_half(4))
  ultimately show ?thesis by (simp add: holds_halves holds_metrics_def)
qed

lemma flush_buffer_holds:
  assumes laws: "kit_laws K" and h: "holds n Me Mm (client_buffer cl)" and others: "adds N1 client_buffer o1" "adds N2 client_buffer o2"
    and new: "Me \<inter> N1 = {}" "Mm \<inter> N2 = {}" "N1 \<inter> N2 = {}"
    and flush: "flush_buffer K env w clock o1 o2 cl s = (res, cl', s', calls)"
  shows "holds n (Me \<union> N1 \<union> N2) (Mm \<union> N1 \<union> N2) (client_buffer cl')"
proof -
  obtain r1 cl1 s1 c1 where f1: "flush_lane event_flush_ops (cl_config cl) (clock ! 0) (clock ! 1) (send_events K env w) o1 cl s
      = (r1, cl1, s1, c1)" by (metis prod_cases4)
  note h1 = event_flush_holds [OF laws h others(1) new(1) f1]
  obtain r2 cl2 s2 c2 where f2: "flush_lane metric_flush_ops (cl_config cl) (clock ! 2) (clock ! 3) (send_metrics K env w) o2 cl1 s1
      = (r2, cl2, s2, c2)" by (metis prod_cases4)
  have "(Mm \<union> N1) \<inter> N2 = {}" using new by auto
  note h2 = metric_flush_holds [OF laws h1 others(2) this f2]
  have "cl' = (case r1 of Inl e \<Rightarrow> cl1 | Inr _ \<Rightarrow> cl2)"
    using flush f1 f2 by (auto simp: flush_buffer_def split: sum.splits)
  with h2 holds_mono [OF h1, of "Me \<union> N1 \<union> N2" "Mm \<union> N1 \<union> N2"] show ?thesis by (auto split: sum.split)
qed

section \<open>What a run has done\<close>

text \<open>
  Every request that was made carries what it may carry, every pause was bounded, and what was settled
  was settled on the word of the server.
\<close>

definition lawful :: "kit \<Rightarrow> agent_env \<Rightarrow> run \<Rightarrow> bool" where
  "lawful K env s \<longleftrightarrow> (\<forall>x \<in> set (rn_trace s). effect_ok K env x) \<and> all_backed (rn_trace s)"

lemma lawful_extend:
  "lawful K env s \<Longrightarrow> rn_trace s' = rn_trace s @ es \<Longrightarrow> \<forall>x \<in> set es. effect_ok K env x \<Longrightarrow> all_backed es \<Longrightarrow> lawful K env s'"
  by (auto simp: lawful_def intro: all_backed_append)

lemma lawful_emits:
  assumes "emits m (\<lambda>_ es. (\<forall>x \<in> set es. effect_ok K env x) \<and> all_backed es) (\<lambda>_ es. (\<forall>x \<in> set es. effect_ok K env x) \<and> all_backed es)"
    and "lawful K env s" "m s = (r, s')"
  shows "lawful K env s'"
proof -
  obtain es where "rn_trace s' = rn_trace s @ es" "(\<forall>x \<in> set es. effect_ok K env x) \<and> all_backed es"
    using emitsD [OF assms(1,3)] by (metis sum.exhaust)
  with lawful_extend [OF assms(2)] show ?thesis by blast
qed

lemma lawful_send:
  assumes laws: "kit_laws K" and "lawful K env s"
  shows "send_events K env w xs s = (r, s') \<Longrightarrow> lawful K env s'" "send_metrics K env w ys s = (r, s') \<Longrightarrow> lawful K env s'"
    "send_status K env w st s = (r, s') \<Longrightarrow> lawful K env s'" "fetch_dynamic_rules K env w s = (q, s') \<Longrightarrow> lawful K env s'"
     apply (rule lawful_emits [OF emits_weaken [OF emits_send_events [OF laws]] assms(2)]; simp add: batch_outcome_def)
    apply (rule lawful_emits [OF emits_weaken [OF emits_send_metrics [OF laws]] assms(2)]; simp add: batch_outcome_def)
   apply (rule lawful_emits [OF emits_weaken [OF emits_send_status [OF laws]] assms(2)]; simp add: all_backed_none)
  apply (rule lawful_emits [OF emits_weaken [OF emits_fetch_dynamic_rules [OF laws]] assms(2)]; simp add: all_backed_none)
  done

lemma flush_lane_lawful:
  assumes "\<And>vs s r s'. send vs s = (r, s') \<Longrightarrow> lawful K env s \<Longrightarrow> lawful K env s'" and "lawful K env s"
    and "flush_lane F c now now' send others b s = (res, b', s', calls)"
  shows "lawful K env s'"
  using assms(2,3) by (auto simp: flush_lane_def split: option.splits prod.splits dest: assms(1))

lemma flush_buffer_lawful:
  assumes "kit_laws K" "lawful K env s" "flush_buffer K env w clock o1 o2 cl s = (res, cl', s', calls)"
  shows "lawful K env s'"
proof -
  obtain r1 cl1 s1 c1 where f1: "flush_lane event_flush_ops (cl_config cl) (clock ! 0) (clock ! 1) (send_events K env w) o1 cl s
      = (r1, cl1, s1, c1)" by (metis prod_cases4)
  obtain r2 cl2 s2 c2 where f2: "flush_lane metric_flush_ops (cl_config cl) (clock ! 2) (clock ! 3) (send_metrics K env w) o2 cl1 s1
      = (r2, cl2, s2, c2)" by (metis prod_cases4)
  have l1: "lawful K env s1" by (rule flush_lane_lawful [OF _ assms(2) f1]) (rule lawful_send(1) [OF assms(1)])
  have l2: "lawful K env s2" by (rule flush_lane_lawful [OF _ l1 f2]) (rule lawful_send(2) [OF assms(1)])
  from assms(3) f1 f2 l1 l2 show ?thesis by (cases r1) (auto simp: flush_buffer_def split: sum.splits)
qed

section \<open>Taking in\<close>

lemma add_round_waits:
  "add_round K R policy n key x (L, fails, r) = (Inr False, L', fails', r') \<Longrightarrow> ln_items L' = ln_items L"
  by (auto simp: add_round_def split: prod.splits sum.splits bool.splits dest: resolve_overflow_frame)

lemma buffer_wf_lanes:
  "buffer_wf B \<Longrightarrow> lane_wf (buffer_maxlen B) L \<Longrightarrow> buffer_wf (B\<lparr>bf_events := L, bf_persist_failures := f\<rparr>)"
  "buffer_wf B \<Longrightarrow> lane_wf (buffer_maxlen B) L' \<Longrightarrow> buffer_wf (B\<lparr>bf_metrics := L', bf_persist_failures := f\<rparr>)"
  by (simp_all add: buffer_wf_def buffer_maxlen_def)

lemma add_event_round_holds:
  assumes h: "holds n Me Mm (fst s)" and x: "fst x \<notin> Me" "key \<noteq> []" and a: "add_event_round K key x s = (res, s')"
  shows "if res = Inr False then holds n Me Mm (fst s') else holds n (insert (fst x) Me) Mm (fst s')"
proof -
  obtain B r where s: "s = (B, r)" by fastforce
  have B: "buffer_wf B" "buffer_maxlen B = n" "ids (ln_items (bf_events B)) \<subseteq> Me" "ids (ln_items (bf_metrics B)) \<subseteq> Mm"
    using h by (simp_all add: s holds_def)
  obtain L f r' where a: "add_round K (bf_redis B) (cf_overflow_policy (bf_config B)) (buffer_maxlen B) key x
      (bf_events B, bf_persist_failures B, r) = (res, L, f, r')" "fst s' = B\<lparr>bf_events := L, bf_persist_failures := f\<rparr>"
    using a by (auto simp: s add_event_round_def split: prod.splits)
  have "buffer_wf (fst s')"
    unfolding a(2) by (rule buffer_wf_lanes(1) [OF B(1) add_round_wf [OF buffer_wfD(2,1) [OF B(1)] _ x(2) a(1)]]) (use B(3) x(1) in auto)
  moreover have "ids (ln_items L) \<subseteq> insert (fst x) Me" using add_round_items [OF a(1)] B(3) by auto
  moreover have "res = Inr False \<Longrightarrow> ids (ln_items L) \<subseteq> Me" using add_round_waits a(1) B(3) by metis
  ultimately show ?thesis using B by (simp add: holds_def a(2) buffer_maxlen_def)
qed

lemma add_metric_round_holds:
  assumes h: "holds n Me Mm (fst s)" and x: "fst x \<notin> Mm" "key \<noteq> []" and a: "add_metric_round K key x s = (res, s')"
  shows "if res = Inr False then holds n Me Mm (fst s') else holds n Me (insert (fst x) Mm) (fst s')"
proof -
  obtain B r where s: "s = (B, r)" by fastforce
  have B: "buffer_wf B" "buffer_maxlen B = n" "ids (ln_items (bf_events B)) \<subseteq> Me" "ids (ln_items (bf_metrics B)) \<subseteq> Mm"
    using h by (simp_all add: s holds_def)
  obtain L f r' where a: "add_round K (bf_redis B) (cf_overflow_policy (bf_config B)) (buffer_maxlen B) key x
      (bf_metrics B, bf_persist_failures B, r) = (res, L, f, r')" "fst s' = B\<lparr>bf_metrics := L, bf_persist_failures := f\<rparr>"
    using a by (auto simp: s add_metric_round_def split: prod.splits)
  have "buffer_wf (fst s')"
    unfolding a(2) by (rule buffer_wf_lanes(2) [OF B(1) add_round_wf [OF buffer_wfD(3,1) [OF B(1)] _ x(2) a(1)]]) (use B(4) x(1) in auto)
  moreover have "ids (ln_items L) \<subseteq> insert (fst x) Mm" using add_round_items [OF a(1)] B(4) by auto
  moreover have "res = Inr False \<Longrightarrow> ids (ln_items L) \<subseteq> Mm" using add_round_waits a(1) B(4) by metis
  ultimately show ?thesis using B by (simp add: holds_def a(2) buffer_maxlen_def)
qed

text \<open>What other tasks do in a wait, with a cancellation of the writer doing nothing.\<close>

definition waiting :: "(nat \<Rightarrow> 's \<Rightarrow> 's option) \<Rightarrow> nat \<Rightarrow> 's \<Rightarrow> 's" where
  "waiting env k s = (case env k s of None \<Rightarrow> s | Some s' \<Rightarrow> s')"

text \<open>The waiting loop: \<open>P\<close> holds before each attempt, \<open>Q\<close> after the last.\<close>

lemma wait_loop_ends:
  assumes attempt: "\<And>s res s'. P s \<Longrightarrow> attempt s = (res, s') \<Longrightarrow> if res = Inr False then P s' else Q s'"
    and env: "\<And>k s. P s \<Longrightarrow> P (waiting env k s)" and weak: "\<And>s. P s \<Longrightarrow> Q s"
  shows "wait_loop fuel env k attempt s = Some (res, s') \<Longrightarrow> P s \<Longrightarrow> Q s'"
proof (induction fuel arbitrary: k s)
  case (Suc fuel)
  obtain r t where a: "attempt s = (r, t)" by (meson prod.exhaust)
  note t = attempt [OF Suc.prems(2) a]
  show ?case
  proof (cases "r = Inr False")
    case True
    with t have "P t" by simp
    with env [of t k] weak True Suc a show ?thesis by (auto simp: waiting_def split: option.splits)
  next
    case False
    with t Suc.prems(1) a show ?thesis by (auto split: sum.splits bool.splits)
  qed
qed simp

lemma adds_absorb: "adds N view f \<Longrightarrow> N \<subseteq> Me \<Longrightarrow> N \<subseteq> Mm \<Longrightarrow> holds n Me Mm (view x) \<Longrightarrow> holds n Me Mm (view (f x))"
  by (auto dest: addsD simp: Un_absorb2)

lemma holds_inflight [simp]: "holds n Me Mm (B\<lparr>bf_inflight := k\<rparr>) = holds n Me Mm B"
  by (simp add: holds_def buffer_maxlen_def)

lemma send_event_holds:
  assumes h: "holds n Me Mm (fst s)" and x: "i \<notin> Me \<union> N" "key \<noteq> []" and env: "\<And>k. adds N fst (waiting env k)"
    and e: "send_event C build c fuel env K key i given s = Some (res, s')"
  shows "holds n (insert i Me \<union> N) (Mm \<union> N) (fst s')" "res = Inl e \<Longrightarrow> e = CancelledError"
proof -
  have small: "holds n (Me \<union> N) (Mm \<union> N) (fst s)" and large: "holds n (insert i Me \<union> N) (Mm \<union> N) (fst s)"
    using h by (auto elim: holds_mono)
  have *: "holds n (insert i Me \<union> N) (Mm \<union> N) (fst s') \<and> (\<forall>e. res = Inl e \<longrightarrow> e = CancelledError)"
  proof (cases "cf_enable_events c")
    case True
    show ?thesis
    proof (cases "normalize_given event_fields build given")
      case (Inl x)
      with True e have "swallow (Inl x, s) = (res, s')" by (simp add: send_event_def)
      with swallow_error [of "Inl x" s _ s'] swallow_state [of "Inl x" s] large show ?thesis by auto
    next
      case (Inr ev)
      let ?x = "(i, redact_event_metadata C c ev)"
      obtain r t where a: "add_event fuel env K key ?x s = Some (r, t)" "swallow (r, t) = (res, s')"
        using True Inr e by (auto simp: send_event_def)
      then obtain B r1 where w: "wait_loop fuel env 0 (add_event_round K key ?x) s = Some (r, B, r1)"
          "fst t = B \<or> fst t = B\<lparr>bf_inflight := bf_inflight B + 1\<rparr>"
        by (auto simp: add_event_def split: if_splits)
      have "holds n (insert i (Me \<union> N)) (Mm \<union> N) (fst (B, r1))"
      proof (rule wait_loop_ends [where P = "\<lambda>s. holds n (Me \<union> N) (Mm \<union> N) (fst s)"
            and Q = "\<lambda>s. holds n (insert i (Me \<union> N)) (Mm \<union> N) (fst s)", OF _ _ _ w(1) small])
        show "holds n (Me \<union> N) (Mm \<union> N) (fst (waiting env k s))" if "holds n (Me \<union> N) (Mm \<union> N) (fst s)" for k s
          by (rule adds_absorb [OF env _ _ that]) auto
        show "if q = Inr False then holds n (Me \<union> N) (Mm \<union> N) (fst t) else holds n (insert i (Me \<union> N)) (Mm \<union> N) (fst t)"
          if "holds n (Me \<union> N) (Mm \<union> N) (fst s)" "add_event_round K key ?x s = (q, t)" for s q t
          using add_event_round_holds [OF that(1) _ x(2) that(2)] x(1) by (simp split: if_splits)
      qed (auto elim: holds_mono)
      with w(2) have "holds n (insert i Me \<union> N) (Mm \<union> N) (fst t)" by auto
      with a(2) swallow_error [of r t _ s'] swallow_state [of r t] show ?thesis by auto
    qed
  qed (use large e in \<open>auto simp: send_event_def\<close>)
  then show "holds n (insert i Me \<union> N) (Mm \<union> N) (fst s')" "res = Inl e \<Longrightarrow> e = CancelledError" by auto
qed

lemma send_metric_holds:
  assumes h: "holds n Me Mm (fst s)" and x: "i \<notin> Mm \<union> N" "key \<noteq> []" and env: "\<And>k. adds N fst (waiting env k)"
    and e: "send_metric C build c fuel env K key i given s = Some (res, s')"
  shows "holds n (Me \<union> N) (insert i Mm \<union> N) (fst s')" "res = Inl e \<Longrightarrow> e = CancelledError"
proof -
  have small: "holds n (Me \<union> N) (Mm \<union> N) (fst s)" and large: "holds n (Me \<union> N) (insert i Mm \<union> N) (fst s)"
    using h by (auto elim: holds_mono)
  have *: "holds n (Me \<union> N) (insert i Mm \<union> N) (fst s') \<and> (\<forall>e. res = Inl e \<longrightarrow> e = CancelledError)"
  proof (cases "cf_enable_metrics c")
    case True
    show ?thesis
    proof (cases "normalize_given metric_fields build given")
      case (Inl x)
      with True e have "swallow (Inl x, s) = (res, s')" by (simp add: send_metric_def)
      with swallow_error [of "Inl x" s _ s'] swallow_state [of "Inl x" s] large show ?thesis by auto
    next
      case (Inr m)
      let ?x = "(i, redact_metric_tags C c m)"
      obtain r t where a: "add_metric fuel env K key ?x s = Some (r, t)" "swallow (r, t) = (res, s')"
        using True Inr e by (auto simp: send_metric_def)
      then obtain B r1 where w: "wait_loop fuel env 0 (add_metric_round K key ?x) s = Some (r, B, r1)"
          "fst t = B \<or> fst t = B\<lparr>bf_inflight := bf_inflight B + 1\<rparr>"
        by (auto simp: add_metric_def split: if_splits)
      have "holds n (Me \<union> N) (insert i (Mm \<union> N)) (fst (B, r1))"
      proof (rule wait_loop_ends [where P = "\<lambda>s. holds n (Me \<union> N) (Mm \<union> N) (fst s)"
            and Q = "\<lambda>s. holds n (Me \<union> N) (insert i (Mm \<union> N)) (fst s)", OF _ _ _ w(1) small])
        show "holds n (Me \<union> N) (Mm \<union> N) (fst (waiting env k s))" if "holds n (Me \<union> N) (Mm \<union> N) (fst s)" for k s
          by (rule adds_absorb [OF env _ _ that]) auto
        show "if q = Inr False then holds n (Me \<union> N) (Mm \<union> N) (fst t) else holds n (Me \<union> N) (insert i (Mm \<union> N)) (fst t)"
          if "holds n (Me \<union> N) (Mm \<union> N) (fst s)" "add_metric_round K key ?x s = (q, t)" for s q t
          using add_metric_round_holds [OF that(1) _ x(2) that(2)] x(1) by (simp split: if_splits)
      qed (auto elim: holds_mono)
      with w(2) have "holds n (Me \<union> N) (insert i Mm \<union> N) (fst t)" by auto
      with a(2) swallow_error [of r t _ s'] swallow_state [of r t] show ?thesis by auto
    qed
  qed (use large e in \<open>auto simp: send_metric_def\<close>)
  then show "holds n (Me \<union> N) (insert i Mm \<union> N) (fst s')" "res = Inl e \<Longrightarrow> e = CancelledError" by auto
qed

end
