(* ===== verification/AgentRuns.thy ===== *)
theory AgentRuns
  imports Agent "HOL-Library.Disjoint_Sets"
begin

text \<open>
  Runs of the agent: the invariant that every call and every round of a background task keeps, under
  what is expected of the outside, and what it gives for whole runs.
\<close>

section \<open>What is expected of the outside\<close>

lemma map_sum_Inl: "map_sum id f x = Inl e \<longleftrightarrow> x = Inl e"
  by (cases x) simp_all

definition queued :: "('e, 'm, 'r) handler \<Rightarrow> oid set" where
  "queued h = ids (ln_items (bf_events (hn_buffer h))) \<union> ids (ln_items (bf_metrics (hn_buffer h)))"

text \<open>
  The objects that other tasks queue at the awaits of an action are new: \<open>N 0\<close> to \<open>N 3\<close> are disjoint from
  each other and from what is queued; so is the object of a \<open>send_event\<close>, and the loaded objects.
\<close>

definition considerate :: "'r occasion \<Rightarrow> (security_event, security_metric, 'r) handler \<Rightarrow> bool" where
  "considerate oc h \<longleftrightarrow> oc_key oc \<noteq> [] \<and> (\<forall>k \<in> queued h. k < oc_loaded oc) \<and>
     (\<exists>N :: nat \<Rightarrow> oid set. disjoint_family N \<and> (\<forall>k. N k \<inter> queued h = {}) \<and> oc_object oc \<notin> queued h \<union> N 0
      \<and> (\<forall>k. adds (N 0) fst (waiting (oc_waits oc) k)) \<and> adds (N 0) hn_buffer (oc_others oc)
      \<and> adds (N 0) hn_buffer (se_tasks (oc_stop oc)) \<and> adds (N 1) client_buffer (se_events (oc_stop oc))
      \<and> adds (N 2) client_buffer (se_metrics (oc_stop oc))
      \<and> adds (N 0) hn_buffer (le_sleep (oc_loop oc) 0) \<and> adds (N 1) client_buffer (le_events (oc_loop oc) 0)
      \<and> adds (N 2) client_buffer (le_metrics (oc_loop oc) 0) \<and> adds (N 3) hn_buffer (le_work (oc_loop oc) 0))"

lemma considerateE:
  assumes "considerate oc h"
  obtains N :: "nat \<Rightarrow> oid set" where "\<And>k. N k \<inter> queued h = {}" "\<And>k l. k \<noteq> l \<Longrightarrow> N k \<inter> N l = {}" "oc_object oc \<notin> queued h \<union> N 0"
    "\<And>k. adds (N 0) fst (waiting (oc_waits oc) k)" "adds (N 0) hn_buffer (oc_others oc)"
    "adds (N 0) hn_buffer (se_tasks (oc_stop oc))" "adds (N 1) client_buffer (se_events (oc_stop oc))"
    "adds (N 2) client_buffer (se_metrics (oc_stop oc))"
    "adds (N 0) hn_buffer (le_sleep (oc_loop oc) 0)" "adds (N 1) client_buffer (le_events (oc_loop oc) 0)"
    "adds (N 2) client_buffer (le_metrics (oc_loop oc) 0)" "adds (N 3) hn_buffer (le_work (oc_loop oc) 0)"
  using assms unfolding considerate_def
proof (elim conjE exE)
  fix N :: "nat \<Rightarrow> oid set"
  assume "disjoint_family N" "\<forall>k. N k \<inter> queued h = {}" "\<forall>k. adds (N 0) fst (waiting (oc_waits oc) k)"
    and rest: "oc_object oc \<notin> queued h \<union> N 0" "adds (N 0) hn_buffer (oc_others oc)" "adds (N 0) hn_buffer (se_tasks (oc_stop oc))"
      "adds (N 1) client_buffer (se_events (oc_stop oc))" "adds (N 2) client_buffer (se_metrics (oc_stop oc))"
      "adds (N 0) hn_buffer (le_sleep (oc_loop oc) 0)" "adds (N 1) client_buffer (le_events (oc_loop oc) 0)"
      "adds (N 2) client_buffer (le_metrics (oc_loop oc) 0)" "adds (N 3) hn_buffer (le_work (oc_loop oc) 0)"
  then have "\<And>k. N k \<inter> queued h = {}" "\<And>k l. k \<noteq> l \<Longrightarrow> N k \<inter> N l = {}" "\<And>k. adds (N 0) fst (waiting (oc_waits oc) k)"
    by (simp_all add: disjoint_family_on_def)
  then show thesis by (rule that [OF _ _ rest(1) _ rest(2-9)])
qed

lemma considerate_given: "considerate oc h \<Longrightarrow> oc_key oc \<noteq> [] \<and> (\<forall>k \<in> queued h. k < oc_loaded oc)"
  by (simp add: considerate_def)

text \<open>A Redis handler lists proper keys.\<close>

fun proper_action :: "'r agent_action \<Rightarrow> bool" where
  "proper_action (Call (InitializeRedis R)) \<longleftrightarrow> (\<forall>p r ks r'. rh_keys R p r = (Inr (Some ks), r') \<longrightarrow> list_all proper_key ks)"
| "proper_action _ \<longleftrightarrow> True"

section \<open>Every action keeps the invariant\<close>

text \<open>The buffer of capacity \<open>n\<close> is well formed, and the run lawful.\<close>

definition agent_inv :: "nat \<Rightarrow> kit \<Rightarrow> agent_env \<Rightarrow> (security_event, security_metric, 'r) agent_state \<Rightarrow> bool" where
  "agent_inv n K env = (\<lambda>(h, s). holds n UNIV UNIV (hn_buffer h) \<and> lawful K env s)"

lemma holds_weaken: "holds n Me Mm B \<Longrightarrow> holds n UNIV UNIV B"
  by (auto elim: holds_mono)

lemma holds_queued: "holds n UNIV UNIV (hn_buffer h) \<Longrightarrow> holds n (queued h) (queued h) (hn_buffer h)"
  by (auto simp: holds_def queued_def)

lemma holds_frame [simp]:
  "holds n Me Mm (hn_buffer (h\<lparr>hn_client := cl\<rparr>)) = holds n Me Mm (client_buffer cl)"
  "holds n Me Mm (hn_buffer (h\<lparr>hn_running := b\<rparr>)) = holds n Me Mm (hn_buffer h)"
  "holds n Me Mm (hn_buffer (h\<lparr>hn_flush_failures := k\<rparr>)) = holds n Me Mm (hn_buffer h)"
  "holds n Me Mm (hn_buffer (h\<lparr>hn_rules_failures := k\<rparr>)) = holds n Me Mm (hn_buffer h)"
  "holds n Me Mm (hn_buffer (end_tasks h)) = holds n Me Mm (hn_buffer h)"
  "holds n Me Mm (hn_buffer (h\<lparr>hn_last_status_push := p, hn_status_failures := k\<rparr>)) = holds n Me Mm (hn_buffer h)"
  "holds n Me Mm (hn_buffer (h\<lparr>hn_cached_rules := rs, hn_rules_last_update := t, hn_rules_fetched := i\<rparr>))
     = holds n Me Mm (hn_buffer h)"
  "holds n Me Mm (hn_buffer (h\<lparr>hn_redis := R, hn_client := cl\<rparr>)) = holds n Me Mm (client_buffer cl)"
  "holds n Me Mm (hn_buffer (h\<lparr>hn_running := b, hn_flush_task := t1, hn_status_task := t2, hn_rules_task := t3\<rparr>))
     = holds n Me Mm (hn_buffer h)"
  by (simp_all add: hn_buffer_def client_buffer_def end_tasks_def)

lemma holds_auto_flush [simp]:
  "holds n Me Mm (start_auto_flush B) = holds n Me Mm B" "holds n Me Mm (stop_auto_flush B) = holds n Me Mm B"
  "holds n Me Mm (end_flush_loop B) = holds n Me Mm B"
  by (simp_all add: holds_def start_auto_flush_def stop_auto_flush_def end_flush_loop_def buffer_wf_def buffer_maxlen_def)

lemma stop_agent_inv:
  assumes laws: "kit_laws K" and inv: "agent_inv n K env (h, s)" and c: "considerate oc h"
    and stop: "stop_agent K env w (oc_stop oc) (h, s) = (res, hs')"
  shows "agent_inv n K env hs'" "res = Inl e \<Longrightarrow> e = CancelledError"
proof -
  let ?E = "oc_stop oc"
  obtain N :: "nat \<Rightarrow> oid set" where N: "\<And>k. N k \<inter> queued h = {}" "\<And>k l. k \<noteq> l \<Longrightarrow> N k \<inter> N l = {}"
      "adds (N 0) hn_buffer (se_tasks ?E)" "adds (N 1) client_buffer (se_events ?E)" "adds (N 2) client_buffer (se_metrics ?E)"
    by (rule considerateE [OF c]) (rule that, assumption+)
  define h0 where "h0 = end_tasks (se_tasks ?E (h\<lparr>hn_running := False\<rparr>))"
  define h1 where "h1 = update_buffer stop_auto_flush h0"
  have start: "holds n (queued h) (queued h) (hn_buffer (h\<lparr>hn_running := False\<rparr>))" "lawful K env s"
    using inv holds_queued by (auto simp: agent_inv_def)
  have h0: "holds n (queued h \<union> N 0) (queued h \<union> N 0) (hn_buffer h0)"
    unfolding h0_def using addsD [OF N(3) start(1)] by simp
  then have h1: "holds n (queued h \<union> N 0) (queued h \<union> N 0) (client_buffer (hn_client h1))"
    by (simp add: h1_def hn_buffer_client [symmetric])
  have dis: "(queued h \<union> N 0) \<inter> N 1 = {}" "(queued h \<union> N 0) \<inter> N 2 = {}" "N 1 \<inter> N 2 = {}"
    using N(1) [of 1] N(1) [of 2] N(2) [of 0 1] N(2) [of 0 2] N(2) [of 1 2] by auto
  have *: "agent_inv n K env hs' \<and> (\<forall>e. res = Inl e \<longrightarrow> e = CancelledError)"
  proof (cases "se_gather ?E \<and> bf_inflight (hn_buffer h0) \<noteq> 0")
    case True
    then have "hs' = (update_buffer end_flush_loop h0, s)" "res = Inl CancelledError"
      using stop by (simp_all add: stop_agent_def h0_def [symmetric])
    with holds_weaken [OF h0] start(2) show ?thesis by (simp add: agent_inv_def)
  next
    case False
    obtain r cl s1 calls where f: "flush_buffer K env w (se_clock ?E) (se_events ?E) (se_metrics ?E) (hn_client h1) s = (r, cl, s1, calls)"
      by (metis prod_cases4)
    note facts = holds_weaken [OF flush_buffer_holds [OF laws h1 N(4,5) dis f]] flush_buffer_lawful [OF laws start(2) f]
      flush_buffer_result [OF f]
    have "lawful K env (s1\<lparr>rn_transport := tp\<rparr>) = lawful K env s1" for tp by (simp add: lawful_def)
    with False stop f facts show ?thesis
      by (auto simp: stop_agent_def Let_def h0_def [symmetric] h1_def [symmetric] agent_inv_def)
  qed
  then show "agent_inv n K env hs'" "res = Inl e \<Longrightarrow> e = CancelledError" by auto
qed

lemma start_agent_inv:
  assumes laws: "kit_laws K" and inv: "agent_inv n K env (h, s)" and c: "considerate oc h"
    and start: "start_agent K env w (oc_stop oc) (h, s) = (res, hs')"
  shows "agent_inv n K env hs'" "res = Inl e \<Longrightarrow> e = CancelledError \<or> kt_open_client K (client_headers env) = Some e"
proof -
  obtain r s1 where i: "initialize K env s = (r, s1)" by fastforce
  then have r: "r = Inr () \<or> (\<exists>e. r = Inl e \<and> kt_open_client K (client_headers env) = Some e)" and tr: "rn_trace s1 = rn_trace s"
    by (auto simp: initialize_def bind_op_def get_transport_def ret_def throw_def modify_transport_def split: if_splits option.splits)
  have inv1: "agent_inv n K env (h, s1)" using inv tr by (simp add: agent_inv_def lawful_def)
  have *: "agent_inv n K env hs' \<and> (\<forall>e. res = Inl e \<longrightarrow> e = CancelledError \<or> kt_open_client K (client_headers env) = Some e)"
  proof (cases "hn_running h")
    case True
    with start inv show ?thesis by (auto simp: start_agent_def)
  next
    case False
    show ?thesis
    proof (cases r)
      case (Inl e)
      obtain q hs2 where st: "stop_agent K env w (oc_stop oc) (h, s1) = (q, hs2)" by (meson surj_pair)
      note facts = stop_agent_inv [OF laws inv1 c st]
      from facts r Inl False start i inv1 st show ?thesis
        by (auto simp: start_agent_def split: if_splits sum.splits)
    next
      case (Inr u)
      with Inr False start i inv1 show ?thesis
        by (auto simp: start_agent_def Let_def agent_inv_def)
    qed
  qed
  then show "agent_inv n K env hs'" "res = Inl e \<Longrightarrow> e = CancelledError \<or> kt_open_client K (client_headers env) = Some e" by auto
qed

lemma lawful_transport [simp]: "lawful K env (s\<lparr>rn_transport := tp\<rparr>) = lawful K env s"
  by (simp add: lawful_def)

lemma get_dynamic_rules_inv:
  assumes laws: "kit_laws K" and inv: "holds n Me Mm (hn_buffer h)" "lawful K env s" and o: "adds N hn_buffer others"
    and g: "get_dynamic_rules K env w now others h s = (res, h', s')"
  shows "agent_inv n K env (h', s')" "res = Inl e \<Longrightarrow> e = CancelledError"
proof -
  have *: "agent_inv n K env (h', s') \<and> (\<forall>e. res = Inl e \<longrightarrow> e = CancelledError)"
  proof (cases "rules_from_cache now h")
    case None
    obtain q s1 where f: "fetch_dynamic_rules K env w s = (q, s1)" by fastforce
    have "lawful K env s1" by (rule lawful_send(4) [OF laws inv(2) f])
    moreover have "holds n UNIV UNIV (hn_buffer (others h))" by (rule holds_weaken [OF addsD [OF o inv(1)]])
    ultimately show ?thesis
      using g None f by (auto simp: get_dynamic_rules_def rules_fetched_def agent_inv_def not_catchable
          split: sum.splits option.splits if_splits)
  qed (use g inv in \<open>auto simp: get_dynamic_rules_def agent_inv_def dest: holds_weaken\<close>)
  then show "agent_inv n K env (h', s')" "res = Inl e \<Longrightarrow> e = CancelledError" by auto
qed

lemma slept_inv:
  assumes "agent_inv n K env (h, s)" and a: "adds N hn_buffer (le_sleep L 0)" and "slept L 0 (h, s) = (h1, s1)"
  shows "holds n (queued h \<union> N) (queued h \<union> N) (hn_buffer h1)" "lawful K env s1"
proof -
  have inv: "holds n UNIV UNIV (hn_buffer h)" "lawful K env s" using assms(1) by (simp_all add: agent_inv_def)
  have h1: "h1 = le_sleep L 0 h" and s1: "lawful K env s1 = lawful K env s" using assms(3) by (auto simp: slept_def)
  show "holds n (queued h \<union> N) (queued h \<union> N) (hn_buffer h1)"
    unfolding h1 by (rule addsD [OF a holds_queued [OF inv(1)]])
  show "lawful K env s1" using s1 inv(2) by simp
qed

lemma flush_round_inv:
  assumes laws: "kit_laws K" and inv: "agent_inv n K env (h, s)" and c: "considerate oc h"
  shows "agent_inv n K env (fst (snd (flush_round K env w (oc_loop oc) 0 (h, s))))"
proof -
  let ?L = "oc_loop oc"
  obtain N :: "nat \<Rightarrow> oid set" where N: "\<And>k. N k \<inter> queued h = {}" "\<And>k l. k \<noteq> l \<Longrightarrow> N k \<inter> N l = {}"
      "adds (N 0) hn_buffer (le_sleep ?L 0)" "adds (N 1) client_buffer (le_events ?L 0)"
      "adds (N 2) client_buffer (le_metrics ?L 0)" "adds (N 3) hn_buffer (le_work ?L 0)"
    by (rule considerateE [OF c]) (rule that, assumption+)
  obtain h1 s1 where sl: "slept ?L 0 (h, s) = (h1, s1)" by fastforce
  note h1 = slept_inv(1) [OF inv N(3) sl] and s1 = slept_inv(2) [OF inv N(3) sl]
  then have h1': "holds n (queued h \<union> N 0) (queued h \<union> N 0) (client_buffer (hn_client h1))" by (simp add: hn_buffer_client)
  have dis: "(queued h \<union> N 0) \<inter> N 1 = {}" "(queued h \<union> N 0) \<inter> N 2 = {}" "N 1 \<inter> N 2 = {}"
    using N(1) [of 1] N(1) [of 2] N(2) [of 0 1] N(2) [of 0 2] N(2) [of 1 2] by auto
  obtain r cl s2 calls where f: "flush_buffer K env w (le_clock ?L 0) (le_events ?L 0) (le_metrics ?L 0) (hn_client h1) s1 = (r, cl, s2, calls)"
    by (metis prod_cases4)
  have "holds n UNIV UNIV (hn_buffer (le_work ?L 0 (h1\<lparr>hn_client := cl\<rparr>)))"
    using flush_buffer_holds [OF laws h1' N(4,5) dis f] by (intro holds_weaken [OF addsD [OF N(6)]]) simp
  moreover have "lawful K env s2" by (rule flush_buffer_lawful [OF laws s1 f])
  ultimately show ?thesis
    using f holds_weaken [OF h1] s1 by (auto simp: flush_round_def sl agent_inv_def Let_def split: sum.split)
qed

lemma status_round_inv:
  assumes laws: "kit_laws K" and inv: "agent_inv n K env (h, s)" and c: "considerate oc h"
  shows "agent_inv n K env (fst (snd (status_round K env w (oc_loop oc) 0 (h, s))))"
proof -
  let ?L = "oc_loop oc"
  obtain N :: "nat \<Rightarrow> oid set" where N: "adds (N 0) hn_buffer (le_sleep ?L 0)" "adds (N 3) hn_buffer (le_work ?L 0)"
    by (rule considerateE [OF c]) (rule that, assumption+)
  obtain h1 s1 where sl: "slept ?L 0 (h, s) = (h1, s1)" by fastforce
  note h1 = slept_inv(1) [OF inv N(1) sl] and s1 = slept_inv(2) [OF inv N(1) sl]
  obtain r s2 where f: "send_status K env w (get_status (le_timestamp ?L 0) (le_clock ?L 0 ! 0) h1 (rn_transport s1)) s1 = (r, s2)"
    by fastforce
  have "lawful K env s2" by (rule lawful_send(3) [OF laws s1 f])
  with f holds_weaken [OF h1] holds_weaken [OF addsD [OF N(2) h1]] s1 show ?thesis
    by (auto simp: status_round_def sl agent_inv_def Let_def status_push_failed_def split: sum.split bool.split)
qed

lemma rules_round_inv:
  assumes laws: "kit_laws K" and inv: "agent_inv n K env (h, s)" and c: "considerate oc h"
  shows "agent_inv n K env (fst (snd (rules_round K env w (oc_loop oc) 0 (h, s))))"
proof -
  let ?L = "oc_loop oc"
  obtain N :: "nat \<Rightarrow> oid set" where N: "adds (N 0) hn_buffer (le_sleep ?L 0)" "adds (N 3) hn_buffer (le_work ?L 0)"
    by (rule considerateE [OF c]) (rule that, assumption+)
  obtain h1 s1 where sl: "slept ?L 0 (h, s) = (h1, s1)" by fastforce
  note h1 = slept_inv(1) [OF inv N(1) sl] and s1 = slept_inv(2) [OF inv N(1) sl]
  obtain r h2 s2 where g: "get_dynamic_rules K env w (le_clock ?L 0 ! 0) (le_work ?L 0) h1 s1 = (r, h2, s2)" by (metis prod_cases3)
  from get_dynamic_rules_inv(1) [OF laws h1 s1 N(2) g] g holds_weaken [OF h1] s1 show ?thesis
    by (auto simp: rules_round_def sl agent_inv_def split: sum.split)
qed

lemma swallowed: "swallow x = (Inl e, s') \<Longrightarrow> e = CancelledError"
  by (cases x) (auto dest: swallow_error)

lemma initialize_redis_inv:
  assumes inv: "holds n UNIV UNIV (hn_buffer h)" and new: "\<forall>k \<in> queued h. k < i"
    and keys: "\<forall>p r ks r'. rh_keys R p r = (Inr (Some ks), r') \<longrightarrow> list_all proper_key ks"
    and i: "handler_initialize_redis KE KM i i R h = (res, h')"
  shows "holds n UNIV UNIV (hn_buffer h')" "res = Inl e \<Longrightarrow> e = CancelledError"
proof -
  obtain B r where B: "cl_buffer (hn_client h) = (B, r)" by fastforce
  obtain q b where q: "initialize_redis KE KM i i R (B, r) = (q, b)" by (meson surj_pair)
  have small: "\<forall>k \<in> ids (ln_items (bf_events B)). k < i" "\<forall>k \<in> ids (ln_items (bf_metrics B)). k < i" and wf: "buffer_wf B"
    and n: "buffer_maxlen B = n"
    using new inv B by (auto simp: queued_def hn_buffer_def holds_def)
  have "buffer_op (B, r) b" by (rule buffer_op.load [OF q small keys])
  from buffer_op_wf [OF this] buffer_op_config [OF this] wf n have "holds n UNIV UNIV (fst b)"
    by (simp add: holds_def buffer_maxlen_def)
  moreover have "q = Inl e \<Longrightarrow> e = CancelledError"
    using q by (auto simp: initialize_redis_def load_from_redis_def dest: swallowed)
  ultimately show "holds n UNIV UNIV (hn_buffer h')" "res = Inl e \<Longrightarrow> e = CancelledError"
    using i B q by (auto simp: handler_initialize_redis_def client_buffer_def)
qed

text \<open>
  What an action may raise: the cancellation of its task, and a start the exception of opening the HTTP
  client.
\<close>

definition excused :: "kit \<Rightarrow> agent_env \<Rightarrow> 'r agent_action \<Rightarrow> exn \<Rightarrow> bool" where
  "excused K env act e \<longleftrightarrow> e = CancelledError \<or> act = Call Start \<and> kt_open_client K (client_headers env) = Some e"

lemma do_call_inv:
  assumes laws: "kit_laws K" and inv: "agent_inv n K env (h, s)" and c: "considerate oc h" and proper: "proper_action (Call call)"
    and d: "do_call K env oc call (h, s) = Some (res, hs')"
  shows "agent_inv n K env hs' \<and> (\<forall>e. res = Inl e \<longrightarrow> excused K env (Call call) e)"
proof (cases call)
  case (InitializeRedis R)
  obtain r h' where i: "handler_initialize_redis (oc_event_kind oc) (oc_metric_kind oc) (oc_loaded oc) (oc_loaded oc) R h = (r, h')"
    by (meson surj_pair)
  have "holds n UNIV UNIV (hn_buffer h)" using inv by (simp add: agent_inv_def)
  from initialize_redis_inv [OF this _ _ i] considerate_given [OF c] proper inv d i InitializeRedis show ?thesis
    by (auto simp: agent_inv_def answered_def excused_def map_sum_Inl)
next
  case (SendEvent x)
  obtain N :: "nat \<Rightarrow> oid set" where N: "oc_object oc \<notin> queued h \<union> N 0" "\<And>k. adds (N 0) fst (waiting (oc_waits oc) k)"
    by (rule considerateE [OF c]) (rule that, assumption+)
  obtain r b where e: "send_event (kt_values K) (oc_build_event oc) (hn_config h) (oc_fuel oc) (oc_waits oc) (oc_event_kind oc)
          (oc_key oc) (oc_object oc) x (cl_buffer (hn_client h)) = Some (r, b)" "res = answered r" "hs' = (put_buffer b h, s)"
    using d SendEvent by auto
  have "holds n (queued h) (queued h) (fst (cl_buffer (hn_client h)))"
    using holds_queued [of n h] inv by (simp add: agent_inv_def hn_buffer_def)
  from send_event_holds [OF this N(1) _ N(2) e(1)] considerate_given [OF c] inv e(2,3) show ?thesis
    by (auto simp: agent_inv_def put_buffer_def client_buffer_def answered_def excused_def map_sum_Inl dest: holds_weaken)
next
  case (SendMetric x)
  obtain N :: "nat \<Rightarrow> oid set" where N: "oc_object oc \<notin> queued h \<union> N 0" "\<And>k. adds (N 0) fst (waiting (oc_waits oc) k)"
    by (rule considerateE [OF c]) (rule that, assumption+)
  obtain r b where e: "send_metric (kt_values K) (oc_build_metric oc) (hn_config h) (oc_fuel oc) (oc_waits oc) (oc_metric_kind oc)
          (oc_key oc) (oc_object oc) x (cl_buffer (hn_client h)) = Some (r, b)" "res = answered r" "hs' = (put_buffer b h, s)"
    using d SendMetric by auto
  have "holds n (queued h) (queued h) (fst (cl_buffer (hn_client h)))"
    using holds_queued [of n h] inv by (simp add: agent_inv_def hn_buffer_def)
  from send_metric_holds [OF this N(1) _ N(2) e(1)] considerate_given [OF c] inv e(2,3) show ?thesis
    by (auto simp: agent_inv_def put_buffer_def client_buffer_def answered_def excused_def map_sum_Inl dest: holds_weaken)
next
  case Start
  obtain r hs2 where st: "start_agent K env (oc_world oc) (oc_stop oc) (h, s) = (r, hs2)" by (meson surj_pair)
  from start_agent_inv [OF laws inv c st] d st Start show ?thesis by (auto simp: answered_def excused_def map_sum_Inl)
next
  case Stop
  obtain r hs2 where st: "stop_agent K env (oc_world oc) (oc_stop oc) (h, s) = (r, hs2)" by (meson surj_pair)
  from stop_agent_inv [OF laws inv c st] d st Stop show ?thesis by (auto simp: answered_def excused_def map_sum_Inl)
next
  case Close
  obtain r hs2 where st: "stop_agent K env (oc_world oc) (oc_stop oc) (h, s) = (r, hs2)" by (meson surj_pair)
  from stop_agent_inv [OF laws inv c st] d st Close show ?thesis by (auto simp: answered_def excused_def map_sum_Inl)
next
  case FlushBuffer
  let ?E = "oc_stop oc"
  obtain N :: "nat \<Rightarrow> oid set" where N: "\<And>k. N k \<inter> queued h = {}" "\<And>k l. k \<noteq> l \<Longrightarrow> N k \<inter> N l = {}"
      "adds (N 1) client_buffer (se_events ?E)" "adds (N 2) client_buffer (se_metrics ?E)"
    by (rule considerateE [OF c]) (rule that, assumption+)
  obtain r cl s1 calls where f: "flush_buffer K env (oc_world oc) (se_clock ?E) (se_events ?E) (se_metrics ?E) (hn_client h) s = (r, cl, s1, calls)"
    by (metis prod_cases4)
  have start: "holds n (queued h) (queued h) (client_buffer (hn_client h))" "lawful K env s"
    using holds_queued [of n h] inv by (simp_all add: agent_inv_def hn_buffer_client)
  have dis: "queued h \<inter> N 1 = {}" "queued h \<inter> N 2 = {}" "N 1 \<inter> N 2 = {}"
    using N(1) [of 1] N(1) [of 2] N(2) [of 1 2] by auto
  from holds_weaken [OF flush_buffer_holds [OF laws start(1) N(3,4) dis f]] flush_buffer_lawful [OF laws start(2) f]
    flush_buffer_result [OF f] d f FlushBuffer show ?thesis
    by (auto simp: agent_inv_def answered_def excused_def)
next
  case GetDynamicRules
  obtain N :: "nat \<Rightarrow> oid set" where N: "adds (N 0) hn_buffer (oc_others oc)"
    by (rule considerateE [OF c]) (rule that, assumption+)
  obtain r h2 s2 where g: "get_dynamic_rules K env (oc_world oc) (oc_now oc) (oc_others oc) h s = (r, h2, s2)" by (metis prod_cases3)
  have "holds n UNIV UNIV (hn_buffer h)" "lawful K env s" using inv by (simp_all add: agent_inv_def)
  from get_dynamic_rules_inv [OF laws this N g] d g GetDynamicRules show ?thesis by (auto simp: excused_def map_sum_Inl)
qed (use d inv in auto)

lemma do_action_inv:
  assumes "kit_laws K" and "agent_inv n K env hs" and "considerate oc (fst hs)" and "proper_action act"
    and "do_action K env oc act hs = Some (res, hs')"
  shows "agent_inv n K env hs' \<and> (\<forall>e. res = Inl e \<longrightarrow> excused K env act e)"
proof -
  obtain h s where hs: "hs = (h, s)" by fastforce
  show ?thesis
  proof (cases act)
    case (Call call)
    with assms show ?thesis by (auto simp: hs dest: do_call_inv)
  next
    case (Round t)
    with assms flush_round_inv status_round_inv rules_round_inv show ?thesis by (cases t) (auto simp: hs)
  qed
qed

section \<open>Runs\<close>

text \<open>A run of the agent: actions, each with an outside of its own, and what they answered.\<close>

inductive agent_run :: "kit \<Rightarrow> agent_env \<Rightarrow> (security_event, security_metric, 'r) agent_state
   \<Rightarrow> ('r agent_action \<times> (exn + agent_answer)) list \<Rightarrow> (security_event, security_metric, 'r) agent_state \<Rightarrow> bool"
  for K env hs where
  nothing: "agent_run K env hs [] hs"
| action: "agent_run K env hs answers hs1 \<Longrightarrow> considerate oc (fst hs1) \<Longrightarrow> proper_action act \<Longrightarrow>
    do_action K env oc act hs1 = Some (res, hs2) \<Longrightarrow> agent_run K env hs (answers @ [(act, res)]) hs2"


section \<open>A concrete run\<close>

text \<open>An outside in which nothing else happens; the new object is \<open>i\<close>.\<close>

definition quiet_occasion :: "oid \<Rightarrow> unit occasion" where
  "quiet_occasion i = \<lparr>oc_world = sample_world (status_reply 201), oc_stop = idle_env 500, oc_loop = sample_loop_env,
     oc_waits = (\<lambda>k. Some), oc_others = id, oc_fuel = 1, oc_event_kind = sample_event_kind, oc_metric_kind = sample_metric_kind,
     oc_build_event = (\<lambda>d. Inl (ValueError [])), oc_build_metric = (\<lambda>d. Inl (ValueError [])), oc_key = ''k'',
     oc_object = i, oc_loaded = 100, oc_timestamp = ''t'', oc_now = 500\<rparr>"

lemma adds_id: "adds N view (\<lambda>x. x)" "adds N view id"
  by (auto simp: adds_def elim: holds_mono)

lemma waiting_idle [simp]: "waiting (\<lambda>k. Some) k = (\<lambda>s. s)"
  by (simp add: waiting_def fun_eq_iff)

lemma quiet_considerate:
  assumes "i \<notin> queued h" and "\<forall>k \<in> queued h. k < 100"
  shows "considerate (quiet_occasion i) h"
  unfolding considerate_def
proof (intro conjI)
  show "\<exists>N :: nat \<Rightarrow> oid set. disjoint_family N \<and> (\<forall>k. N k \<inter> queued h = {}) \<and> oc_object (quiet_occasion i) \<notin> queued h \<union> N 0
      \<and> (\<forall>k. adds (N 0) fst (waiting (oc_waits (quiet_occasion i)) k)) \<and> adds (N 0) hn_buffer (oc_others (quiet_occasion i))
      \<and> adds (N 0) hn_buffer (se_tasks (oc_stop (quiet_occasion i))) \<and> adds (N 1) client_buffer (se_events (oc_stop (quiet_occasion i)))
      \<and> adds (N 2) client_buffer (se_metrics (oc_stop (quiet_occasion i)))
      \<and> adds (N 0) hn_buffer (le_sleep (oc_loop (quiet_occasion i)) 0) \<and> adds (N 1) client_buffer (le_events (oc_loop (quiet_occasion i)) 0)
      \<and> adds (N 2) client_buffer (le_metrics (oc_loop (quiet_occasion i)) 0) \<and> adds (N 3) hn_buffer (le_work (oc_loop (quiet_occasion i)) 0)"
    by (rule exI [of _ "\<lambda>_. {}"])
       (use assms(1) in \<open>simp add: quiet_occasion_def idle_env_def sample_loop_env_def adds_id disjoint_family_on_def\<close>)
qed (use assms(2) in \<open>simp_all add: quiet_occasion_def\<close>)

definition resting_handler :: "(security_event, security_metric, unit) handler" where
  "resting_handler = sample_handler\<lparr>hn_running := False\<rparr>"

lemma resting_queue: "queued resting_handler = {1, 5}" "buffer_wf (hn_buffer resting_handler)"
  by (simp_all add: queued_def resting_handler_def sample_handler_def hn_buffer_def sample_client_def event_buffer_init_def
      buffer_wf_def buffer_maxlen_def default_config_def lane_wf_def empty_lane_def insert_commute)

text \<open>The agent starts, takes an event in, and flushes.\<close>

lemma resting_run:
  "\<exists>res hs. agent_run sample_kit sample_env (resting_handler, sample_run)
     [(Call Start, Inr Done), (Call (SendEvent (Instance secret_event)), Inr Done), (Call FlushBuffer, res)] hs"
proof -
  let ?oc = "quiet_occasion 9"
  obtain s1 where i: "initialize sample_kit sample_env sample_run = (Inr (), s1)"
    by (simp add: initialize_def op_simps sample_kit_def sample_run_def)
  define h1 where "h1 = (update_buffer start_auto_flush resting_handler)\<lparr>hn_running := True, hn_flush_task := Some False,
     hn_status_task := Some False, hn_rules_task := (if has_project (hn_config resting_handler) then Some False
       else hn_rules_task resting_handler)\<rparr>"
  have "\<not> hn_running resting_handler" by (simp add: resting_handler_def)
  then have start: "do_action sample_kit sample_env ?oc (Call Start) (resting_handler, sample_run) = Some (Inr Done, h1, s1)"
    using i by (simp add: start_agent_def Let_def answered_def h1_def)
  have buffer: "cl_buffer (hn_client h1) = (start_auto_flush (fst (cl_buffer sample_client)), ())" "hn_config h1 = cl_config sample_client"
    by (simp_all add: h1_def update_buffer_def hn_config_def resting_handler_def sample_handler_def split: prod.split)
  have q1: "queued h1 = {1, 5}"
    using buffer by (simp add: queued_def hn_buffer_def start_auto_flush_def sample_client_def event_buffer_init_def empty_lane_def insert_commute)
  obtain b where e: "send_event (kt_values sample_kit) (\<lambda>d. Inl (ValueError [])) (cl_config sample_client) 1 (\<lambda>k. Some) sample_event_kind
      ''k'' 9 (Instance secret_event) (cl_buffer (hn_client h1)) = Some (Inr (), b)"
    "ids (ln_items (bf_events (fst b))) = {1, 9}" "ids (ln_items (bf_metrics (fst b))) = {5}"
    by (simp add: buffer ingest_simps sample_client_def start_auto_flush_def early_flush_due_def)
  then have send: "do_action sample_kit sample_env ?oc (Call (SendEvent (Instance secret_event))) (h1, s1)
      = Some (Inr Done, put_buffer b h1, s1)" and q2: "queued (put_buffer b h1) = {1, 9, 5}"
    by (auto simp: quiet_occasion_def answered_def buffer queued_def hn_buffer_def put_buffer_def)
  obtain res hs where flush: "do_action sample_kit sample_env (quiet_occasion 10) (Call FlushBuffer) (put_buffer b h1, s1) = Some (res, hs)"
    by (metis (mono_tags, lifting) do_action.simps(1) do_call.simps(6) case_prod_beta)
  have "agent_run sample_kit sample_env (resting_handler, sample_run)
      ((([] @ [(Call Start, Inr Done)]) @ [(Call (SendEvent (Instance secret_event)), Inr Done)]) @ [(Call FlushBuffer, res)]) hs"
    by (rule agent_run.action [OF agent_run.action [OF agent_run.action [OF agent_run.nothing _ _ start] _ _ send] _ _ flush])
       (simp_all add: quiet_considerate resting_queue q1 q2)
  then show ?thesis by (simp only: append.simps) blast
qed


end
