(* ===== verification/Package.thy ===== *)
theory Package
  imports PyErrors
begin

text \<open>
  What a program gets by importing the package: the names \<open>guard_agent/__init__.py\<close> binds and exports, and
  the deprecated package \<open>shim/fastapi_guard_agent\<close>, which warns and passes them on.
\<close>

section \<open>Imports and exports\<close>

text \<open>The \<open>from module import names\<close> statements, in their order.\<close>

definition package_imports :: "(string \<times> string list) list" where
  "package_imports = [
     (''guard_agent._version'', [''__version__'']),
     (''guard_agent.buffer'', [''EventBuffer'']),
     (''guard_agent.client'', [''GuardAgentHandler'', ''SyncGuardAgentHandler'', ''guard_agent'']),
     (''guard_agent.exceptions'', [''BufferFullError'', ''GuardAgentError'']),
     (''guard_agent.logging_utils'', [''setup_agent_logging'']),
     (''guard_agent.models'', [''AgentConfig'', ''AgentStatus'', ''DynamicRules'', ''EventBatch'', ''SecurityEvent'', ''SecurityMetric'']),
     (''guard_agent.protocols'', [''AgentHandlerProtocol'', ''BufferProtocol'', ''RedisHandlerProtocol'', ''TransportProtocol'']),
     (''guard_agent.transport'', [''HTTPTransport'']),
     (''guard_agent.utils'', [''CircuitBreaker'', ''RateLimiter'', ''generate_batch_id'', ''get_current_timestamp'', ''hash_ip'',
        ''sanitize_headers'', ''truncate_payload'', ''validate_config''])]"

definition package_all :: "string list" where
  "package_all = [''guard_agent'', ''GuardAgentHandler'', ''SyncGuardAgentHandler'', ''AgentConfig'', ''SecurityEvent'',
     ''SecurityMetric'', ''DynamicRules'', ''AgentStatus'', ''EventBatch'', ''EventBuffer'', ''BufferFullError'',
     ''GuardAgentError'', ''HTTPTransport'', ''AgentHandlerProtocol'', ''TransportProtocol'', ''BufferProtocol'',
     ''RedisHandlerProtocol'', ''generate_batch_id'', ''get_current_timestamp'', ''hash_ip'', ''sanitize_headers'',
     ''truncate_payload'', ''validate_config'', ''setup_agent_logging'', ''RateLimiter'', ''CircuitBreaker'', ''__version__'']"

text \<open>
  A namespace maps names to objects; an import binds the attributes of a module. \<open>modules\<close> is what the
  interpreter answers for a name of a module: the object, or the exception a missing one raises.
\<close>

fun bind_names :: "(string \<Rightarrow> exn + 'v) \<Rightarrow> string list \<Rightarrow> (string \<Rightarrow> 'v option) \<Rightarrow> exn + (string \<Rightarrow> 'v option)" where
  "bind_names attr [] ns = Inr ns"
| "bind_names attr (x # xs) ns =
     (case attr x of Inl e \<Rightarrow> Inl e | Inr v \<Rightarrow> bind_names attr xs (ns(x \<mapsto> v)))"

fun run_imports :: "(string \<Rightarrow> string \<Rightarrow> exn + 'v) \<Rightarrow> (string \<times> string list) list \<Rightarrow> (string \<Rightarrow> 'v option)
   \<Rightarrow> exn + (string \<Rightarrow> 'v option)" where
  "run_imports modules [] ns = Inr ns"
| "run_imports modules ((m, xs) # rest) ns =
     (case bind_names (modules m) xs ns of Inl e \<Rightarrow> Inl e | Inr ns' \<Rightarrow> run_imports modules rest ns')"

section \<open>The shim\<close>

text \<open>
  The shim warns, which raises when the filters of the program turn the warning into an exception; then
  \<open>from guard_agent import *\<close> binds what \<open>__all__\<close> lists, and the version once more.
\<close>

definition shim_import :: "exn option \<Rightarrow> (string \<Rightarrow> exn + 'v) \<Rightarrow> (string \<Rightarrow> 'v option) \<Rightarrow> exn + (string \<Rightarrow> 'v option)" where
  "shim_import warning package ns =
     (case warning of Some e \<Rightarrow> Inl e
      | None \<Rightarrow> (case bind_names package package_all ns of
            Inl e \<Rightarrow> Inl e | Inr ns' \<Rightarrow> bind_names package [''__version__''] ns'))"

section \<open>What an importer sees\<close>

lemma bind_names_ok:
  "\<forall>x \<in> set xs. attr x = Inr (obj x) \<Longrightarrow> bind_names attr xs ns = Inr (\<lambda>x. if x \<in> set xs then Some (obj x) else ns x)"
proof (induction xs arbitrary: ns)
  case (Cons x xs)
  have "(\<lambda>y. if y \<in> set xs then Some (obj y) else (ns(x \<mapsto> obj x)) y) = (\<lambda>y. if y \<in> set (x # xs) then Some (obj y) else ns y)"
    by auto
  with Cons show ?case by simp
qed simp

lemma package_names:
  "distinct package_all" "distinct (concat (map snd package_imports))" "set package_all = set (concat (map snd package_imports))"
  unfolding package_all_def package_imports_def by (simp, simp, auto)

text \<open>Every imported name is in its module, where it is the object \<open>obj\<close> says.\<close>

definition found :: "(string \<Rightarrow> string \<Rightarrow> exn + 'v) \<Rightarrow> (string \<Rightarrow> string \<Rightarrow> 'v) \<Rightarrow> (string \<times> string list) list \<Rightarrow> bool" where
  "found modules obj ims \<longleftrightarrow> (\<forall>m xs x. (m, xs) \<in> set ims \<longrightarrow> x \<in> set xs \<longrightarrow> modules m x = Inr (obj m x))"

text \<open>When no module binds a name that another one binds too, each name is looked up in its module.\<close>

lemma run_imports_ok:
  assumes "found modules obj ims" and "distinct (concat (map snd ims))"
  shows "\<exists>ns'. run_imports modules ims ns = Inr ns' \<and> (\<forall>m xs x. (m, xs) \<in> set ims \<longrightarrow> x \<in> set xs \<longrightarrow> ns' x = Some (obj m x))
    \<and> (\<forall>x. x \<notin> set (concat (map snd ims)) \<longrightarrow> ns' x = ns x)"
  using assms
proof (induction ims arbitrary: ns)
  case (Cons im ims)
  obtain m xs where im: "im = (m, xs)" by fastforce
  let ?ns = "\<lambda>x. if x \<in> set xs then Some (obj m x) else ns x"
  have b: "bind_names (modules m) xs ns = Inr ?ns" by (rule bind_names_ok) (use Cons.prems(1) im in \<open>auto simp: found_def\<close>)
  have rest: "distinct (concat (map snd ims))" using Cons.prems(2) by simp
  have "found modules obj ims" using Cons.prems(1) unfolding found_def by (meson list.set_intros(2))
  from Cons.IH [of ?ns, OF this rest] obtain ns' where ns': "run_imports modules ims ?ns = Inr ns'"
      "\<forall>m xs x. (m, xs) \<in> set ims \<longrightarrow> x \<in> set xs \<longrightarrow> ns' x = Some (obj m x)"
      "\<forall>x. x \<notin> set (concat (map snd ims)) \<longrightarrow> ns' x = ?ns x" by blast
  have "ns' x = Some (obj m x)" if x: "x \<in> set xs" for x
  proof -
    have "x \<notin> set (concat (map snd ims))" using Cons.prems(2) im x by (auto simp del: set_concat)
    then show ?thesis using ns'(3) x by simp
  qed
  with ns' b im show ?case by (intro exI [of _ ns']) auto
qed simp

text \<open>
  With every module in place the package imports, exports each listed name as its module has it, and the
  shim gives a program exactly those names, whatever it had bound itself.
\<close>

theorem shim_gives_the_package:
  assumes "found modules obj package_imports"
  shows "\<exists>package ns'. run_imports modules package_imports Map.empty = Inr package
    \<and> (\<forall>x \<in> set package_all. package x \<noteq> None) \<and> shim_import None (\<lambda>x. Inr (the (package x))) ns = Inr ns'
    \<and> (\<forall>m xs x. (m, xs) \<in> set package_imports \<longrightarrow> x \<in> set xs \<longrightarrow> ns' x = Some (obj m x))
    \<and> (\<forall>x. x \<notin> set package_all \<longrightarrow> ns' x = ns x)"
proof -
  from run_imports_ok [where ns = Map.empty, OF assms package_names(2)] obtain package where
      p: "run_imports modules package_imports Map.empty = Inr package"
      "\<forall>m xs x. (m, xs) \<in> set package_imports \<longrightarrow> x \<in> set xs \<longrightarrow> package x = Some (obj m x)" by blast
  have all: "x \<in> set package_all \<longleftrightarrow> (\<exists>m xs. (m, xs) \<in> set package_imports \<and> x \<in> set xs)" for x
    unfolding package_names(3) by force
  have v: "''__version__'' \<in> set package_all" by (simp add: package_all_def)
  let ?ns = "\<lambda>x. if x \<in> set package_all then Some (the (package x)) else ns x"
  have "shim_import None (\<lambda>x. Inr (the (package x))) ns = Inr ?ns"
    using v bind_names_ok [of package_all "\<lambda>x. Inr (the (package x))" "\<lambda>x. the (package x)" ns]
    by (auto simp: shim_import_def)
  moreover have "\<forall>x \<in> set package_all. package x \<noteq> None" using p(2) all by blast
  moreover have "\<forall>m xs x. (m, xs) \<in> set package_imports \<longrightarrow> x \<in> set xs \<longrightarrow> ?ns x = Some (obj m x)"
    using p(2) all by auto
  ultimately show ?thesis using p(1) by auto
qed

theorem shim_gives_the_package_witness:
  "\<exists>package ns'. run_imports (\<lambda>m x. Inr (m, x)) package_imports Map.empty = Inr package
    \<and> shim_import None (\<lambda>x. Inr (the (package x))) Map.empty = Inr ns'
    \<and> ns' ''HTTPTransport'' = Some (''guard_agent.transport'', ''HTTPTransport'')"
proof -
  have t: "(''guard_agent.transport'', [''HTTPTransport'']) \<in> set package_imports" by (simp add: package_imports_def)
  show ?thesis using shim_gives_the_package [of "\<lambda>m x. Inr (m, x)" "\<lambda>m x. (m, x)" Map.empty] t
    unfolding found_def by fastforce
qed

end
